(* ===== verification/Prelude.thy ===== *)
theory Prelude
  imports Main "HOL-Library.Sublist" "HOL-Library.Multiset"
begin

text \<open>
  Facts shared by every component: counting over an updated list (the accounting behind the
  registry's slots), invariants of transition systems, and the stable sort that
  \<^verbatim>\<open>sort.SliceStable\<close> computes, stated for any strict weak order.
\<close>

subsection \<open>Counting\<close>

definition count_if :: "('a \<Rightarrow> bool) \<Rightarrow> 'a list \<Rightarrow> nat" where
  "count_if P xs = length (filter P xs)"

lemma count_if_Nil [simp]: "count_if P [] = 0"
  by (simp add: count_if_def)

lemma count_if_Cons [simp]: "count_if P (x # xs) = (if P x then Suc (count_if P xs) else count_if P xs)"
  by (simp add: count_if_def)

lemma count_if_append [simp]: "count_if P (xs @ ys) = count_if P xs + count_if P ys"
  by (simp add: count_if_def)

text \<open>Overwriting one entry changes the count by what the old and the new entry contribute.\<close>

lemma count_if_update:
  "i < length xs \<Longrightarrow>
   count_if P (xs[i := x]) + (if P (xs ! i) then 1 else 0) = count_if P xs + (if P x then 1 else 0)"
proof (induction xs arbitrary: i)
  case Nil
  then show ?case by simp
next
  case (Cons y ys)
  then show ?case by (cases i) auto
qed

lemma count_if_update_same [simp]:
  "P x = P (xs ! i) \<Longrightarrow> count_if P (xs[i := x]) = count_if P xs"
  by (cases "i < length xs") (use count_if_update [of i xs P x] in \<open>auto simp: list_update_beyond\<close>)

lemma count_if_update_lose:
  "i < length xs \<Longrightarrow> P (xs ! i) \<Longrightarrow> \<not> P x \<Longrightarrow> count_if P (xs[i := x]) = count_if P xs - 1"
  using count_if_update [of i xs P x] by simp

lemma count_if_update_gain:
  "i < length xs \<Longrightarrow> \<not> P (xs ! i) \<Longrightarrow> P x \<Longrightarrow> count_if P (xs[i := x]) = Suc (count_if P xs)"
  using count_if_update [of i xs P x] by simp

lemma count_if_pos: "i < length xs \<Longrightarrow> P (xs ! i) \<Longrightarrow> 0 < count_if P xs"
  by (auto simp: count_if_def filter_empty_conv)

lemma nth_list_update_if: "i < length xs \<Longrightarrow> xs[i := x] ! j = (if j = i then x else xs ! j)"
  by (auto simp: nth_list_update)

lemma find_append:
  "find P (xs @ ys) = (case find P xs of None \<Rightarrow> find P ys | Some y \<Rightarrow> Some y)"
  by (induction xs) auto

subsection \<open>Invariants of a transition system\<close>

text \<open>
  An initial predicate and a step relation; what holds initially and is kept by every step holds
  in every reachable state. The interface is instantiated by the registry's interleaving
  semantics and by the concurrent reconcile loops.
\<close>

locale transition_system =
  fixes init :: "'s \<Rightarrow> bool"
    and step :: "'s \<Rightarrow> 's \<Rightarrow> bool"
    and reach :: "'s \<Rightarrow> bool"
  assumes reach_rule: "(\<And>s. init s \<Longrightarrow> P s) \<Longrightarrow> (\<And>s t. reach s \<Longrightarrow> P s \<Longrightarrow> step s t \<Longrightarrow> P t) \<Longrightarrow> reach s \<Longrightarrow> P s"
begin

lemma invariantI:
  assumes "\<And>s. init s \<Longrightarrow> I s" and "\<And>s t. I s \<Longrightarrow> step s t \<Longrightarrow> I t" and "reach s"
  shows "I s"
  using reach_rule [of I s] assms by blast

text \<open>A second invariant may lean on one that is already known.\<close>

lemma invariant_underI:
  assumes "\<And>s. reach s \<Longrightarrow> J s"
    and "\<And>s. init s \<Longrightarrow> I s" and "\<And>s t. J s \<Longrightarrow> I s \<Longrightarrow> step s t \<Longrightarrow> I t" and "reach s"
  shows "I s"
  using reach_rule [of I s] assms by blast

end

subsection \<open>Stable sorting\<close>

text \<open>
  \<^verbatim>\<open>sort.SliceStable(x, lt)\<close>: for a strict weak order there is exactly one stable
  sorted rearrangement, so an insertion sort stands for the library's insertion/merge mix
  (\<open>SliceStable_unique\<close> below).
\<close>

fun insert_stable :: "('a \<Rightarrow> 'a \<Rightarrow> bool) \<Rightarrow> 'a \<Rightarrow> 'a list \<Rightarrow> 'a list" where
  "insert_stable lt x [] = [x]"
| "insert_stable lt x (y # ys) =
     (if lt y x then y # insert_stable lt x ys else x # y # ys)"

definition SliceStable :: "('a \<Rightarrow> 'a \<Rightarrow> bool) \<Rightarrow> 'a list \<Rightarrow> 'a list" where
  "SliceStable lt xs = foldr (insert_stable lt) xs []"

lemma SliceStable_Nil [simp]: "SliceStable lt [] = []"
  by (simp add: SliceStable_def)

lemma SliceStable_Cons [simp]: "SliceStable lt (x # xs) = insert_stable lt x (SliceStable lt xs)"
  by (simp add: SliceStable_def)

lemma mset_insert_stable [simp]: "mset (insert_stable lt x xs) = add_mset x (mset xs)"
  by (induction xs) auto

lemma set_insert_stable [simp]: "set (insert_stable lt x xs) = insert x (set xs)"
  by (induction xs) auto

lemma mset_SliceStable [simp]: "mset (SliceStable lt xs) = mset xs"
  by (induction xs) auto

lemma set_SliceStable [simp]: "set (SliceStable lt xs) = set xs"
  by (induction xs) auto

lemma length_SliceStable [simp]: "length (SliceStable lt xs) = length xs"
  by (metis mset_SliceStable size_mset)

locale weak_order =
  fixes lt :: "'a \<Rightarrow> 'a \<Rightarrow> bool"
  assumes asym: "lt x y \<Longrightarrow> \<not> lt y x"
    and neg_trans: "\<not> lt x y \<Longrightarrow> \<not> lt y z \<Longrightarrow> \<not> lt x z"
begin

definition tied :: "'a \<Rightarrow> 'a \<Rightarrow> bool" where
  "tied x y \<longleftrightarrow> \<not> lt x y \<and> \<not> lt y x"

lemma irrefl [simp]: "\<not> lt x x"
  using asym by blast

lemma tied_refl [simp]: "tied x x"
  by (simp add: tied_def)

lemma sorted_insert_stable:
  "sorted_wrt (\<lambda>x y. \<not> lt y x) xs \<Longrightarrow> sorted_wrt (\<lambda>x y. \<not> lt y x) (insert_stable lt a xs)"
proof (induction xs)
  case Nil
  then show ?case by simp
next
  case (Cons y ys)
  show ?case
  proof (cases "lt y a")
    case True
    then have "\<not> lt a y" by (rule asym)
    with True Cons show ?thesis by simp
  next
    case False
    then have "\<not> lt z a" if "\<not> lt z y" for z
      using neg_trans [OF that] by blast
    with False Cons.prems show ?thesis by auto
  qed
qed

lemma sorted_SliceStable: "sorted_wrt (\<lambda>x y. \<not> lt y x) (SliceStable lt xs)"
  by (induction xs) (auto intro: sorted_insert_stable)

lemma filter_tied_insert:
  "filter (tied z) (insert_stable lt a xs) = filter (tied z) (a # xs)"
proof (induction xs)
  case Nil
  then show ?case by simp
next
  case (Cons y ys)
  have "\<not> (tied z a \<and> tied z y)" if "lt y a"
    using that neg_trans by (auto simp: tied_def)
  with Cons show ?case by auto
qed

lemma stable_SliceStable: "filter (tied z) (SliceStable lt xs) = filter (tied z) xs"
  by (induction xs) (simp_all add: filter_tied_insert)

text \<open>Sortedness and stability determine the result.\<close>

lemma sorted_stable_unique:
  assumes "sorted_wrt (\<lambda>x y. \<not> lt y x) xs" and "sorted_wrt (\<lambda>x y. \<not> lt y x) ys"
    and "\<And>z. filter (tied z) xs = filter (tied z) ys"
  shows "xs = ys"
  using assms
proof (induction xs arbitrary: ys)
  case Nil
  show ?case
  proof (cases ys)
    case (Cons y ys')
    with Nil.prems(3) [of y] show ?thesis by simp
  qed simp
next
  case (Cons x xs)
  obtain y ys' where ys: "ys = y # ys'"
    using Cons.prems(3) [of x] by (cases ys) auto
  have "x \<in> set (filter (tied x) ys)"
    by (simp flip: Cons.prems(3))
  then have "x \<in> set ys" by simp
  moreover have "y \<in> set (filter (tied y) (x # xs))"
    unfolding Cons.prems(3) ys by simp
  then have "y \<in> set (x # xs)" by (metis filter_is_subset subsetD)
  ultimately have "tied x y"
    using Cons.prems(1,2) ys by (auto simp: tied_def)
  then have xy: "x = y"
    using Cons.prems(3) [of x] ys by (simp add: tied_def)
  have "filter (tied z) xs = filter (tied z) ys'" for z
    using Cons.prems(3) [of z] ys xy by (auto split: if_splits)
  then have "xs = ys'"
    using Cons.prems(1,2) ys by (intro Cons.IH) auto
  with ys xy show ?case by simp
qed

lemma SliceStable_unique:
  assumes "sorted_wrt (\<lambda>x y. \<not> lt y x) ys" and "\<And>z. filter (tied z) ys = filter (tied z) xs"
  shows "ys = SliceStable lt xs"
  using assms sorted_stable_unique [OF assms(1) sorted_SliceStable] stable_SliceStable by simp

end

end
