(* ===== verification/Go_Lib.thy ===== *)
theory Go_Lib
  imports Prelude "HOL-Library.Word" "HOL-Library.Char_ord" "HOL-Library.List_Lexorder"
begin

text \<open>
  The parts of Go's standard library the sources use, on Go's own representations: a Go string
  is a byte sequence, here a \<^typ>\<open>string\<close> whose characters are bytes (so \<open>length\<close> is Go's
  \<^verbatim>\<open>len\<close> and \<open><\<close> on strings is the bytewise order of \<^verbatim>\<open><\<close>); paths are Unix paths; an
  instant is its distance in nanoseconds from Go's zero \<^verbatim>\<open>time.Time\<close>; a duration is a signed
  64-bit count of nanoseconds whose saturation and wrap-around are written out.
\<close>

unbundle bit_operations_syntax

named_theorems golib "unfolding of the library functions for evaluation"

subsection \<open>strings\<close>

definition HasPrefix :: "string \<Rightarrow> string \<Rightarrow> bool" where
  "HasPrefix s p \<longleftrightarrow> length p \<le> length s \<and> take (length p) s = p"

definition HasSuffix :: "string \<Rightarrow> string \<Rightarrow> bool" where
  "HasSuffix s p \<longleftrightarrow> length p \<le> length s \<and> drop (length s - length p) s = p"

fun Index :: "string \<Rightarrow> string \<Rightarrow> nat option" where
  "Index [] sub = (if sub = [] then Some 0 else None)"
| "Index (c # cs) sub = (if HasPrefix (c # cs) sub then Some 0 else map_option Suc (Index cs sub))"

text \<open>\<^verbatim>\<open>strings.Replace(s, old, new, 1)\<close>, with a non-empty \<open>old\<close>.\<close>

definition Replace1 :: "string \<Rightarrow> string \<Rightarrow> string \<Rightarrow> string" where
  "Replace1 s old new =
     (case Index s old of None \<Rightarrow> s | Some i \<Rightarrow> take i s @ new @ drop (i + length old) s)"

text \<open>\<^verbatim>\<open>strings.Split\<close> at a one-byte separator.\<close>

fun Split :: "char \<Rightarrow> string \<Rightarrow> string list" where
  "Split sep [] = [[]]"
| "Split sep (c # cs) =
     (if c = sep then [] # Split sep cs
      else (case Split sep cs of [] \<Rightarrow> [[c]] | l # ls \<Rightarrow> (c # l) # ls))"

text \<open>\<^verbatim>\<open>TrimRight\<close> with an ASCII cutset.\<close>

definition TrimRight :: "string \<Rightarrow> string \<Rightarrow> string" where
  "TrimRight s cutset = rev (dropWhile (\<lambda>c. c \<in> set cutset) (rev s))"

text \<open>
  \<^verbatim>\<open>TrimSpace\<close> removes leading and trailing Unicode white space. On bytes that is: remove, as
  long as one matches, the UTF-8 encoding of a white-space rune (the ASCII ones, U+0085, U+00A0,
  U+1680, U+2000..U+200A, U+2028, U+2029, U+202F, U+205F, U+3000).
\<close>

definition bytes :: "nat list \<Rightarrow> string" where
  "bytes ns = map char_of ns"

definition space_runes :: "string list" where
  "space_runes =
     map bytes ([[9], [10], [11], [12], [13], [32], [194, 133], [194, 160], [225, 154, 128]]
       @ map (\<lambda>k. [226, 128, k]) [128, 129, 130, 131, 132, 133, 134, 135, 136, 137, 138, 168, 169, 175]
       @ [[226, 129, 159], [227, 128, 128]])"

lemma find_SomeD_prefix:
  "find (\<lambda>r. r \<noteq> [] \<and> HasPrefix s r) rs = Some r \<Longrightarrow> length s - length r < length s"
  by (cases s) (auto simp: find_Some_iff HasPrefix_def intro!: diff_less)

function trim_front :: "string list \<Rightarrow> string \<Rightarrow> string" where
  "trim_front rs s =
     (case find (\<lambda>r. r \<noteq> [] \<and> HasPrefix s r) rs of
        None \<Rightarrow> s
      | Some r \<Rightarrow> trim_front rs (drop (length r) s))"
  by pat_completeness auto
termination
  by (relation "measure (\<lambda>(rs, s). length s)") (auto dest!: find_SomeD_prefix)

declare trim_front.simps [simp del]

definition TrimSpace :: "string \<Rightarrow> string" where
  "TrimSpace s = rev (trim_front (map rev space_runes) (rev (trim_front space_runes s)))"

text \<open>A string whose first and last bytes are printable ASCII is left alone.\<close>

definition printable :: "char \<Rightarrow> bool" where
  "printable c \<longleftrightarrow> 33 \<le> (of_char c :: nat) \<and> (of_char c :: nat) < 127"

lemma trim_front_printable:
  assumes "s \<noteq> []" and "printable (hd s)" and "list_all (\<lambda>r. r = [] \<or> \<not> printable (hd r)) rs"
  shows "trim_front rs s = s"
proof -
  have "\<not> HasPrefix s r" if "r \<in> set rs" "r \<noteq> []" for r
    using assms that by (cases r; cases s) (auto simp: HasPrefix_def list_all_iff)
  then have "find (\<lambda>r. r \<noteq> [] \<and> HasPrefix s r) rs = None" by (auto simp: find_None_iff)
  then show ?thesis by (simp add: trim_front.simps)
qed

lemma TrimSpace_printable:
  assumes "s \<noteq> []" and "printable (hd s)" and "printable (last s)"
  shows "TrimSpace s = s"
proof -
  have "list_all (\<lambda>r. r = [] \<or> \<not> printable (hd r)) space_runes" "list_all (\<lambda>r. r = [] \<or> \<not> printable (hd r)) (map rev space_runes)"
    by (simp_all add: space_runes_def bytes_def printable_def)
  with assms show ?thesis by (simp add: TrimSpace_def trim_front_printable hd_rev)
qed

lemma TrimSpace_Nil [simp]: "TrimSpace [] = []"
proof -
  have "find (\<lambda>r. r \<noteq> [] \<and> HasPrefix [] r) rs = None" for rs by (auto simp: find_None_iff HasPrefix_def)
  then have "trim_front rs [] = []" for rs by (subst trim_front.simps) simp
  then show ?thesis by (simp add: TrimSpace_def)
qed

lemma HasPrefix_append [simp]: "HasPrefix (p @ s) p"
  by (simp add: HasPrefix_def)

lemma HasSuffix_append [simp]: "HasSuffix (s @ p) p"
  by (simp add: HasSuffix_def)

lemma HasSuffix_iff: "HasSuffix s p \<longleftrightarrow> (\<exists>q. s = q @ p)"
  by (auto simp: HasSuffix_def) (metis append_take_drop_id)

lemma HasPrefix_iff: "HasPrefix s p \<longleftrightarrow> (\<exists>q. s = p @ q)"
  by (auto simp: HasPrefix_def) (metis append_take_drop_id)

lemma Index_Some_split: "Index s sub = Some i \<Longrightarrow> s = take i s @ sub @ drop (i + length sub) s"
proof (induction s arbitrary: i)
  case Nil
  then show ?case by (simp split: if_splits)
next
  case (Cons c cs)
  then show ?case
    by (auto simp: HasPrefix_iff split: if_splits)
qed

subsection \<open>Bytes and UTF-8\<close>

text \<open>\<^verbatim>\<open>b&0xC0 == 0x80\<close>: a UTF-8 continuation byte.\<close>

definition cont_byte :: "char \<Rightarrow> bool" where
  "cont_byte c \<longleftrightarrow> (of_char c :: 8 word) AND 0xC0 = 0x80"

lemma cont_byte_char_of [simp]:
  "cont_byte (char_of (n :: nat)) \<longleftrightarrow> (of_nat (n mod 256) :: 8 word) AND 0xC0 = 0x80"
  unfolding cont_byte_def by (metis of_nat_of_char of_char_of)

text \<open>
  A rune's encoding is a byte that is not a continuation byte followed by continuation bytes;
  a text is a list of encodings. (Which lead byte announces how many followers is immaterial to
  the cuts below.)
\<close>

definition rune_enc :: "string \<Rightarrow> bool" where
  "rune_enc r \<longleftrightarrow> r \<noteq> [] \<and> \<not> cont_byte (hd r) \<and> (\<forall>c \<in> set (tl r). cont_byte c)"

subsection \<open>path/filepath\<close>

abbreviation slash :: char where "slash \<equiv> CHR ''/''"

definition IsAbs :: "string \<Rightarrow> bool" where
  "IsAbs p \<longleftrightarrow> HasPrefix p ''/''"

text \<open>One step of \<^verbatim>\<open>filepath.Clean\<close> on the stack of kept elements (top first).\<close>

definition clean_step :: "bool \<Rightarrow> string \<Rightarrow> string list \<Rightarrow> string list" where
  "clean_step rooted c st =
     (if c = [] \<or> c = ''.'' then st
      else if c = ''..'' then
        (case st of
           [] \<Rightarrow> if rooted then [] else [''..'']
         | t # ts \<Rightarrow> if t = ''..'' then ''..'' # st else ts)
      else c # st)"

fun join_slash :: "string list \<Rightarrow> string" where
  "join_slash [] = []"
| "join_slash [x] = x"
| "join_slash (x # y # ys) = x @ ''/'' @ join_slash (y # ys)"

definition Clean :: "string \<Rightarrow> string" where
  "Clean p =
     (let rooted = IsAbs p;
          out = (if rooted then ''/'' else []) @ join_slash (rev (fold (clean_step rooted) (Split slash p) []))
      in if out = [] then ''.'' else out)"

text \<open>\<^verbatim>\<open>filepath.Join\<close>: the elements from the first non-empty one on, joined and cleaned.\<close>

definition Join :: "string list \<Rightarrow> string" where
  "Join es = (case dropWhile (\<lambda>e. e = []) es of [] \<Rightarrow> [] | e # rest \<Rightarrow> Clean (join_slash (e # rest)))"

subsection \<open>time\<close>

type_synonym Time = int
type_synonym Duration = int

definition minDuration :: Duration where "minDuration = - (2 ^ 63)"
definition maxDuration :: Duration where "maxDuration = 2 ^ 63 - 1"

definition Millisecond :: Duration where "Millisecond = 1000000"
definition Second :: Duration where "Second = 1000 * Millisecond"
definition Minute :: Duration where "Minute = 60 * Second"

definition IsZero :: "Time \<Rightarrow> bool" where "IsZero t \<longleftrightarrow> t = 0"

text \<open>\<^verbatim>\<open>Time.Sub\<close> saturates at the ends of the 64-bit range.\<close>

definition Sub :: "Time \<Rightarrow> Time \<Rightarrow> Duration" where
  "Sub t u = max minDuration (min maxDuration (t - u))"

text \<open>\<^verbatim>\<open>Duration.Abs\<close> maps the most negative duration to the largest one; unary minus wraps.\<close>

definition Abs :: "Duration \<Rightarrow> Duration" where
  "Abs d = (if d \<ge> 0 then d else if d = minDuration then maxDuration else - d)"

definition Neg :: "Duration \<Rightarrow> Duration" where
  "Neg d = (if d = minDuration then minDuration else - d)"

lemmas duration_defs [golib] = minDuration_def maxDuration_def Millisecond_def Second_def Minute_def

lemma Sub_le_iff:
  "0 \<le> d \<Longrightarrow> d < maxDuration \<Longrightarrow> d < Sub t u \<longleftrightarrow> d < t - u"
  by (auto simp: Sub_def minDuration_def maxDuration_def max_def min_def)

lemma Abs_Sub_le_iff:
  "0 \<le> d \<Longrightarrow> d < maxDuration \<Longrightarrow> Abs (Sub t u) \<le> d \<longleftrightarrow> \<bar>t - u\<bar> \<le> d"
  by (auto simp: Abs_def Sub_def minDuration_def maxDuration_def max_def min_def)

text \<open>A negated saturated duration stays negative: far-future instants look recent to it.\<close>

lemma Neg_wraps: "Neg minDuration < 0"
  by (simp add: Neg_def minDuration_def)

subsection \<open>os\<close>

text \<open>
  The operating system as the program observes it: each call answers with an error or a value.
  An observation is a parameter of the operations that make it.
\<close>

datatype FsError = ErrNotExist | FsOther string

record FileInfo =
  fi_IsDir :: bool
  fi_ModTime :: Time
  fi_Size :: nat

record DirEntry =
  de_Name :: string
  de_IsDir :: bool

record FS =
  fs_ReadFile :: "string \<Rightarrow> FsError + string"
  fs_Stat :: "string \<Rightarrow> FsError + FileInfo"
  fs_ReadDir :: "string \<Rightarrow> FsError + DirEntry list"
  fs_EvalSymlinks :: "string \<Rightarrow> FsError + string"

end
