(* ===== verification/Config.thy ===== *)
theory Config
  imports Go_Lib
begin

text \<open>
  \<^verbatim>\<open>internal/config/config.go\<close>: the compile-time constants (concurrency cap, liveness windows,
  retry budget, truncation limits, the forcing prompt and its contract skeletons, the error
  codes) and the resolution of the state directory from the environment.
\<close>

subsection \<open>Concurrency and liveness\<close>

definition DefaultConcurrencyCap :: int where "DefaultConcurrencyCap = 4"

definition ForcedAgentTimeoutMs :: int where "ForcedAgentTimeoutMs = 1200000"

definition StaleThreshold :: Duration where
  "StaleThreshold = ForcedAgentTimeoutMs * Millisecond + 10 * Minute"

definition EarlyInactivityWarn :: Duration where "EarlyInactivityWarn = 5 * Minute"

definition MaxAuthoringRetries :: nat where "MaxAuthoringRetries = 2"

definition WaitCapDefault :: Duration where "WaitCapDefault = 5 * Minute"

text \<open>
  \<^verbatim>\<open>WaitCap\<close>: the environment is the function \<open>getenv\<close> (unset variables read as the empty
  string) and \<^verbatim>\<open>time.ParseDuration\<close> the partial function \<open>parse\<close>.
\<close>

definition WaitCap :: "(string \<Rightarrow> string) \<Rightarrow> (string \<Rightarrow> Duration option) \<Rightarrow> Duration" where
  "WaitCap getenv parse =
     (let v = getenv ''PI_MCP_WAIT_CAP'' in
      if v \<noteq> [] then
        (case parse v of
           Some d \<Rightarrow> if d > 0 then d else WaitCapDefault
         | None \<Rightarrow> WaitCapDefault)
      else WaitCapDefault)"

lemmas liveness_defs = StaleThreshold_def ForcedAgentTimeoutMs_def EarlyInactivityWarn_def
  WaitCapDefault_def duration_defs

lemma StaleThreshold_bounds [simp]: "0 < StaleThreshold" "0 \<le> StaleThreshold" "StaleThreshold < maxDuration"
  by (simp_all add: liveness_defs)

lemma EarlyInactivityWarn_bounds [simp]:
  "0 < EarlyInactivityWarn" "0 \<le> EarlyInactivityWarn" "EarlyInactivityWarn < StaleThreshold" "EarlyInactivityWarn < maxDuration"
  by (simp_all add: liveness_defs)

lemma WaitCap_positive: "0 < WaitCap getenv parse"
  by (auto simp: WaitCap_def Let_def liveness_defs split: option.split)

subsection \<open>Invocation of pi\<close>

definition PiBinary :: string where "PiBinary = ''pi''"
definition NoContextFilesFlag :: string where "NoContextFilesFlag = ''--no-context-files''"
definition PiBaseFlags :: "string list" where
  "PiBaseFlags = [''-p'', ''--mode'', ''json'', ''--no-session'']"
definition OrchestratorModel :: string where "OrchestratorModel = ''openai-codex/gpt-5.5''"
definition OrchestratorThinking :: string where "OrchestratorThinking = ''high''"

subsection \<open>Worktrees, run files, truncation\<close>

definition WorktreeBranchPrefix :: string where "WorktreeBranchPrefix = ''pi-mcp/job-''"
definition WorktreeSubdir :: string where "WorktreeSubdir = ''pi-mcp/worktrees''"
definition RunsDirRel :: string where "RunsDirRel = ''.pi/workflows/runs''"
definition MaxInlineResultBytes :: int where "MaxInlineResultBytes = 16 * 1024"
definition MaxAuthoringPreviewBytes :: nat where "MaxAuthoringPreviewBytes = 6 * 1024"

subsection \<open>The forcing prompt\<close>

definition nl :: string where "nl = bytes [10]"

definition ForcingPromptTemplate :: string where
  "ForcingPromptTemplate =
     ''You MUST make exactly ONE call to the `workflow` tool with background:false. Do not answer'' @ nl @
     ''directly. Do not use background:true. Return the final synthesized result INLINE this turn.'' @ nl @
     ''Decompose the task as you see fit and fan out subagents in parallel.'' @ nl @
     ''Run the workflow to completion without throttling: pass tokenBudget:2000000000 (effectively'' @ nl @
     ''unlimited) to the workflow tool and do NOT set per-phase budgets '' @ bytes [226, 128, 148] @ '' never stop or throttle the run'' @ nl @
     ''for token or cost reasons. Pass the large value EXPLICITLY; do not rely on omitting it.'' @ nl @
     ''Give agents room to finish: pass agentTimeoutMs:1200000 (20 minutes) to the workflow tool so'' @ nl @
     ''coding/TDD agents are not killed by the 5-minute default per-agent timeout. Do NOT set a'' @ nl @
     ''per-agent timeoutMs on any agent() call '' @ bytes [226, 128, 148] @ '' it overrides agentTimeoutMs and re-introduces the'' @ nl @
     ''5-minute kill; rely solely on the single agentTimeoutMs above.'' @ nl @
     ''The workflow MUST return an object matching exactly this JSON shape:'' @ nl @
     ''{{CONTRACT}}'' @ nl @
     nl @
     ''TASK:'' @ nl @
     ''{{TASK}}'' @ nl @
     nl @
     ''[CONTEXT:'' @ nl @
     ''{{CONTEXT}}]''"

definition ReadContractSkeleton :: string where
  \<open>ReadContractSkeleton = ''{ "summary": "string", "findings": [ { "title": "string", "detail": "string", "severity": "low|med|high" } ], "confidence": "string", "open_questions": ["string"] }''\<close>

definition WriteContractSkeleton :: string where
  \<open>WriteContractSkeleton = ''{ "summary": "string", "files_changed": ["string"], "diff_summary": "string", "tests_run": "string", "notes": "string" }''\<close>

subsection \<open>Error codes\<close>

definition ErrModelRoutingError :: string where "ErrModelRoutingError = ''MODEL_ROUTING_ERROR''"
definition ErrAgentTimeout :: string where "ErrAgentTimeout = ''AGENT_TIMEOUT''"
definition ErrAgentExecutionError :: string where "ErrAgentExecutionError = ''AGENT_EXECUTION_ERROR''"
definition ErrWorkflowAborted :: string where "ErrWorkflowAborted = ''WORKFLOW_ABORTED''"
definition ErrAgentLimitExceeded :: string where "ErrAgentLimitExceeded = ''AGENT_LIMIT_EXCEEDED''"
definition ErrTokenBudgetExhausted :: string where "ErrTokenBudgetExhausted = ''TOKEN_BUDGET_EXHAUSTED''"
definition ErrScriptValidationError :: string where "ErrScriptValidationError = ''SCRIPT_VALIDATION_ERROR''"
definition ErrSchemaNoncompliance :: string where "ErrSchemaNoncompliance = ''SCHEMA_NONCOMPLIANCE''"
definition ErrPersistenceError :: string where "ErrPersistenceError = ''PERSISTENCE_ERROR''"
definition ErrUnknown :: string where "ErrUnknown = ''UNKNOWN''"
definition ErrServerRestarted :: string where "ErrServerRestarted = ''SERVER_RESTARTED''"
definition ErrNotAGitRepo :: string where "ErrNotAGitRepo = ''NOT_A_GIT_REPO''"
definition ErrNoWorkflowRun :: string where "ErrNoWorkflowRun = ''NO_WORKFLOW_RUN''"

lemmas error_code_defs = ErrModelRoutingError_def
  ErrAgentTimeout_def
  ErrAgentExecutionError_def
  ErrWorkflowAborted_def
  ErrAgentLimitExceeded_def
  ErrTokenBudgetExhausted_def
  ErrScriptValidationError_def
  ErrSchemaNoncompliance_def
  ErrPersistenceError_def
  ErrUnknown_def
  ErrServerRestarted_def
  ErrNotAGitRepo_def
  ErrNoWorkflowRun_def

subsection \<open>State paths\<close>

definition StateDir :: "(string \<Rightarrow> string) \<Rightarrow> string \<Rightarrow> string" where
  "StateDir getenv TempDir =
     (if getenv ''XDG_STATE_HOME'' \<noteq> [] then getenv ''XDG_STATE_HOME''
      else if getenv ''HOME'' \<noteq> [] then Join [getenv ''HOME'', ''.local'', ''state'']
      else TempDir)"

definition RegistryPathFor :: "string \<Rightarrow> string" where
  "RegistryPathFor stateDir = Join [stateDir, ''pi-mcp'', ''registry.db'']"

definition RegistryPath :: "(string \<Rightarrow> string) \<Rightarrow> string \<Rightarrow> string" where
  "RegistryPath getenv TempDir = RegistryPathFor (StateDir getenv TempDir)"

end
