(* ===== verification/Model.thy ===== *)
theory Model
  imports Config
begin

text \<open>
  \<^verbatim>\<open>internal/model/model.go\<close>: the run file, the job record and the inputs and outputs of the MCP
  tools. A struct is a record whose fields carry the struct's initials; a pointer or an
  \<^verbatim>\<open>omitempty\<close> optional is an \<open>option\<close>; \<^verbatim>\<open>json.RawMessage\<close> is its bytes (the empty string when
  absent); \<^verbatim>\<open>int64\<close> is \<open>64 word\<close>; \<^verbatim>\<open>float64\<close>, which the program only copies, is its 64-bit
  pattern; \<^verbatim>\<open>any\<close> is the datatype \<open>any\<close> of decoded JSON values.
\<close>

type_synonym int64 = "64 word"
type_synonym float64 = "64 word"

datatype any = ANil | ABool bool | AFloat float64 | AString string
  | AArray "any list" | AMap "(string \<times> any) list"

subsection \<open>The run file\<close>

record TokenUsage =
  tu_Input :: int64
  tu_Output :: int64
  tu_Total :: int64
  tu_Cost :: float64
  tu_CacheRead :: int64
  tu_CacheWrite :: int64

record Agent =
  ag_ID :: int
  ag_CallIndex :: int
  ag_Label :: string
  ag_Model :: string
  ag_Phase :: string
  ag_Prompt :: string
  ag_Status :: string
  ag_ResultPreview :: string
  ag_Tokens :: int64
  ag_StartedAt :: "Time option"
  ag_EndedAt :: "Time option"
  ag_Error :: "string option"

record JournalEntry =
  je_Index :: int
  je_Hash :: string
  je_Result :: string

record Run =
  run_RunID :: string
  run_SessionID :: string
  run_WorkflowName :: string
  run_Status :: string
  run_CurrentPhase :: "string option"
  run_Phases :: "string list"
  run_Agents :: "Agent list"
  run_Journal :: "JournalEntry list"
  run_Logs :: "string list"
  run_Result :: string
  run_StartedAt :: "Time option"
  run_CompletedAt :: "Time option"
  run_UpdatedAt :: "Time option"
  run_DurationMs :: "int64 option"
  run_TokenUsage :: "TokenUsage option"
  run_Args :: string

record AuthoringInfo =
  ai_JobID :: string
  ai_Model :: string
  ai_Chars :: nat
  ai_Preview :: string
  ai_Done :: bool
  ai_UpdatedAt :: string

subsection \<open>The job record\<close>

text \<open>
  \<^verbatim>\<open>JobStatus\<close> and \<^verbatim>\<open>JobMode\<close> are string types: a value read back from the database or from a
  legacy file can be any string. The constants are opaque to the simplifier, which knows only
  that they differ.
\<close>

type_synonym JobStatus = string
type_synonym JobMode = string

definition JobQueued :: JobStatus where "JobQueued = ''queued''"
definition JobRunning :: JobStatus where "JobRunning = ''running''"
definition JobCompleted :: JobStatus where "JobCompleted = ''completed''"
definition JobFailed :: JobStatus where "JobFailed = ''failed''"
definition JobAborted :: JobStatus where "JobAborted = ''aborted''"

definition ModeRead :: JobMode where "ModeRead = ''read''"
definition ModeWrite :: JobMode where "ModeWrite = ''write''"

lemmas status_defs = JobQueued_def JobRunning_def JobCompleted_def JobFailed_def JobAborted_def
lemmas mode_defs = ModeRead_def ModeWrite_def

lemma status_distinct [simp]:
  "JobQueued \<noteq> JobRunning" "JobQueued \<noteq> JobCompleted" "JobQueued \<noteq> JobFailed" "JobQueued \<noteq> JobAborted"
  "JobRunning \<noteq> JobQueued" "JobRunning \<noteq> JobCompleted" "JobRunning \<noteq> JobFailed" "JobRunning \<noteq> JobAborted"
  "JobCompleted \<noteq> JobQueued" "JobCompleted \<noteq> JobRunning" "JobCompleted \<noteq> JobFailed" "JobCompleted \<noteq> JobAborted"
  "JobFailed \<noteq> JobQueued" "JobFailed \<noteq> JobRunning" "JobFailed \<noteq> JobCompleted" "JobFailed \<noteq> JobAborted"
  "JobAborted \<noteq> JobQueued" "JobAborted \<noteq> JobRunning" "JobAborted \<noteq> JobCompleted" "JobAborted \<noteq> JobFailed"
  by (simp_all add: status_defs)

lemma mode_distinct [simp]: "ModeRead \<noteq> ModeWrite" "ModeWrite \<noteq> ModeRead"
  by (simp_all add: mode_defs)

record JobRecord =
  jr_JobID :: string
  jr_RunID :: string
  jr_SessionID :: string
  jr_Mode :: JobMode
  jr_CWD :: string
  jr_RunsDir :: string
  jr_WorktreePath :: string
  jr_Branch :: string
  jr_PID :: int
  jr_Status :: JobStatus
  jr_StartedAt :: Time
  jr_ErrorCode :: string
  jr_ErrorMessage :: string
  jr_RunSnapshot :: string

definition zero_JobRecord :: JobRecord where
  "zero_JobRecord = \<lparr>jr_JobID = [], jr_RunID = [], jr_SessionID = [], jr_Mode = [], jr_CWD = [],
     jr_RunsDir = [], jr_WorktreePath = [], jr_Branch = [], jr_PID = 0, jr_Status = [],
     jr_StartedAt = 0, jr_ErrorCode = [], jr_ErrorMessage = [], jr_RunSnapshot = []\<rparr>"

subsection \<open>Tool inputs and outputs\<close>

record WorkflowInput =
  wi_Task :: string
  wi_Mode :: string
  wi_CWD :: string
  wi_Context :: string

record WorkflowOutput =
  wo_JobID :: string
  wo_Status :: string
  wo_Mode :: string
  wo_CWD :: string
  wo_WorktreePath :: string
  wo_StartedAt :: Time

record StatusInput =
  si_JobID :: string
  si_RunID :: string
  si_CWD :: string
  si_Wait :: bool
  si_FromStart :: bool
  si_IncludeResults :: bool

record IntermediateResult =
  ir_Label :: string
  ir_Model :: string
  ir_Phase :: string
  ir_Result :: any
  ir_Preview :: string
  ir_Truncated :: bool

record StatusEvent =
  se_Label :: string
  se_Model :: string
  se_Phase :: string
  se_Status :: string
  se_Error :: string
  se_Result :: any
  se_Preview :: string
  se_Truncated :: bool

record StatusMetadata =
  sm_ByModel :: "(string \<times> nat) list"
  sm_AgentCount :: nat
  sm_TokenUsage :: "TokenUsage option"
  sm_DurationMs :: "int64 option"

record Progress =
  pg_ElapsedSeconds :: int
  pg_WorktreeFiles :: nat
  pg_LastActivitySeconds :: "int option"

record WriteInfo =
  wr_Branch :: string
  wr_WorktreePath :: string
  wr_DiffStat :: string
  wr_FilesChanged :: "string list"

record StatusOutput =
  so_JobID :: string
  so_RunID :: "string option"
  so_Status :: string
  so_Phase :: "string option"
  so_BlindWindow :: bool
  so_Events :: "StatusEvent list"
  so_AgentsDone :: nat
  so_AgentsTotal :: nat
  so_Result :: any
  so_Metadata :: "StatusMetadata option"
  so_Write :: "WriteInfo option"
  so_Progress :: "Progress option"
  so_Authoring :: "AuthoringInfo option"
  so_Error :: string

record ListInput =
  li_CWD :: string
  li_Limit :: int

record ListItem =
  lm_RunID :: string
  lm_WorkflowName :: string
  lm_Status :: string
  lm_AgentCount :: nat
  lm_ByModel :: "(string \<times> nat) list"
  lm_Cost :: "float64 option"
  lm_DurationMs :: "int64 option"
  lm_CompletedAt :: "Time option"

record CancelOutput =
  co_JobID :: string
  co_Status :: string

end
