(* ===== verification/Live_Status.thy ===== *)
theory Live_Status
  imports Model
begin

text \<open>
  \<^verbatim>\<open>internal/livestatus/livestatus.go\<close>: the mapping of a run file's status to the surfaced
  vocabulary and the liveness override, shared by the MCP server and the dashboard; and
  \<^verbatim>\<open>internal/jobs/liveness.go\<close>, the registry's own override.
\<close>

definition MapDisk :: "string \<Rightarrow> string" where
  "MapDisk disk =
     (if disk = ''completed'' then ''completed''
      else if disk = ''failed'' then ''failed''
      else if disk = ''aborted'' then ''aborted''
      else ''running'')"

definition IsTerminal :: "string \<Rightarrow> bool" where
  "IsTerminal mapped \<longleftrightarrow> mapped = ''completed'' \<or> mapped = ''failed'' \<or> mapped = ''aborted''"

definition Derive :: "string \<Rightarrow> Time option \<Rightarrow> Time \<Rightarrow> bool \<Rightarrow> bool \<Rightarrow> string" where
  "Derive disk updatedAt now pidAlive worktreeActive =
     (let mapped = MapDisk disk in
      if IsTerminal mapped then mapped
      else if \<not> pidAlive then ''failed''
      else if worktreeActive then mapped
      else (case updatedAt of
              Some u \<Rightarrow> if Sub now u > StaleThreshold then ''stalled'' else mapped
            | None \<Rightarrow> mapped))"

definition isTerminal :: "JobStatus \<Rightarrow> bool" where
  "isTerminal s \<longleftrightarrow> s = JobCompleted \<or> s = JobFailed \<or> s = JobAborted"

lemma isTerminal_simps [simp]:
  "isTerminal JobCompleted" "isTerminal JobFailed" "isTerminal JobAborted"
  "\<not> isTerminal JobQueued" "\<not> isTerminal JobRunning"
  by (simp_all add: isTerminal_def)

lemma IsTerminal_literals [simp]:
  "IsTerminal ''completed''" "IsTerminal ''failed''" "IsTerminal ''aborted''"
  "\<not> IsTerminal ''running''" "\<not> IsTerminal ''queued''" "\<not> IsTerminal ''stalled''" "\<not> IsTerminal []"
  by (simp_all add: IsTerminal_def)

lemma isTerminal_IsTerminal: "isTerminal = IsTerminal"
  by (auto simp: fun_eq_iff isTerminal_def IsTerminal_def status_defs)

lemma MapDisk_values: "MapDisk d \<in> {''completed'', ''failed'', ''aborted'', ''running''}"
  by (simp add: MapDisk_def)

lemma IsTerminal_MapDisk: "IsTerminal (MapDisk d) \<longleftrightarrow> IsTerminal d"
  by (auto simp: MapDisk_def IsTerminal_def)

lemma MapDisk_nonterminal: "\<not> IsTerminal d \<Longrightarrow> MapDisk d = ''running''"
  by (auto simp: MapDisk_def IsTerminal_def)

subsection \<open>The registry's liveness override\<close>

text \<open>\<^verbatim>\<open>syscall.Kill(pid, 0)\<close> answers for the operating system: success, EPERM or another error.\<close>

datatype KillResult = KillOK | KillEPERM | KillOther

definition pidAlive :: "(int \<Rightarrow> KillResult) \<Rightarrow> int \<Rightarrow> bool" where
  "pidAlive kill pid =
     (if pid \<le> 0 then False
      else case kill pid of KillOK \<Rightarrow> True | KillEPERM \<Rightarrow> True | KillOther \<Rightarrow> False)"

definition effectiveStatus ::
    "(int \<Rightarrow> KillResult) \<Rightarrow> JobRecord \<Rightarrow> Time \<Rightarrow> bool \<Rightarrow> Time \<Rightarrow> JobStatus" where
  "effectiveStatus kill r updatedAt sameSession now =
     (if jr_Status r \<in> {JobCompleted, JobFailed, JobAborted, JobQueued} then jr_Status r
      else if jr_Status r = JobRunning then
        (if \<not> IsZero updatedAt \<and> Sub now updatedAt > StaleThreshold then JobFailed
         else if sameSession \<and> \<not> pidAlive kill (jr_PID r) then JobFailed
         else JobRunning)
      else jr_Status r)"

subsection \<open>What the overrides guarantee\<close>

lemma Derive_terminal: "IsTerminal d \<Longrightarrow> Derive d u now alive active = d"
  by (auto simp: Derive_def Let_def IsTerminal_def MapDisk_def)

lemma Derive_nonterminal:
  "\<not> IsTerminal d \<Longrightarrow>
   Derive d u now alive active =
     (if \<not> alive then ''failed''
      else if \<not> active \<and> (\<exists>t. u = Some t \<and> now - t > StaleThreshold) then ''stalled''
      else ''running'')"
  by (auto simp: Derive_def Let_def IsTerminal_MapDisk MapDisk_nonterminal Sub_le_iff split: option.split)

text \<open>the liveness override is total and exact. A terminal disk status is reported as it is,
  whatever the clock, the process and the worktree say; a non-terminal one is \<open>failed\<close> exactly
  when the process is known dead, \<open>stalled\<close> exactly when the process is alive or unknown, the
  worktree is idle and the run file is older than the threshold, and \<open>running\<close> otherwise. In
  particular a stalled run is never reported as terminal.\<close>

theorem Derive_spec:
  "Derive d u now alive active =
     (if IsTerminal d then d
      else if \<not> alive then ''failed''
      else if \<not> active \<and> (\<exists>t. u = Some t \<and> now - t > StaleThreshold) then ''stalled''
      else ''running'')
   \<and> (\<not> IsTerminal (Derive d u now alive active) \<longleftrightarrow> \<not> IsTerminal d \<and> alive)"
  by (cases "IsTerminal d") (simp_all add: Derive_terminal Derive_nonterminal)

end
