(* ===== verification/Reg_Store.thy ===== *)
theory Reg_Store
  imports Live_Status
begin

text \<open>
  \<^verbatim>\<open>internal/jobs/store.go\<close>: the SQLite table behind the job registry. A table is the list of its
  rows in rowid order; the SQL statements of the source are functions on it. Whether a statement
  reaches the database is the caller's \<open>ok\<close> argument: a failed transaction leaves the table as it
  was. Timestamps are kept as instants (the columns hold their RFC3339 text).
\<close>

record Row =
  row_rec :: JobRecord
  row_ownerPid :: int
  row_ownerStartedAt :: string
  row_updatedAt :: Time
  row_runSnapshot :: string

type_synonym Table = "Row list"

abbreviation row_id :: "Row \<Rightarrow> string" where "row_id r \<equiv> jr_JobID (row_rec r)"
abbreviation row_status :: "Row \<Rightarrow> JobStatus" where "row_status r \<equiv> jr_Status (row_rec r)"

text \<open>The primary key.\<close>

definition wf_table :: "Table \<Rightarrow> bool" where
  "wf_table t \<longleftrightarrow> distinct (map row_id t)"

definition tbl_get :: "Table \<Rightarrow> string \<Rightarrow> Row option" where
  "tbl_get t jid = find (\<lambda>r. row_id r = jid) t"

subsection \<open>Statements\<close>

text \<open>\<^verbatim>\<open>upsertSQL\<close>: insert, or on a conflict update every column but \<^verbatim>\<open>runSnapshot\<close> where the row is
  owned by the writer or by nobody.\<close>

fun upsert_row :: "Row \<Rightarrow> Table \<Rightarrow> Table" where
  "upsert_row new [] = [new]"
| "upsert_row new (r # rs) =
     (if row_id r = row_id new then
        (if row_ownerPid r = row_ownerPid new \<or> row_ownerPid r = 0
         then new\<lparr>row_runSnapshot := row_runSnapshot r\<rparr> # rs else r # rs)
      else r # upsert_row new rs)"

definition row_of :: "JobRecord \<Rightarrow> int \<Rightarrow> string \<Rightarrow> Time \<Rightarrow> Row" where
  "row_of r ownerPid ownerStartedAt now =
     \<lparr>row_rec = r\<lparr>jr_RunSnapshot := []\<rparr>, row_ownerPid = ownerPid,
      row_ownerStartedAt = ownerStartedAt, row_updatedAt = now, row_runSnapshot = []\<rparr>"

definition UpsertJobs :: "bool \<Rightarrow> JobRecord list \<Rightarrow> int \<Rightarrow> string \<Rightarrow> Time \<Rightarrow> Table \<Rightarrow> bool \<times> Table" where
  "UpsertJobs ok recs ownerPid ownerStartedAt now t =
     (if ok then (True, fold (\<lambda>r. upsert_row (row_of r ownerPid ownerStartedAt now)) recs t)
      else (False, t))"

definition SaveSnapshot :: "bool \<Rightarrow> string \<Rightarrow> string \<Rightarrow> int \<Rightarrow> Table \<Rightarrow> bool \<times> Table" where
  "SaveSnapshot ok jobID snapshot ownerPid t =
     (if ok then
        (True, map (\<lambda>r. if row_id r = jobID \<and> row_ownerPid r = ownerPid
                        then r\<lparr>row_runSnapshot := snapshot\<rparr> else r) t)
      else (False, t))"

record ownerInfo =
  own_Pid :: int

definition AllJobs :: "bool \<Rightarrow> Table \<Rightarrow> (JobRecord list \<times> ownerInfo list) option" where
  "AllJobs ok t =
     (if ok then Some (map row_rec t, map (\<lambda>r. \<lparr>own_Pid = row_ownerPid r\<rparr>) t) else None)"

definition claim_matches :: "string \<Rightarrow> Row \<Rightarrow> bool" where
  "claim_matches jobID r \<longleftrightarrow>
     row_id r = jobID \<and> row_status r \<notin> {''completed'', ''failed'', ''aborted''}"

text \<open>\<^verbatim>\<open>claimSQL\<close> and the test \<^verbatim>\<open>RowsAffected() == 1\<close>.\<close>

definition ClaimTerminal ::
    "bool \<Rightarrow> string \<Rightarrow> string \<Rightarrow> string \<Rightarrow> int \<Rightarrow> string \<Rightarrow> Time \<Rightarrow> Table \<Rightarrow> bool option \<times> Table" where
  "ClaimTerminal ok jobID status errorCode byPid byStartedAt now t =
     (if ok then
        (Some (count_if (claim_matches jobID) t = 1),
         map (\<lambda>r. if claim_matches jobID r
                  then r\<lparr>row_rec := (row_rec r)\<lparr>jr_Status := status, jr_ErrorCode := errorCode\<rparr>,
                         row_ownerPid := byPid, row_ownerStartedAt := byStartedAt,
                         row_updatedAt := now\<rparr>
                  else r) t)
      else (None, t))"

subsection \<open>Opening the store and importing the legacy file\<close>

text \<open>\<^verbatim>\<open>ensureRunSnapshotColumn\<close> on the column names of \<^verbatim>\<open>PRAGMA table_info\<close>.\<close>

definition ensureRunSnapshotColumn :: "string list \<Rightarrow> string list" where
  "ensureRunSnapshotColumn cols =
     (if ''runSnapshot'' \<in> set cols then cols else cols @ [''runSnapshot''])"

definition terminalize :: "JobRecord \<Rightarrow> JobRecord" where
  "terminalize r =
     (if jr_Status r = JobCompleted \<or> jr_Status r = JobFailed \<or> jr_Status r = JobAborted then r
      else r\<lparr>jr_Status := JobFailed,
             jr_ErrorCode := (if jr_ErrorCode r = [] then ErrServerRestarted else jr_ErrorCode r)\<rparr>)"

datatype MigrateErr = ErrDecodeLegacy | ErrImportLegacy | ErrRenameLegacy
datatype LegacyFate = LegacyKept | LegacyCorrupt | LegacyMigrated

text \<open>
  The outcome of an import: the table, what became of \<^verbatim>\<open>registry.json\<close> and the error reported.
  \<open>legacy\<close> is the file's content (\<open>None\<close> when it cannot be read), \<open>dec\<close> the JSON decoding of its
  \<^verbatim>\<open>jobs\<close> array, \<open>renamed\<close> the result of the final rename (\<open>Some ErrNotExist\<close>: another migrator
  was faster).
\<close>

definition migrateLegacyJSON ::
    "bool \<Rightarrow> string option \<Rightarrow> (string \<Rightarrow> JobRecord list option) \<Rightarrow> FsError option \<Rightarrow> Time \<Rightarrow> Table
     \<Rightarrow> Table \<times> LegacyFate \<times> MigrateErr option" where
  "migrateLegacyJSON ok legacy dec renamed now t =
     (if length t > 0 then (t, LegacyKept, None)
      else case legacy of
        None \<Rightarrow> (t, LegacyKept, None)
      | Some data \<Rightarrow>
          (case dec data of
             None \<Rightarrow> (t, LegacyCorrupt, Some ErrDecodeLegacy)
           | Some js \<Rightarrow>
               (let js' = map terminalize js;
                    res = (if length js' > 0 then UpsertJobs ok js' 0 [] now t else (True, t)) in
                if \<not> fst res then (snd res, LegacyKept, Some ErrImportLegacy)
                else case renamed of
                       None \<Rightarrow> (snd res, LegacyMigrated, None)
                     | Some ErrNotExist \<Rightarrow> (snd res, LegacyKept, None)
                     | Some _ \<Rightarrow> (snd res, LegacyKept, Some ErrRenameLegacy))))"

subsection \<open>The store as an interface\<close>

text \<open>
  What the registry and the reconciler rely on: a lookup after a write, a claim or a snapshot, and
  that the primary key survives all three. The laws are the promises of the comments in the source
  ("never rewrites rows it does not own", "true iff this call performed the transition").
\<close>

definition after_upsert :: "Row \<Rightarrow> Row option \<Rightarrow> Row" where
  "after_upsert new old =
     (case old of
        None \<Rightarrow> new
      | Some r \<Rightarrow> if row_ownerPid r = row_ownerPid new \<or> row_ownerPid r = 0
                  then new\<lparr>row_runSnapshot := row_runSnapshot r\<rparr> else r)"

definition after_claim :: "string \<Rightarrow> string \<Rightarrow> int \<Rightarrow> string \<Rightarrow> Time \<Rightarrow> Row \<Rightarrow> Row" where
  "after_claim status errorCode byPid byStartedAt now r =
     (if IsTerminal (row_status r) then r
      else r\<lparr>row_rec := (row_rec r)\<lparr>jr_Status := status, jr_ErrorCode := errorCode\<rparr>,
             row_ownerPid := byPid, row_ownerStartedAt := byStartedAt, row_updatedAt := now\<rparr>)"

locale job_store =
  fixes wf :: "'t \<Rightarrow> bool"
    and get :: "'t \<Rightarrow> string \<Rightarrow> Row option"
    and upsert :: "Row \<Rightarrow> 't \<Rightarrow> 't"
    and claim :: "string \<Rightarrow> string \<Rightarrow> string \<Rightarrow> int \<Rightarrow> string \<Rightarrow> Time \<Rightarrow> 't \<Rightarrow> bool option \<times> 't"
  assumes wf_upsert: "wf t \<Longrightarrow> wf (upsert r t)"
    and get_upsert: "wf t \<Longrightarrow> get (upsert r t) jid =
           (if jid = row_id r then Some (after_upsert r (get t jid)) else get t jid)"
    and wf_claim: "wf t \<Longrightarrow> wf (snd (claim j st ec p ps now t))"
    and get_claim: "wf t \<Longrightarrow> get (snd (claim j st ec p ps now t)) jid =
           (if jid = j then map_option (after_claim st ec p ps now) (get t jid) else get t jid)"
    and claim_wins: "wf t \<Longrightarrow> fst (claim j st ec p ps now t) =
           Some (\<exists>r. get t j = Some r \<and> \<not> IsTerminal (row_status r))"
begin

lemma wf_upserts: "wf t \<Longrightarrow> wf (fold upsert rs t)"
  by (induction rs arbitrary: t) (auto simp: wf_upsert)

lemma get_upserts_other: "wf t \<Longrightarrow> jid \<notin> row_id ` set rs \<Longrightarrow> get (fold upsert rs t) jid = get t jid"
  by (induction rs arbitrary: t) (auto simp: wf_upsert get_upsert)

lemma get_upserts:
  "wf t \<Longrightarrow> distinct (map row_id rs) \<Longrightarrow> r \<in> set rs \<Longrightarrow>
   get (fold upsert rs t) (row_id r) = Some (after_upsert r (get t (row_id r)))"
proof (induction rs arbitrary: t)
  case (Cons x rs)
  show ?case
  proof (cases "r = x")
    case True
    with Cons.prems have "row_id r \<notin> row_id ` set rs" by auto
    with True Cons.prems(1) show ?thesis
      by (simp add: get_upserts_other wf_upsert get_upsert)
  next
    case False
    with Cons.prems have r: "r \<in> set rs" by simp
    have "row_id x \<notin> row_id ` set rs" using Cons.prems(2) by simp
    with r have ne: "row_id r \<noteq> row_id x" by (metis imageI)
    have "get (fold upsert rs (upsert x t)) (row_id r) = Some (after_upsert r (get (upsert x t) (row_id r)))"
      using Cons.IH [of "upsert x t"] Cons.prems(1,2) r by (simp add: wf_upsert)
    with ne Cons.prems(1) show ?thesis by (simp add: get_upsert)
  qed
qed simp

text \<open>The order in which a batch is written does not matter.\<close>

lemma get_upserts_perm:
  assumes "wf t" and "distinct (map row_id rs)" and "mset rs' = mset rs"
  shows "get (fold upsert rs' t) jid = get (fold upsert rs t) jid"
proof -
  have same: "set rs' = set rs"
    using assms(3) by (metis set_mset_mset)
  have dist': "distinct (map row_id rs')"
    using assms(2,3) by (metis mset_eq_imp_distinct_iff mset_map)
  show ?thesis
  proof (cases "jid \<in> row_id ` set rs")
    case True
    then obtain r where "r \<in> set rs" "jid = row_id r" by auto
    with get_upserts [OF assms(1,2)] get_upserts [OF assms(1) dist'] same show ?thesis by simp
  next
    case False
    with same show ?thesis using assms(1) by (simp add: get_upserts_other)
  qed
qed

text \<open>A claim is won at most once.\<close>

lemma claim_twice:
  assumes "wf t" and "IsTerminal st" and "fst (claim j st ec p ps now t) = Some True"
  shows "fst (claim j st' ec' p' ps' now' (snd (claim j st ec p ps now t))) = Some False"
  using assms by (auto simp: claim_wins wf_claim get_claim after_claim_def)

lemma get_upsert_foreign:
  "wf t \<Longrightarrow> get t jid = Some r \<Longrightarrow> row_ownerPid r \<noteq> row_ownerPid new \<Longrightarrow> row_ownerPid r \<noteq> 0 \<Longrightarrow>
   get (upsert new t) jid = Some r"
  by (auto simp: get_upsert after_upsert_def)

end

subsection \<open>The table implements the interface\<close>

lemma tbl_get_Some: "tbl_get t jid = Some r \<Longrightarrow> r \<in> set t \<and> row_id r = jid"
  by (auto simp: tbl_get_def find_Some_iff)

lemma tbl_get_mem: "wf_table t \<Longrightarrow> r \<in> set t \<Longrightarrow> tbl_get t (row_id r) = Some r"
  by (induction t) (auto simp: wf_table_def tbl_get_def)

lemma tbl_get_None: "tbl_get t jid = None \<longleftrightarrow> jid \<notin> row_id ` set t"
  by (auto simp: tbl_get_def find_None_iff)

lemma upsert_row_ids: "row_id ` set (upsert_row new t) = insert (row_id new) (row_id ` set t)"
  by (induction t) auto

lemma wf_upsert_row: "wf_table t \<Longrightarrow> wf_table (upsert_row new t)"
proof (induction t)
  case (Cons r t)
  then show ?case using upsert_row_ids [of new t] by (auto simp: wf_table_def)
qed (simp add: wf_table_def)

lemma tbl_get_upsert_row:
  "tbl_get (upsert_row new t) jid =
     (if jid = row_id new then Some (after_upsert new (tbl_get t jid)) else tbl_get t jid)"
  by (induction t) (auto simp: tbl_get_def after_upsert_def)

lemma claim_matches_iff: "claim_matches jid r \<longleftrightarrow> row_id r = jid \<and> \<not> IsTerminal (row_status r)"
  by (auto simp: claim_matches_def IsTerminal_def)

lemma find_map_rows:
  "(\<And>r. row_id (f r) = row_id r) \<Longrightarrow>
   find (\<lambda>r. row_id r = jid) (map f t) = map_option f (find (\<lambda>r. row_id r = jid) t)"
  by (induction t) auto

lemma claim_count:
  "wf_table t \<Longrightarrow> count_if (claim_matches jid) t =
     (case tbl_get t jid of None \<Rightarrow> 0 | Some r \<Rightarrow> if IsTerminal (row_status r) then 0 else 1)"
proof (induction t)
  case (Cons r t)
  have "count_if (claim_matches jid) t = 0" if "row_id r = jid"
  proof -
    have "jid \<notin> row_id ` set t"
      using Cons.prems that by (simp add: wf_table_def)
    then have "\<not> claim_matches jid x" if "x \<in> set t" for x
      using that by (auto simp: claim_matches_def)
    then show ?thesis by (simp add: count_if_def filter_empty_conv)
  qed
  with Cons show ?case
    by (cases "row_id r = jid") (simp_all add: wf_table_def tbl_get_def claim_matches_iff [of jid r])
qed (simp add: tbl_get_def)

lemma wf_map_rows: "(\<And>r. row_id (f r) = row_id r) \<Longrightarrow> wf_table (map f t) \<longleftrightarrow> wf_table t"
  by (simp add: wf_table_def comp_def)

interpretation tbl: job_store wf_table tbl_get upsert_row "ClaimTerminal True"
proof (unfold_locales, goal_cases)
  case (1 t r)
  then show ?case by (rule wf_upsert_row)
next
  case (2 t r jid)
  show ?case by (rule tbl_get_upsert_row)
next
  case (3 t)
  then show ?case by (simp add: ClaimTerminal_def wf_map_rows)
next
  case (4 t j st ec p ps now jid)
  have "tbl_get (snd (ClaimTerminal True j st ec p ps now t)) jid =
      map_option (\<lambda>r. if claim_matches j r then after_claim st ec p ps now r else r) (tbl_get t jid)"
    unfolding ClaimTerminal_def tbl_get_def
    by (subst find_map_rows [symmetric])
      (auto simp: after_claim_def claim_matches_iff intro!: arg_cong [where f = "find _"])
  moreover have "row_id r = jid" if "tbl_get t jid = Some r" for r
    using tbl_get_Some [OF that] by simp
  ultimately show ?case
    by (cases "jid = j"; cases "tbl_get t jid") (simp_all add: after_claim_def claim_matches_iff)
next
  case (5 t j)
  then show ?case by (auto simp: ClaimTerminal_def claim_count split: option.split)
qed

lemma UpsertJobs_rows:
  "fold (\<lambda>r. upsert_row (row_of r p ps now)) recs t = fold upsert_row (map (\<lambda>r. row_of r p ps now) recs) t"
  by (simp add: fold_map comp_def)

lemma row_of_simps [simp]:
  "row_id (row_of r p ps now) = jr_JobID r" "row_ownerPid (row_of r p ps now) = p"
  "row_rec (row_of r p ps now) = r\<lparr>jr_RunSnapshot := []\<rparr>" "row_status (row_of r p ps now) = jr_Status r"
  by (simp_all add: row_of_def)

lemma wf_UpsertJobs [intro]: "wf_table t \<Longrightarrow> wf_table (snd (UpsertJobs ok recs p ps now t))"
  by (simp add: UpsertJobs_def UpsertJobs_rows tbl.wf_upserts)

lemma wf_ClaimTerminal [intro]: "wf_table t \<Longrightarrow> wf_table (snd (ClaimTerminal ok j st ec p ps now t))"
  by (cases ok) (auto simp: tbl.wf_claim, simp add: ClaimTerminal_def)

lemma UpsertJobs_foreign:
  "wf_table t \<Longrightarrow> tbl_get t jid = Some r \<Longrightarrow> row_ownerPid r \<noteq> p \<Longrightarrow> row_ownerPid r \<noteq> 0 \<Longrightarrow>
   tbl_get (snd (UpsertJobs ok recs p ps now t)) jid = Some r"
proof (cases ok)
  case True
  assume "wf_table t" "tbl_get t jid = Some r" "row_ownerPid r \<noteq> p" "row_ownerPid r \<noteq> 0"
  then have "tbl_get (fold upsert_row (map (\<lambda>r. row_of r p ps now) recs) t) jid = Some r"
    by (induction recs arbitrary: t) (auto simp: tbl.wf_upsert tbl.get_upsert_foreign)
  with True show ?thesis by (simp add: UpsertJobs_def UpsertJobs_rows)
qed (simp add: UpsertJobs_def)

text \<open>A row of server 7 and an imported row nobody owns, for the examples below.\<close>

definition sample_rec :: "string \<Rightarrow> JobStatus \<Rightarrow> JobRecord" where
  "sample_rec jid st = zero_JobRecord\<lparr>jr_JobID := jid, jr_Status := st\<rparr>"

lemma sample_rec_simps [simp]:
  "jr_JobID (sample_rec jid st) = jid" "jr_Status (sample_rec jid st) = st"
  by (simp_all add: sample_rec_def)

definition sample_row :: "JobRecord \<Rightarrow> int \<Rightarrow> string \<Rightarrow> Row" where
  "sample_row r pid snap = (row_of r pid [] 0)\<lparr>row_runSnapshot := snap\<rparr>"

definition sample_tbl :: Table where
  "sample_tbl = [sample_row (sample_rec ''j1'' JobRunning) 7 ''snap'', sample_row (sample_rec ''j2'' JobFailed) 0 ''old'']"

text \<open>a server's bulk write never touches a row another server owns. Whatever records a server
  writes, and whether or not the transaction commits, a row owned by a different, non-zero pid
  reads back unchanged, and the primary key stays unique.\<close>

theorem UpsertJobs_owner_guard:
  assumes "wf_table t" and "tbl_get t jid = Some r" and "row_ownerPid r \<noteq> p" and "row_ownerPid r \<noteq> 0"
  shows "tbl_get (snd (UpsertJobs ok recs p ps now t)) jid = Some r
    \<and> wf_table (snd (UpsertJobs ok recs p ps now t))"
  using UpsertJobs_foreign [OF assms] assms(1) by auto

lemma UpsertJobs_owner_guard_witness:
  "tbl_get (snd (UpsertJobs True [sample_rec ''j1'' JobAborted, sample_rec ''j2'' JobQueued] 5 ''srv5'' 9 sample_tbl)) ''j1''
     = Some (sample_row (sample_rec ''j1'' JobRunning) 7 ''snap'')"
  using UpsertJobs_owner_guard [of sample_tbl "''j1''" "sample_row (sample_rec ''j1'' JobRunning) 7 ''snap''" 5 True
      "[sample_rec ''j1'' JobAborted, sample_rec ''j2'' JobQueued]" "''srv5''" 9]
  by (simp add: sample_tbl_def sample_row_def sample_rec_def wf_table_def tbl_get_def)

lemma UpsertJobs_exact:
  assumes "wf_table t" and "distinct (map jr_JobID recs)" and "mset recs' = mset recs"
    and "\<And>jid r. tbl_get t jid = Some r \<Longrightarrow> jid \<in> jr_JobID ` set recs \<Longrightarrow> row_ownerPid r = p \<or> row_ownerPid r = 0"
  shows "(\<forall>r \<in> set recs. \<exists>row. tbl_get (snd (UpsertJobs True recs' p ps now t)) (jr_JobID r) = Some row
            \<and> row_rec row = r\<lparr>jr_RunSnapshot := []\<rparr> \<and> row_ownerPid row = p
            \<and> row_runSnapshot row = (case tbl_get t (jr_JobID r) of None \<Rightarrow> [] | Some old \<Rightarrow> row_runSnapshot old))
    \<and> (\<forall>jid. jid \<notin> jr_JobID ` set recs \<longrightarrow> tbl_get (snd (UpsertJobs True recs' p ps now t)) jid = tbl_get t jid)"
proof -
  let ?rows = "map (\<lambda>r. row_of r p ps now) recs" and ?rows' = "map (\<lambda>r. row_of r p ps now) recs'"
  have dist: "distinct (map row_id ?rows)"
    using assms(2) by (simp add: comp_def)
  have perm: "tbl_get (snd (UpsertJobs True recs' p ps now t)) jid = tbl_get (fold upsert_row ?rows t) jid" for jid
    using tbl.get_upserts_perm [OF assms(1) dist, of ?rows'] assms(3)
    by (simp add: UpsertJobs_def UpsertJobs_rows)
  have "\<exists>row. tbl_get (fold upsert_row ?rows t) (jr_JobID r) = Some row
            \<and> row_rec row = r\<lparr>jr_RunSnapshot := []\<rparr> \<and> row_ownerPid row = p
            \<and> row_runSnapshot row = (case tbl_get t (jr_JobID r) of None \<Rightarrow> [] | Some old \<Rightarrow> row_runSnapshot old)"
    if r: "r \<in> set recs" for r
  proof -
    have "tbl_get (fold upsert_row ?rows t) (jr_JobID r) =
        Some (after_upsert (row_of r p ps now) (tbl_get t (jr_JobID r)))"
      using tbl.get_upserts [OF assms(1) dist, of "row_of r p ps now"] r by simp
    moreover have "row_ownerPid old = p \<or> row_ownerPid old = 0" if "tbl_get t (jr_JobID r) = Some old" for old
      using assms(4) that r by blast
    ultimately show ?thesis
      by (auto simp: after_upsert_def row_of_def split: option.split)
  qed
  moreover have "tbl_get (fold upsert_row ?rows t) jid = tbl_get t jid" if "jid \<notin> jr_JobID ` set recs" for jid
    using tbl.get_upserts_other [OF assms(1), of jid ?rows] that by (auto simp: image_image)
  ultimately show ?thesis by (auto simp: perm)
qed

text \<open>a committed bulk write is read back exactly. For records with distinct ids whose rows are
  new, the writer's own or nobody's, every record is returned with its fields, the writer becomes
  the owner, an earlier snapshot survives, and any other row is unchanged; the order of the batch
  (the iteration order of a Go map) makes no difference.\<close>

theorem UpsertJobs_roundtrip:
  assumes "wf_table t" and "distinct (map jr_JobID recs)" and "mset recs' = mset recs"
    and "\<And>jid r. tbl_get t jid = Some r \<Longrightarrow> jid \<in> jr_JobID ` set recs \<Longrightarrow> row_ownerPid r = p \<or> row_ownerPid r = 0"
  shows "(\<forall>r \<in> set recs. \<exists>row. tbl_get (snd (UpsertJobs True recs' p ps now t)) (jr_JobID r) = Some row
            \<and> row_rec row = r\<lparr>jr_RunSnapshot := []\<rparr> \<and> row_ownerPid row = p
            \<and> row_runSnapshot row = (case tbl_get t (jr_JobID r) of None \<Rightarrow> [] | Some old \<Rightarrow> row_runSnapshot old))
    \<and> (\<forall>jid. jid \<notin> jr_JobID ` set recs \<longrightarrow> tbl_get (snd (UpsertJobs True recs' p ps now t)) jid = tbl_get t jid)"
  using UpsertJobs_exact [OF assms] .

lemma UpsertJobs_roundtrip_witness:
  "\<exists>row. tbl_get (snd (UpsertJobs True [sample_rec ''j3'' JobQueued, sample_rec ''j2'' JobRunning] 5 ''srv5'' 9 sample_tbl)) ''j2''
      = Some row \<and> row_rec row = sample_rec ''j2'' JobRunning \<and> row_ownerPid row = 5 \<and> row_runSnapshot row = ''old''"
proof -
  let ?recs = "[sample_rec ''j2'' JobRunning, sample_rec ''j3'' JobQueued]"
  have "row_ownerPid r = 5 \<or> row_ownerPid r = 0"
    if "tbl_get sample_tbl jid = Some r" and "jid \<in> jr_JobID ` set ?recs" for jid r
    using that by (auto simp: sample_tbl_def sample_row_def sample_rec_def tbl_get_def row_of_def split: if_splits)
  moreover have "wf_table sample_tbl" and "distinct (map jr_JobID ?recs)"
    and "mset [sample_rec ''j3'' JobQueued, sample_rec ''j2'' JobRunning] = mset ?recs"
    by (simp_all add: sample_tbl_def sample_row_def sample_rec_def wf_table_def row_of_def add_mset_commute)
  ultimately show ?thesis
    using UpsertJobs_roundtrip [of sample_tbl ?recs
        "[sample_rec ''j3'' JobQueued, sample_rec ''j2'' JobRunning]" 5 "''srv5''" 9]
    by (simp add: sample_tbl_def sample_row_def sample_rec_def tbl_get_def zero_JobRecord_def)
qed

subsection \<open>The legacy import\<close>

lemma terminalize_simps [simp]:
  "jr_JobID (terminalize r) = jr_JobID r" "IsTerminal (jr_Status (terminalize r))"
  "IsTerminal (jr_Status r) \<Longrightarrow> terminalize r = r"
  by (auto simp: terminalize_def IsTerminal_def JobCompleted_def JobFailed_def JobAborted_def)

lemma set_upsert_row: "set (upsert_row new t) \<subseteq> set t \<union> {new} \<union> {new\<lparr>row_runSnapshot := s\<rparr> |s. s \<in> row_runSnapshot ` set t}"
  by (induction t) auto

lemma set_upserts:
  "r \<in> set (fold upsert_row rows t) \<Longrightarrow>
   r \<in> set t \<or> (\<exists>new \<in> set rows. row_rec r = row_rec new \<and> row_ownerPid r = row_ownerPid new)"
proof (induction rows arbitrary: t)
  case (Cons new rows)
  then have "r \<in> set (upsert_row new t) \<or> (\<exists>new \<in> set rows. row_rec r = row_rec new \<and> row_ownerPid r = row_ownerPid new)"
    by simp
  with set_upsert_row [of new t] show ?case by auto
qed simp

lemma UpsertJobs_imported:
  assumes "r \<in> set (snd (UpsertJobs ok recs 0 [] now []))"
  shows "row_ownerPid r = 0 \<and> (\<exists>j \<in> set recs. row_rec r = j\<lparr>jr_RunSnapshot := []\<rparr>)"
proof (cases ok)
  case True
  then have "r \<in> set (fold upsert_row (map (\<lambda>r. row_of r 0 [] now) recs) [])"
    using assms by (simp add: UpsertJobs_def UpsertJobs_rows)
  from set_upserts [OF this] obtain j where "j \<in> set recs" "row_rec r = row_rec (row_of j 0 [] now)" "row_ownerPid r = row_ownerPid (row_of j 0 [] now)"
    by auto
  then show ?thesis by auto
qed (use assms in \<open>simp add: UpsertJobs_def\<close>)

lemma UpsertJobs_ids:
  "row_id ` set (snd (UpsertJobs True recs p ps now t)) = jr_JobID ` set recs \<union> row_id ` set t"
  unfolding UpsertJobs_def
  by (induction recs arbitrary: t) (auto simp: upsert_row_ids)

lemma failed_terminal: "IsTerminal JobFailed"
  by (simp add: IsTerminal_def JobFailed_def)

lemma terminalize_dead:
  "\<not> IsTerminal (jr_Status j) \<Longrightarrow> jr_Status (terminalize j) = JobFailed \<and> jr_ErrorCode (terminalize j) \<noteq> []"
  by (simp add: terminalize_def IsTerminal_def JobCompleted_def JobFailed_def JobAborted_def ErrServerRestarted_def)

text \<open>C21: importing the legacy \<^verbatim>\<open>registry.json\<close> is safe. A store that already has rows is left alone.
  Otherwise whatever ends up in the table is a terminal record that nobody owns, taken from the
  file: a job the old server was running is imported as failed (never resurrected as live) with an
  error code, a terminal one as it was. When no error is reported and the file decoded, every job
  of it is in the table; the file is kept whenever the import failed.\<close>

theorem migrateLegacyJSON_safe:
  assumes "migrateLegacyJSON ok legacy dec renamed now t = (t', fate, err)"
  shows "(t \<noteq> [] \<longrightarrow> t' = t \<and> fate = LegacyKept \<and> err = None)
    \<and> (t = [] \<longrightarrow> wf_table t' \<and>
        (\<forall>r \<in> set t'. row_ownerPid r = 0 \<and> IsTerminal (row_status r)
          \<and> (\<exists>data js j. legacy = Some data \<and> dec data = Some js \<and> j \<in> set js \<and> row_id r = jr_JobID j
                \<and> (IsTerminal (jr_Status j) \<longrightarrow> row_rec r = j\<lparr>jr_RunSnapshot := []\<rparr>)
                \<and> (\<not> IsTerminal (jr_Status j) \<longrightarrow> row_status r = JobFailed \<and> jr_ErrorCode (row_rec r) \<noteq> []))))
    \<and> (\<forall>data js. t = [] \<and> legacy = Some data \<and> dec data = Some js \<and> (err = None \<or> fate = LegacyMigrated) \<longrightarrow>
        row_id ` set t' = jr_JobID ` set js)
    \<and> (err = Some ErrImportLegacy \<longrightarrow> t' = t \<and> fate = LegacyKept)"
proof (cases "t = []")
  case False
  with assms show ?thesis by (auto simp: migrateLegacyJSON_def)
next
  case True
  show ?thesis
  proof (cases "\<exists>data js. legacy = Some data \<and> dec data = Some js")
    case False
    with True assms show ?thesis
      by (auto simp: migrateLegacyJSON_def wf_table_def split: option.splits)
  next
    case ex: True
    then obtain data js where l: "legacy = Some data" "dec data = Some js" by blast
    let ?u = "if js = [] then (True, t) else UpsertJobs ok (map terminalize js) 0 [] now t"
    have t': "t' = snd ?u"
      using assms True l by (auto simp: migrateLegacyJSON_def Let_def split: option.splits FsError.splits if_splits)
    have fail: "fst ?u = False \<longleftrightarrow> err = Some ErrImportLegacy" "err = Some ErrImportLegacy \<Longrightarrow> fate = LegacyKept"
      "fate = LegacyMigrated \<Longrightarrow> fst ?u"
      using assms True l by (auto simp: migrateLegacyJSON_def Let_def split: option.splits FsError.splits if_splits)
    have wf: "wf_table t'"
      using t' True by (auto simp: wf_table_def [of "[]"])
    have rows: "row_ownerPid r = 0 \<and> (\<exists>j \<in> set js. row_rec r = (terminalize j)\<lparr>jr_RunSnapshot := []\<rparr>)"
      if "r \<in> set t'" for r
      using that t' True UpsertJobs_imported [of r ok "map terminalize js" now]
      by (auto split: if_splits)
    have ids: "row_id ` set t' = jr_JobID ` set js" if "fst ?u"
    proof -
      have "js = [] \<or> ok" using that by (auto simp: UpsertJobs_def split: if_splits)
      with t' True show ?thesis
        using UpsertJobs_ids [of "map terminalize js" 0 "[]" now t] by (cases "js = []") (simp_all add: image_image)
    qed
    have imported: "row_ownerPid r = 0 \<and> IsTerminal (row_status r)
          \<and> (\<exists>data js j. legacy = Some data \<and> dec data = Some js \<and> j \<in> set js \<and> row_id r = jr_JobID j
                \<and> (IsTerminal (jr_Status j) \<longrightarrow> row_rec r = j\<lparr>jr_RunSnapshot := []\<rparr>)
                \<and> (\<not> IsTerminal (jr_Status j) \<longrightarrow> row_status r = JobFailed \<and> jr_ErrorCode (row_rec r) \<noteq> []))" if r: "r \<in> set t'" for r
    proof -
      obtain j where j: "row_ownerPid r = 0" "j \<in> set js" "row_rec r = (terminalize j)\<lparr>jr_RunSnapshot := []\<rparr>"
        using rows [OF r] by blast
      show ?thesis
      proof (cases "IsTerminal (jr_Status j)")
        case True
        with j l show ?thesis
          by (intro conjI exI [of _ data] exI [of _ js] exI [of _ j]) simp_all
      next
        case False
        with j l show ?thesis
          by (intro conjI exI [of _ data] exI [of _ js] exI [of _ j]) (simp_all add: terminalize_dead failed_terminal)
      qed
    qed
    have "t' = t \<and> fate = LegacyKept" if "err = Some ErrImportLegacy"
      using that fail t' True by (auto simp: UpsertJobs_def split: if_splits)
    moreover have "row_id ` set t' = jr_JobID ` set js2"
      if "legacy = Some data2" "dec data2 = Some js2" "err = None \<or> fate = LegacyMigrated" for data2 js2
      using that l ids fail by auto
    ultimately show ?thesis using True wf imported by blast
  qed
qed

lemma migrateLegacyJSON_safe_witness:
  "wf_table (fst (migrateLegacyJSON True (Some ''{}'') (\<lambda>_. Some [sample_rec ''j1'' JobRunning]) None 3 []))
   \<and> row_id ` set (fst (migrateLegacyJSON True (Some ''{}'') (\<lambda>_. Some [sample_rec ''j1'' JobRunning]) None 3 [])) = {''j1''}
   \<and> row_status (hd (fst (migrateLegacyJSON True (Some ''{}'') (\<lambda>_. Some [sample_rec ''j1'' JobRunning]) None 3 []))) = JobFailed"
proof -
  let ?m = "migrateLegacyJSON True (Some ''{}'') (\<lambda>_. Some [sample_rec ''j1'' JobRunning]) None 3 []"
  have "?m = (fst ?m, fst (snd ?m), snd (snd ?m))" by simp
  note all = migrateLegacyJSON_safe [OF this]
  have "fst (snd ?m) = LegacyMigrated"
    by (simp add: migrateLegacyJSON_def UpsertJobs_def Let_def)
  with all [THEN conjunct2, THEN conjunct2, THEN conjunct1] have ids: "row_id ` set (fst ?m) = {''j1''}" by simp
  then obtain r where r: "r \<in> set (fst ?m)" "r = hd (fst ?m)" by (cases "fst ?m") auto
  with all have "row_status r = JobFailed" by (auto simp: JobRunning_def IsTerminal_def)
  with all ids r(2) show ?thesis by blast
qed

end
