(* ===== verification/Registry.thy ===== *)
theory Registry
  imports Reg_Store "HOL-Library.AList"
begin

text \<open>
  \<^verbatim>\<open>internal/jobs/job.go\<close>, \<^verbatim>\<open>registry.go\<close> and \<^verbatim>\<open>cancel.go\<close>: the concurrency-capped job registry.

  Jobs are heap objects the map, the queue and the goroutines share, so they live in an explicit
  store (\<open>rg_mem\<close>, an address is an index) and the map and the queue hold addresses. The channel
  \<^verbatim>\<open>slots\<close> is its number of tokens. Every operation below is one critical section of the source
  (the code between \<^verbatim>\<open>mu.Lock\<close> and \<^verbatim>\<open>mu.Unlock\<close>), or the code after one; \<open>Registry_Steps\<close>
  interleaves them. The clock's reading is an argument, and so is the outcome \<open>ok\<close> of the database
  write each of them ends with.
\<close>

subsection \<open>Jobs (job.go)\<close>

record Spec =
  sp_Mode :: JobMode
  sp_CWD :: string
  sp_RunsDir :: string
  sp_Task :: string
  sp_Context :: string
  sp_Worktree :: string
  sp_Branch :: string
  sp_JobID :: string
  sp_PreassignedID :: string

text \<open>
  \<open>jb_ctx\<close> is \<open>None\<close> for a nil context and otherwise whether it is cancelled; \<open>jb_cancel\<close> whether
  the cancel function is non-nil; \<open>jb_done\<close> whether the channel is closed; \<open>jb_correlated\<close> is
  \<open>None\<close> for a nil channel and otherwise whether it is closed.
\<close>

record Job =
  jb_Record :: JobRecord
  jb_task :: string
  jb_context :: string
  jb_updatedAt :: Time
  jb_ctx :: "bool option"
  jb_cancel :: bool
  jb_done :: bool
  jb_correlated :: "bool option"

text \<open>\<open>uuid\<close> is what \<^verbatim>\<open>uuid.NewString\<close> would return.\<close>

definition NewJob :: "Spec \<Rightarrow> string \<Rightarrow> Time \<Rightarrow> Job" where
  "NewJob spec uuid now =
     (let jid = (if sp_PreassignedID spec = [] then uuid else sp_PreassignedID spec) in
      \<lparr>jb_Record = zero_JobRecord\<lparr>jr_JobID := jid, jr_Mode := sp_Mode spec, jr_CWD := sp_CWD spec,
          jr_RunsDir := sp_RunsDir spec, jr_WorktreePath := sp_Worktree spec,
          jr_Branch := sp_Branch spec, jr_Status := JobQueued, jr_StartedAt := now\<rparr>,
       jb_task = sp_Task spec, jb_context = sp_Context spec, jb_updatedAt = now,
       jb_ctx = None, jb_cancel = False, jb_done = False, jb_correlated = None\<rparr>)"

definition markUnlocked :: "JobStatus \<Rightarrow> Time \<Rightarrow> Job \<Rightarrow> Job" where
  "markUnlocked status now j =
     j\<lparr>jb_Record := (jb_Record j)\<lparr>jr_Status := status\<rparr>, jb_updatedAt := now\<rparr>"

abbreviation job_status :: "Job \<Rightarrow> JobStatus" where
  "job_status j \<equiv> jr_Status (jb_Record j)"

subsection \<open>The registry (registry.go)\<close>

record Registry =
  rg_mem :: "Job list"
  rg_jobs :: "(string \<times> nat) list"
  rg_queue :: "nat list"
  rg_slots :: nat
  rg_cap :: nat
  rg_closed :: bool
  rg_ownerPid :: int
  rg_ownerStartedAt :: string
  rg_store :: Table

definition NewRegistry :: "int \<Rightarrow> int \<Rightarrow> string \<Rightarrow> Table \<Rightarrow> Registry" where
  "NewRegistry cap ownerPid ownerStartedAt store =
     (let capN = (if cap \<le> 0 then DefaultConcurrencyCap else cap) in
      \<lparr>rg_mem = [], rg_jobs = [], rg_queue = [], rg_slots = 0, rg_cap = nat capN,
       rg_closed = False, rg_ownerPid = ownerPid, rg_ownerStartedAt = ownerStartedAt,
       rg_store = store\<rparr>)"

definition upd_job :: "nat \<Rightarrow> (Job \<Rightarrow> Job) \<Rightarrow> Registry \<Rightarrow> Registry" where
  "upd_job a f r = r\<lparr>rg_mem := (rg_mem r)[a := f (rg_mem r ! a)]\<rparr>"

text \<open>Calling a job's cancel function cancels its context.\<close>

definition cancel_ctx :: "Job \<Rightarrow> Job" where
  "cancel_ctx j = j\<lparr>jb_ctx := map_option (\<lambda>_. True) (jb_ctx j)\<rparr>"

definition recordsUnlocked :: "Registry \<Rightarrow> JobRecord list" where
  "recordsUnlocked r = map (\<lambda>(_, a). jb_Record (rg_mem r ! a)) (rg_jobs r)"

definition flushUnlocked :: "bool \<Rightarrow> Time \<Rightarrow> Registry \<Rightarrow> bool \<times> Registry" where
  "flushUnlocked ok now r =
     (let res = UpsertJobs ok (recordsUnlocked r) (rg_ownerPid r) (rg_ownerStartedAt r) now (rg_store r)
      in (fst res, r\<lparr>rg_store := snd res\<rparr>))"

text \<open>A best-effort flush: \<^verbatim>\<open>_ = r.flushUnlocked()\<close>.\<close>

abbreviation flushed :: "bool \<Rightarrow> Time \<Rightarrow> Registry \<Rightarrow> Registry" where
  "flushed ok now r \<equiv> snd (flushUnlocked ok now r)"

definition startingUnlocked :: "Time \<Rightarrow> nat \<Rightarrow> Registry \<Rightarrow> Registry" where
  "startingUnlocked now a =
     upd_job a (\<lambda>j. markUnlocked JobRunning now (j\<lparr>jb_ctx := Some False, jb_cancel := True\<rparr>))"

definition tryAdmitUnlocked :: "Time \<Rightarrow> nat \<Rightarrow> Registry \<Rightarrow> bool \<times> Registry" where
  "tryAdmitUnlocked now a r =
     (if rg_slots r < rg_cap r then
        (True, startingUnlocked now a (r\<lparr>rg_slots := Suc (rg_slots r)\<rparr>))
      else
        (False, (upd_job a (markUnlocked JobQueued now) r)\<lparr>rg_queue := rg_queue r @ [a]\<rparr>))"

definition removeFromQueueUnlocked :: "nat \<Rightarrow> Registry \<Rightarrow> Registry" where
  "removeFromQueueUnlocked a r = r\<lparr>rg_queue := filter (\<lambda>b. b \<noteq> a) (rg_queue r)\<rparr>"

definition dequeueUnlocked :: "Registry \<Rightarrow> nat option \<times> Registry" where
  "dequeueUnlocked r =
     (case rg_queue r of [] \<Rightarrow> (None, r) | a # q \<Rightarrow> (Some a, r\<lparr>rg_queue := q\<rparr>))"

text \<open>
  \<^verbatim>\<open>Submit\<close>, the critical section: the new job's address and whether it was admitted, or the
  persistence error after the roll-back. (The launch that follows is \<open>start\<close>.)
\<close>

definition Submit :: "Spec \<Rightarrow> string \<Rightarrow> Time \<Rightarrow> bool \<Rightarrow> Registry \<Rightarrow> (string + nat \<times> bool) \<times> Registry" where
  "Submit spec uuid now ok r =
     (let j = NewJob spec uuid now;
          jid = jr_JobID (jb_Record j);
          a = length (rg_mem r);
          r1 = r\<lparr>rg_mem := rg_mem r @ [j], rg_jobs := AList.update jid a (rg_jobs r)\<rparr>;
          (admitted, r2) = tryAdmitUnlocked now a r1;
          (flushOk, r3) = flushUnlocked ok now r2
      in if \<not> flushOk then
           (let r4 = r3\<lparr>rg_jobs := AList.delete jid (rg_jobs r3)\<rparr> in
            (Inl ErrPersistenceError,
             if admitted then upd_job a cancel_ctx (r4\<lparr>rg_slots := rg_slots r4 - 1\<rparr>)
             else removeFromQueueUnlocked a r4))
         else (Inr (a, admitted), r3))"

text \<open>\<^verbatim>\<open>start\<close>: the launch request read under the lock, and the commit of the launched pid.\<close>

definition start_spec :: "nat \<Rightarrow> Registry \<Rightarrow> Spec" where
  "start_spec a r =
     (let j = rg_mem r ! a; rc = jb_Record j in
      \<lparr>sp_Mode = jr_Mode rc, sp_CWD = jr_CWD rc, sp_RunsDir = jr_RunsDir rc, sp_Task = jb_task j,
       sp_Context = jb_context j, sp_Worktree = jr_WorktreePath rc, sp_Branch = jr_Branch rc,
       sp_JobID = jr_JobID rc, sp_PreassignedID = []\<rparr>)"

definition set_PID :: "int \<Rightarrow> Time \<Rightarrow> Job \<Rightarrow> Job" where
  "set_PID pid now j = j\<lparr>jb_Record := (jb_Record j)\<lparr>jr_PID := pid\<rparr>, jb_updatedAt := now\<rparr>"

definition start_commit :: "int \<Rightarrow> Time \<Rightarrow> bool \<Rightarrow> nat \<Rightarrow> Registry \<Rightarrow> bool \<times> Registry" where
  "start_commit pid now ok a r =
     (if rg_closed r then (False, r)
      else (True, flushed ok now (upd_job a (set_PID pid now) r)))"

text \<open>\<^verbatim>\<open>runAttempts\<close>: a fresh correlated channel per attempt; the retry test; the reset before a
  relaunch; the new pid.\<close>

definition attempt_begin :: "Time \<Rightarrow> bool \<Rightarrow> nat \<Rightarrow> Registry \<Rightarrow> Registry" where
  "attempt_begin now ok a r = flushed ok now (upd_job a (\<lambda>j. j\<lparr>jb_correlated := Some False\<rparr>) r)"

definition retry_allowed :: "nat \<Rightarrow> Job \<Rightarrow> bool \<Rightarrow> bool" where
  "retry_allowed attempt j hasRunFile \<longleftrightarrow>
     attempt < MaxAuthoringRetries \<and> jb_ctx j = Some False \<and> \<not> hasRunFile"

definition retry_reset :: "Time \<Rightarrow> bool \<Rightarrow> nat \<Rightarrow> Registry \<Rightarrow> Registry" where
  "retry_reset now ok a r =
     flushed ok now
       (upd_job a (\<lambda>j. j\<lparr>jb_Record := (jb_Record j)\<lparr>jr_RunID := [], jr_SessionID := []\<rparr>,
                         jb_updatedAt := now\<rparr>) r)"

definition retry_commit :: "int \<Rightarrow> Time \<Rightarrow> bool \<Rightarrow> nat \<Rightarrow> Registry \<Rightarrow> Registry" where
  "retry_commit pid now ok a r = flushed ok now (upd_job a (set_PID pid now) r)"

text \<open>\<^verbatim>\<open>runFileExists\<close>, the oracle behind \<open>hasRunFile\<close>.\<close>

definition runFileExists :: "FS \<Rightarrow> string \<Rightarrow> bool" where
  "runFileExists fs runsDir =
     (case fs_ReadDir fs runsDir of
        Inl _ \<Rightarrow> False
      | Inr es \<Rightarrow> (\<exists>e \<in> set es. \<not> de_IsDir e \<and> HasSuffix (de_Name e) ''.json''))"

text \<open>\<^verbatim>\<open>tryResolveRunUnlocked\<close>; \<open>found\<close> is the correlator's answer.\<close>

definition tryResolveRunUnlocked :: "string option \<Rightarrow> nat \<Rightarrow> Registry \<Rightarrow> bool \<times> Registry" where
  "tryResolveRunUnlocked found a r =
     (if jr_RunID (jb_Record (rg_mem r ! a)) \<noteq> [] then (True, r)
      else case found of
             Some runID \<Rightarrow> (True, upd_job a (\<lambda>j. j\<lparr>jb_Record := (jb_Record j)\<lparr>jr_RunID := runID\<rparr>\<rparr>) r)
           | None \<Rightarrow> (False, r))"

text \<open>\<^verbatim>\<open>correlate\<close>: on the session event, and on every later poll.\<close>

definition correlate_session :: "string \<Rightarrow> string option \<Rightarrow> Time \<Rightarrow> bool \<Rightarrow> nat \<Rightarrow> Registry \<Rightarrow> bool \<times> Registry" where
  "correlate_session sid found now ok a r =
     (let r1 = upd_job a (\<lambda>j. j\<lparr>jb_Record := (jb_Record j)\<lparr>jr_SessionID := sid\<rparr>\<rparr>) r;
          (resolved, r2) = tryResolveRunUnlocked found a r1
      in (resolved, flushed ok now (upd_job a (\<lambda>j. j\<lparr>jb_updatedAt := now\<rparr>) r2)))"

definition correlate_poll :: "string option \<Rightarrow> Time \<Rightarrow> bool \<Rightarrow> nat \<Rightarrow> Registry \<Rightarrow> bool \<times> Registry" where
  "correlate_poll found now ok a r =
     (let (resolved, r1) = tryResolveRunUnlocked found a r
      in (resolved, if resolved then flushed ok now (upd_job a (\<lambda>j. j\<lparr>jb_updatedAt := now\<rparr>) r1) else r1))"

text \<open>\<^verbatim>\<open>finish\<close>, the critical section: compare-and-set of the terminal status, release of the slot,
  promotion of the head of the queue. It returns the promoted job.\<close>

definition set_terminal :: "JobStatus \<Rightarrow> string \<Rightarrow> string \<Rightarrow> Time \<Rightarrow> Job \<Rightarrow> Job" where
  "set_terminal status errCode errMsg now j =
     (if isTerminal (job_status j) then j
      else let j1 = markUnlocked status now j;
               j2 = (if errCode \<noteq> [] then j1\<lparr>jb_Record := (jb_Record j1)\<lparr>jr_ErrorCode := errCode\<rparr>\<rparr> else j1)
           in if errMsg \<noteq> [] then j2\<lparr>jb_Record := (jb_Record j2)\<lparr>jr_ErrorMessage := errMsg\<rparr>\<rparr> else j2)"

definition promoteUnlocked :: "Time \<Rightarrow> Registry \<Rightarrow> nat option \<times> Registry" where
  "promoteUnlocked now r =
     (case dequeueUnlocked r of
        (None, r1) \<Rightarrow> (None, r1)
      | (Some n, r1) \<Rightarrow>
          if rg_slots r1 < rg_cap r1 then
            (Some n, startingUnlocked now n (r1\<lparr>rg_slots := Suc (rg_slots r1)\<rparr>))
          else
            (None, (upd_job n (markUnlocked JobQueued now) r1)\<lparr>rg_queue := n # rg_queue r1\<rparr>))"

definition finish_locked ::
    "JobStatus \<Rightarrow> string \<Rightarrow> string \<Rightarrow> Time \<Rightarrow> bool \<Rightarrow> nat \<Rightarrow> Registry \<Rightarrow> nat option \<times> Registry" where
  "finish_locked status errCode errMsg now ok a r =
     (let old = job_status (rg_mem r ! a);
          wasRunningSlot = (old = JobRunning \<or> old = JobAborted);
          r1 = upd_job a (set_terminal status errCode errMsg now) r;
          (next, r2) =
            (if wasRunningSlot then
               (let r1' = r1\<lparr>rg_slots := rg_slots r1 - 1\<rparr> in
                if \<not> rg_closed r1' then promoteUnlocked now r1' else (None, r1'))
             else (None, r1))
      in (next, flushed ok now r2))"

text \<open>
  What \<^verbatim>\<open>finish\<close> does after the unlock: the snapshot of the run file (\<open>snap\<close> is what the injected
  \<^verbatim>\<open>snapshotRun\<close> returns, \<open>None\<close> when it is not configured), the worktree prune of an aborted write
  job, and \<^verbatim>\<open>close(j.done)\<close>. The result says whether the prune ran, and whether the close panics.
\<close>

definition finish_post :: "(string \<Rightarrow> string \<Rightarrow> string) option \<Rightarrow> bool \<Rightarrow> nat \<Rightarrow> Registry \<Rightarrow> bool \<times> bool \<times> Registry" where
  "finish_post snap ok a r =
     (let j = rg_mem r ! a; rc = jb_Record j;
          r1 = (case snap of
                  None \<Rightarrow> r
                | Some f \<Rightarrow>
                    if jr_RunID rc \<noteq> [] \<and> f (jr_RunsDir rc) (jr_RunID rc) \<noteq> [] then
                      r\<lparr>rg_store := snd (SaveSnapshot ok (jr_JobID rc) (f (jr_RunsDir rc) (jr_RunID rc))
                                           (rg_ownerPid r) (rg_store r))\<rparr>
                    else r);
          pruned = (jr_Mode rc = ModeWrite \<and> jr_Status rc = JobAborted)
      in (pruned, jb_done j, upd_job a (\<lambda>j. j\<lparr>jb_done := True\<rparr>) r1))"

definition Lookup :: "string \<Rightarrow> Registry \<Rightarrow> JobRecord option" where
  "Lookup jobID r = map_option (\<lambda>a. jb_Record (rg_mem r ! a)) (map_of (rg_jobs r) jobID)"

text \<open>\<^verbatim>\<open>LookupByRun\<close> ranges over a Go map: the visiting order of the entries is an argument.\<close>

definition LookupByRun :: "(string \<times> nat) list \<Rightarrow> string \<Rightarrow> string \<Rightarrow> Registry \<Rightarrow> JobRecord option" where
  "LookupByRun order runID cwd r =
     find (\<lambda>rc. jr_RunID rc = runID \<and> (jr_CWD rc = cwd \<or> jr_WorktreePath rc = cwd))
       (map (\<lambda>(_, a). jb_Record (rg_mem r ! a)) order)"

definition StatusOf :: "(int \<Rightarrow> KillResult) \<Rightarrow> string \<Rightarrow> bool \<Rightarrow> Time \<Rightarrow> Registry \<Rightarrow> JobStatus" where
  "StatusOf kill jobID sameSession now r =
     (case map_of (rg_jobs r) jobID of
        None \<Rightarrow> []
      | Some a \<Rightarrow> effectiveStatus kill (jb_Record (rg_mem r ! a)) (jb_updatedAt (rg_mem r ! a)) sameSession now)"

text \<open>\<^verbatim>\<open>Close\<close>, the critical section: the addresses whose cancel functions it will call, or
  \<open>None\<close> when the registry is closed already.\<close>

definition Close :: "Time \<Rightarrow> bool \<Rightarrow> Registry \<Rightarrow> nat list option \<times> Registry" where
  "Close now ok r =
     (if rg_closed r then (None, r)
      else let r1 = r\<lparr>rg_closed := True\<rparr>;
               cancels = filter (\<lambda>a. jb_cancel (rg_mem r1 ! a)) (map snd (rg_jobs r1))
           in (Some cancels, flushed ok now r1))"

subsection \<open>Cancel (cancel.go)\<close>

text \<open>
  \<^verbatim>\<open>Cancel\<close>: the record returned (or the unknown-job error), and what is left to do after the
  unlock: nothing, call the job's cancel function, or prune its worktree; for a queued job also
  whether closing \<^verbatim>\<open>done\<close> panics.
\<close>

datatype CancelAfter = NoAction | CallCancel nat | PruneWorktree nat

definition abort_mark :: "Time \<Rightarrow> Job \<Rightarrow> Job" where
  "abort_mark now j =
     (let j1 = markUnlocked JobAborted now j in j1\<lparr>jb_Record := (jb_Record j1)\<lparr>jr_ErrorCode := ErrWorkflowAborted\<rparr>\<rparr>)"

definition Cancel :: "string \<Rightarrow> Time \<Rightarrow> bool \<Rightarrow> Registry \<Rightarrow> JobRecord option \<times> CancelAfter \<times> bool \<times> Registry" where
  "Cancel jobID now ok r =
     (case map_of (rg_jobs r) jobID of
        None \<Rightarrow> (None, NoAction, False, r)
      | Some a \<Rightarrow>
          (let j = rg_mem r ! a; isWrite = (jr_Mode (jb_Record j) = ModeWrite) in
           if isTerminal (job_status j) then (Some (jb_Record j), NoAction, False, r)
           else if job_status j = JobQueued then
             (let r1 = flushed ok now (upd_job a (abort_mark now) (removeFromQueueUnlocked a r)) in
              (Some (jb_Record (rg_mem r1 ! a)),
               (if isWrite then PruneWorktree a else NoAction),
               jb_done j,
               upd_job a (\<lambda>j. j\<lparr>jb_done := True\<rparr>) r1))
           else if job_status j = JobRunning then
             (let r1 = flushed ok now (upd_job a (abort_mark now) r) in
              (Some (jb_Record (rg_mem r1 ! a)),
               (if jb_cancel j then CallCancel a else if isWrite then PruneWorktree a else NoAction),
               False, r1))
           else (Some (jb_Record j), NoAction, False, r)))"

end
