(* ===== verification/Registry_Steps.thy ===== *)
theory Registry_Steps
  imports Registry
begin

text \<open>
  The interleaving semantics of the job registry: which goroutine is where, and what it may do
  next. A step is one critical section of \<open>Registry\<close> or one externally visible action between two
  of them; everything the program does not decide (a launch's outcome, when and how a process
  exits, what the correlator or the disk answers, whether a write reaches the database, which
  request arrives) is a free choice of the step. The table is shared: between any two steps other servers, and
  this server's own periodic sweep, may change it in any way that keeps its key unique and leaves alone
  the rows this server owns (an insert or update of another server's jobs, a claim of a dead owner's row).

  A job's control flow is \<^verbatim>\<open>start\<close>, \<^verbatim>\<open>runAttempts\<close>, \<^verbatim>\<open>finish\<close>; its position is a \<open>pc\<close>. Beside it runs at
  most one \<^verbatim>\<open>correlate\<close> goroutine per attempt (\<open>cpc\<close>). Ghost state records how often a job was
  launched, whether its process may be alive, at which states worktrees were pruned and whether a
  channel was closed twice.
\<close>

datatype pc =
    InQueue                          \<comment> \<open>queued: no goroutine yet\<close>
  | Cancelled                        \<comment> \<open>cancelled while queued: never launched\<close>
  | Dropped                          \<comment> \<open>rolled back by a failed Submit\<close>
  | Promoted                         \<comment> \<open>admitted by another job's finish, which has yet to start it\<close>
  | Starting                         \<comment> \<open>start: about to launch\<close>
  | Launched int                     \<comment> \<open>start: launched, before the second lock\<close>
  | Abandoned                        \<comment> \<open>start: the registry was closed meanwhile\<close>
  | Attempt nat                      \<comment> \<open>runAttempts: top of the loop\<close>
  | Waiting nat                      \<comment> \<open>runAttempts: blocked in wait\<close>
  | WaitFailed nat string            \<comment> \<open>runAttempts: wait returned an error\<close>
  | Deciding nat string              \<comment> \<open>runAttempts: not aborted; retry or fail\<close>
  | Resetting nat                    \<comment> \<open>runAttempts: retrying, waiting for correlate to exit\<close>
  | Relaunching nat                  \<comment> \<open>runAttempts: about to launch again\<close>
  | Relaunched nat int               \<comment> \<open>runAttempts: launched again, before the lock\<close>
  | Finishing JobStatus string string \<comment> \<open>finish: waiting for correlate to exit\<close>
  | Finished "nat option"            \<comment> \<open>finish: unlocked; snapshot, prune and close pending\<close>
  | Exited                           \<comment> \<open>finish: done is closed\<close>

datatype cpc = CNone | CAwait | CPolling string

record Thread =
  th_pc :: pc
  th_cpc :: cpc
  th_acancel :: bool
  th_launches :: nat
  th_alive :: bool

record Sys =
  sy_reg :: Registry
  sy_thr :: "Thread list"
  sy_cancels :: "nat list"
  sy_pruned :: "(nat \<times> bool) list"
  sy_panic :: bool
  sy_dirty :: bool

definition new_thread :: "pc \<Rightarrow> Thread" where
  "new_thread p = \<lparr>th_pc = p, th_cpc = CNone, th_acancel = False, th_launches = 0, th_alive = False\<rparr>"

abbreviation jobs_of :: "Sys \<Rightarrow> Job list" where "jobs_of s \<equiv> rg_mem (sy_reg s)"
abbreviation pc_of :: "Sys \<Rightarrow> nat \<Rightarrow> pc" where "pc_of s a \<equiv> th_pc (sy_thr s ! a)"
abbreviation valid :: "Sys \<Rightarrow> nat \<Rightarrow> bool" where "valid s a \<equiv> a < length (sy_thr s)"

definition upd_thr :: "nat \<Rightarrow> (Thread \<Rightarrow> Thread) \<Rightarrow> Sys \<Rightarrow> Sys" where
  "upd_thr a f s = s\<lparr>sy_thr := (sy_thr s)[a := f (sy_thr s ! a)]\<rparr>"

definition upd_reg :: "(Registry \<Rightarrow> Registry) \<Rightarrow> Sys \<Rightarrow> Sys" where
  "upd_reg f s = s\<lparr>sy_reg := f (sy_reg s)\<rparr>"

text \<open>A critical section that ends with a flush of outcome \<open>ok\<close>.\<close>

definition upd_flush :: "bool \<Rightarrow> (Registry \<Rightarrow> Registry) \<Rightarrow> Sys \<Rightarrow> Sys" where
  "upd_flush ok f s = s\<lparr>sy_reg := f (sy_reg s), sy_dirty := \<not> ok\<rparr>"

abbreviation goto :: "nat \<Rightarrow> pc \<Rightarrow> Sys \<Rightarrow> Sys" where
  "goto a p \<equiv> upd_thr a (\<lambda>t. t\<lparr>th_pc := p\<rparr>)"

text \<open>The attempt's context is cancelled when it or the job's context is.\<close>

definition attempt_cancelled :: "Sys \<Rightarrow> nat \<Rightarrow> bool" where
  "attempt_cancelled s a \<longleftrightarrow> th_acancel (sy_thr s ! a) \<or> jb_ctx (jobs_of s ! a) = Some True"

text \<open>The correlate goroutine returns: its deferred \<^verbatim>\<open>close(correlated)\<close>.\<close>

definition correlate_exit :: "nat \<Rightarrow> Sys \<Rightarrow> Sys" where
  "correlate_exit a s =
     upd_thr a (\<lambda>t. t\<lparr>th_cpc := CNone\<rparr>) (upd_reg (upd_job a (\<lambda>j. j\<lparr>jb_correlated := Some True\<rparr>)) s)"

definition correlate_next :: "nat \<Rightarrow> string \<Rightarrow> bool \<Rightarrow> Sys \<Rightarrow> Sys" where
  "correlate_next a sid resolved s =
     (if resolved then correlate_exit a s else upd_thr a (\<lambda>t. t\<lparr>th_cpc := CPolling sid\<rparr>) s)"

definition fin_ready :: "Sys \<Rightarrow> nat \<Rightarrow> bool" where
  "fin_ready s a \<longleftrightarrow> jb_correlated (jobs_of s ! a) \<noteq> Some False"

definition do_cancel_after :: "CancelAfter \<Rightarrow> Sys \<Rightarrow> Sys" where
  "do_cancel_after act s =
     (case act of
        NoAction \<Rightarrow> s
      | CallCancel a \<Rightarrow> s\<lparr>sy_cancels := sy_cancels s @ [a]\<rparr>
      | PruneWorktree a \<Rightarrow> s\<lparr>sy_pruned := sy_pruned s @ [(a, th_alive (sy_thr s ! a))]\<rparr>)"

definition cancelled_pc :: "string \<Rightarrow> Sys \<Rightarrow> Sys" where
  "cancelled_pc jobID s =
     (case map_of (rg_jobs (sy_reg s)) jobID of
        Some a \<Rightarrow> if job_status (jobs_of s ! a) = JobQueued then goto a Cancelled s else s
      | None \<Rightarrow> s)"

text \<open>A \<^verbatim>\<open>Cancel\<close> that changed the registry has flushed.\<close>

definition cancel_dirty :: "string \<Rightarrow> bool \<Rightarrow> Sys \<Rightarrow> bool" where
  "cancel_dirty jobID ok s =
     (case map_of (rg_jobs (sy_reg s)) jobID of
        Some a \<Rightarrow> if job_status (jobs_of s ! a) \<in> {JobQueued, JobRunning} then \<not> ok else sy_dirty s
      | None \<Rightarrow> sy_dirty s)"

inductive step :: "Sys \<Rightarrow> Sys \<Rightarrow> bool" where
  submit_ok:
    "Submit spec uuid now ok (sy_reg s) = (Inr (a, admitted), r) \<Longrightarrow>
     (\<And>row. tbl_get (rg_store (sy_reg s)) (jr_JobID (jb_Record (NewJob spec uuid now))) = Some row \<Longrightarrow>
        row_ownerPid row = rg_ownerPid (sy_reg s) \<or> row_ownerPid row = 0) \<Longrightarrow>
     step s (s\<lparr>sy_reg := r, sy_dirty := \<not> ok,
               sy_thr := sy_thr s @ [new_thread (if admitted then Starting else InQueue)]\<rparr>)"
| submit_fail:
    "Submit spec uuid now ok (sy_reg s) = (Inl e, r) \<Longrightarrow>
     step s (s\<lparr>sy_reg := r, sy_dirty := sy_dirty s, sy_thr := sy_thr s @ [new_thread Dropped]\<rparr>)"
| launch_err:
    "valid s a \<Longrightarrow> pc_of s a = Starting \<Longrightarrow>
     step s (goto a (Finishing JobFailed ErrAgentExecutionError msg) (upd_reg (upd_job a cancel_ctx) s))"
| launch_ok:
    "valid s a \<Longrightarrow> pc_of s a = Starting \<Longrightarrow>
     step s (upd_thr a (\<lambda>t. t\<lparr>th_pc := Launched pid, th_launches := Suc (th_launches t), th_alive := True\<rparr>) s)"
| start_go:
    "valid s a \<Longrightarrow> pc_of s a = Launched pid \<Longrightarrow> start_commit pid now ok a (sy_reg s) = (True, r) \<Longrightarrow>
     step s (goto a (Attempt 0) (upd_flush ok (\<lambda>_. r) s))"
| start_closed:
    "valid s a \<Longrightarrow> pc_of s a = Launched pid \<Longrightarrow> start_commit pid now ok a (sy_reg s) = (False, r) \<Longrightarrow>
     step s (goto a Abandoned (upd_reg (upd_job a cancel_ctx) s))"
| attempt:
    "valid s a \<Longrightarrow> pc_of s a = Attempt n \<Longrightarrow>
     step s (upd_thr a (\<lambda>t. t\<lparr>th_pc := Waiting n, th_cpc := CAwait, th_acancel := False\<rparr>)
               (upd_flush ok (attempt_begin now ok a) s))"
| wait_ok:
    "valid s a \<Longrightarrow> pc_of s a = Waiting n \<Longrightarrow>
     step s (upd_thr a (\<lambda>t. t\<lparr>th_pc := Finishing JobCompleted [] [], th_acancel := True, th_alive := False\<rparr>)
               (upd_reg (upd_job a cancel_ctx) s))"
| wait_err:
    "valid s a \<Longrightarrow> pc_of s a = Waiting n \<Longrightarrow>
     step s (upd_thr a (\<lambda>t. t\<lparr>th_pc := WaitFailed n msg, th_alive := False\<rparr>) s)"
| seen_aborted:
    "valid s a \<Longrightarrow> pc_of s a = WaitFailed n msg \<Longrightarrow> job_status (jobs_of s ! a) = JobAborted \<Longrightarrow>
     step s (upd_thr a (\<lambda>t. t\<lparr>th_pc := Finishing JobAborted [] [], th_acancel := True\<rparr>)
               (upd_reg (upd_job a cancel_ctx) s))"
| not_aborted:
    "valid s a \<Longrightarrow> pc_of s a = WaitFailed n msg \<Longrightarrow> job_status (jobs_of s ! a) \<noteq> JobAborted \<Longrightarrow>
     step s (goto a (Deciding n msg) s)"
| retry:
    "valid s a \<Longrightarrow> pc_of s a = Deciding n msg \<Longrightarrow> retry_allowed n (jobs_of s ! a) hasRunFile \<Longrightarrow>
     step s (upd_thr a (\<lambda>t. t\<lparr>th_pc := Resetting n, th_acancel := True\<rparr>) s)"
| give_up:
    "valid s a \<Longrightarrow> pc_of s a = Deciding n msg \<Longrightarrow> \<not> retry_allowed n (jobs_of s ! a) hasRunFile \<Longrightarrow>
     step s (upd_thr a (\<lambda>t. t\<lparr>th_pc := Finishing JobFailed ErrAgentExecutionError msg, th_acancel := True\<rparr>)
               (upd_reg (upd_job a cancel_ctx) s))"
| reset:
    "valid s a \<Longrightarrow> pc_of s a = Resetting n \<Longrightarrow> fin_ready s a \<Longrightarrow>
     step s (goto a (Relaunching n) (upd_flush ok (retry_reset now ok a) s))"
| relaunch_err:
    "valid s a \<Longrightarrow> pc_of s a = Relaunching n \<Longrightarrow>
     step s (goto a (Finishing JobFailed ErrAgentExecutionError msg) (upd_reg (upd_job a cancel_ctx) s))"
| relaunch_ok:
    "valid s a \<Longrightarrow> pc_of s a = Relaunching n \<Longrightarrow>
     step s (upd_thr a (\<lambda>t. t\<lparr>th_pc := Relaunched n pid, th_launches := Suc (th_launches t), th_alive := True\<rparr>) s)"
| relaunch_go:
    "valid s a \<Longrightarrow> pc_of s a = Relaunched n pid \<Longrightarrow>
     step s (goto a (Attempt (Suc n)) (upd_flush ok (retry_commit pid now ok a) s))"
| session_none:
    "valid s a \<Longrightarrow> th_cpc (sy_thr s ! a) = CAwait \<Longrightarrow> step s (correlate_exit a s)"
| session_event:
    "valid s a \<Longrightarrow> th_cpc (sy_thr s ! a) = CAwait \<Longrightarrow> sid \<noteq> [] \<Longrightarrow>
     correlate_session sid found now ok a (sy_reg s) = (resolved, r) \<Longrightarrow>
     step s (correlate_next a sid resolved (upd_flush ok (\<lambda>_. r) s))"
| poll:
    "valid s a \<Longrightarrow> th_cpc (sy_thr s ! a) = CPolling sid \<Longrightarrow>
     correlate_poll found now ok a (sy_reg s) = (resolved, r) \<Longrightarrow>
     step s (correlate_next a sid resolved (s\<lparr>sy_reg := r, sy_dirty := (if resolved then \<not> ok else sy_dirty s)\<rparr>))"
| correlate_stop:
    "valid s a \<Longrightarrow> th_cpc (sy_thr s ! a) \<noteq> CNone \<Longrightarrow> attempt_cancelled s a \<Longrightarrow> step s (correlate_exit a s)"
| finish_cs:
    "valid s a \<Longrightarrow> pc_of s a = Finishing st code msg \<Longrightarrow> fin_ready s a \<Longrightarrow>
     finish_locked st code msg now ok a (sy_reg s) = (nx, r) \<Longrightarrow>
     step s ((case nx of None \<Rightarrow> (\<lambda>s. s) | Some b \<Rightarrow> goto b Promoted)
               (goto a (Finished nx) (upd_flush ok (\<lambda>_. r) s)))"
| finish_end:
    "valid s a \<Longrightarrow> pc_of s a = Finished nx \<Longrightarrow>
     finish_post snap ok a (sy_reg s) = (pruned, dbl, r) \<Longrightarrow>
     step s ((case nx of None \<Rightarrow> (\<lambda>s. s) | Some b \<Rightarrow> goto b Starting)
               (goto a Exited
                 (s\<lparr>sy_reg := r, sy_panic := (sy_panic s \<or> dbl),
                    sy_pruned := sy_pruned s @ (if pruned then [(a, th_alive (sy_thr s ! a))] else [])\<rparr>)))"
| cancel:
    "Cancel jobID now ok (sy_reg s) = (res, act, dbl, r) \<Longrightarrow>
     step s (do_cancel_after act
              ((cancelled_pc jobID s)\<lparr>sy_reg := r, sy_panic := (sy_panic s \<or> dbl),
                 sy_dirty := cancel_dirty jobID ok s\<rparr>))"
| cancel_call:
    "a \<in> set (sy_cancels s) \<Longrightarrow>
     step s ((upd_reg (upd_job a cancel_ctx) s)\<lparr>sy_cancels := remove1 a (sy_cancels s)\<rparr>)"
| close_registry:
    "Close now ok (sy_reg s) = (Some as, r) \<Longrightarrow>
     step s (s\<lparr>sy_reg := r, sy_dirty := \<not> ok, sy_cancels := sy_cancels s @ as\<rparr>)"
| shared_table:
    "wf_table t \<Longrightarrow>
     (\<And>jid row. tbl_get (rg_store (sy_reg s)) jid = Some row \<Longrightarrow> row_ownerPid row = rg_ownerPid (sy_reg s) \<Longrightarrow>
        tbl_get t jid = Some row) \<Longrightarrow>
     step s (s\<lparr>sy_reg := (sy_reg s)\<lparr>rg_store := t\<rparr>\<rparr>)"

text \<open>A server starts with an empty registry over the shared table.\<close>

definition init_sys :: "int \<Rightarrow> int \<Rightarrow> string \<Rightarrow> Table \<Rightarrow> Sys" where
  "init_sys cap pid started store =
     \<lparr>sy_reg = NewRegistry cap pid started store, sy_thr = [], sy_cancels = [], sy_pruned = [],
      sy_panic = False, sy_dirty = False\<rparr>"

inductive reachable :: "Sys \<Rightarrow> bool" where
  init: "wf_table store \<Longrightarrow> reachable (init_sys cap pid started store)"
| more: "reachable s \<Longrightarrow> step s t \<Longrightarrow> reachable t"

interpretation ts: transition_system "\<lambda>s. \<exists>cap pid started store. wf_table store \<and> s = init_sys cap pid started store"
    step reachable
proof (unfold_locales, goal_cases)
  case (1 P s)
  from 1(3) show ?case
    by (induction rule: reachable.induct) (use 1(1,2) in blast)+
qed

end
