(* ===== verification/Registry_Inv.thy ===== *)
theory Registry_Inv
  imports Registry_Steps
begin

text \<open>
  The invariant of the registry's interleaving semantics and its preservation by every step:
  a local part (what a job's record, channels and goroutines look like at each control point) and
  global parts (the accounting of slots, the queue, the hand-over of promoted jobs, the map).
\<close>

named_theorems reg "field-wise effect of the registry's building blocks"

lemma flushed_fields [simp, reg]:
  "rg_mem (flushed ok now r) = rg_mem r" "rg_jobs (flushed ok now r) = rg_jobs r"
  "rg_queue (flushed ok now r) = rg_queue r" "rg_slots (flushed ok now r) = rg_slots r"
  "rg_cap (flushed ok now r) = rg_cap r" "rg_closed (flushed ok now r) = rg_closed r"
  "rg_ownerPid (flushed ok now r) = rg_ownerPid r" "rg_ownerStartedAt (flushed ok now r) = rg_ownerStartedAt r"
  by (simp_all add: flushUnlocked_def Let_def)

lemma upd_job_fields [simp, reg]:
  "rg_mem (upd_job a f r) = (rg_mem r)[a := f (rg_mem r ! a)]" "rg_jobs (upd_job a f r) = rg_jobs r"
  "rg_queue (upd_job a f r) = rg_queue r" "rg_slots (upd_job a f r) = rg_slots r"
  "rg_cap (upd_job a f r) = rg_cap r" "rg_closed (upd_job a f r) = rg_closed r"
  "rg_ownerPid (upd_job a f r) = rg_ownerPid r" "rg_ownerStartedAt (upd_job a f r) = rg_ownerStartedAt r"
  "rg_store (upd_job a f r) = rg_store r"
  by (simp_all add: upd_job_def)

lemma upd_thr_fields [simp, reg]:
  "sy_reg (upd_thr a f s) = sy_reg s" "sy_thr (upd_thr a f s) = (sy_thr s)[a := f (sy_thr s ! a)]"
  "sy_cancels (upd_thr a f s) = sy_cancels s" "sy_pruned (upd_thr a f s) = sy_pruned s"
  "sy_panic (upd_thr a f s) = sy_panic s" "sy_dirty (upd_thr a f s) = sy_dirty s"
  by (simp_all add: upd_thr_def)

lemma upd_reg_fields [simp, reg]:
  "sy_reg (upd_reg f s) = f (sy_reg s)" "sy_thr (upd_reg f s) = sy_thr s"
  "sy_cancels (upd_reg f s) = sy_cancels s" "sy_pruned (upd_reg f s) = sy_pruned s"
  "sy_panic (upd_reg f s) = sy_panic s" "sy_dirty (upd_reg f s) = sy_dirty s"
  by (simp_all add: upd_reg_def)

lemma upd_flush_fields [simp, reg]:
  "sy_reg (upd_flush ok f s) = f (sy_reg s)" "sy_thr (upd_flush ok f s) = sy_thr s"
  "sy_cancels (upd_flush ok f s) = sy_cancels s" "sy_pruned (upd_flush ok f s) = sy_pruned s"
  "sy_panic (upd_flush ok f s) = sy_panic s" "sy_dirty (upd_flush ok f s) = (\<not> ok)"
  by (simp_all add: upd_flush_def)

lemma mark_fields [simp, reg]:
  "job_status (markUnlocked st now j) = st" "jb_ctx (markUnlocked st now j) = jb_ctx j"
  "jb_cancel (markUnlocked st now j) = jb_cancel j" "jb_done (markUnlocked st now j) = jb_done j"
  "jb_correlated (markUnlocked st now j) = jb_correlated j"
  "jr_JobID (jb_Record (markUnlocked st now j)) = jr_JobID (jb_Record j)"
  "jr_Mode (jb_Record (markUnlocked st now j)) = jr_Mode (jb_Record j)"
  by (simp_all add: markUnlocked_def)

lemma cancel_ctx_fields [simp, reg]:
  "jb_Record (cancel_ctx j) = jb_Record j" "jb_cancel (cancel_ctx j) = jb_cancel j"
  "jb_done (cancel_ctx j) = jb_done j" "jb_correlated (cancel_ctx j) = jb_correlated j"
  "jb_ctx (cancel_ctx j) = None \<longleftrightarrow> jb_ctx j = None"
  "jb_ctx j \<noteq> None \<Longrightarrow> jb_ctx (cancel_ctx j) = Some True"
  by (auto simp: cancel_ctx_def)

lemma set_terminal_fields [simp, reg]:
  "job_status (set_terminal st c m now j) = (if isTerminal (job_status j) then job_status j else st)"
  "jb_done (set_terminal st c m now j) = jb_done j"
  "jb_correlated (set_terminal st c m now j) = jb_correlated j"
  "jr_JobID (jb_Record (set_terminal st c m now j)) = jr_JobID (jb_Record j)"
  "jr_Mode (jb_Record (set_terminal st c m now j)) = jr_Mode (jb_Record j)"
  by (simp_all add: set_terminal_def Let_def)

lemma abort_mark_fields [simp, reg]:
  "job_status (abort_mark now j) = JobAborted" "jb_ctx (abort_mark now j) = jb_ctx j"
  "jb_cancel (abort_mark now j) = jb_cancel j" "jb_done (abort_mark now j) = jb_done j"
  "jb_correlated (abort_mark now j) = jb_correlated j"
  "jr_JobID (jb_Record (abort_mark now j)) = jr_JobID (jb_Record j)"
  "jr_Mode (jb_Record (abort_mark now j)) = jr_Mode (jb_Record j)"
  by (simp_all add: abort_mark_def Let_def)

lemma set_PID_fields [simp, reg]:
  "job_status (set_PID pid now j) = job_status j" "jb_ctx (set_PID pid now j) = jb_ctx j"
  "jb_cancel (set_PID pid now j) = jb_cancel j" "jb_done (set_PID pid now j) = jb_done j"
  "jb_correlated (set_PID pid now j) = jb_correlated j"
  "jr_JobID (jb_Record (set_PID pid now j)) = jr_JobID (jb_Record j)"
  by (simp_all add: set_PID_def)

subsection \<open>The local invariant\<close>

text \<open>A job between its admission and the end of \<^verbatim>\<open>finish\<close>'s critical section.\<close>

definition live :: "Job \<Rightarrow> bool" where
  "live j \<longleftrightarrow> job_status j \<in> {JobRunning, JobAborted} \<and> jb_cancel j \<and> jb_ctx j \<noteq> None \<and> \<not> jb_done j"

text \<open>Control points at which a goroutine executes \<^verbatim>\<open>start\<close>, \<^verbatim>\<open>runAttempts\<close> or the wait in \<^verbatim>\<open>finish\<close>.\<close>

fun busy :: "pc \<Rightarrow> bool" where
  "busy Starting = True" | "busy (Launched _) = True" | "busy Abandoned = True" | "busy (Attempt _) = True"
| "busy (Waiting _) = True" | "busy (WaitFailed _ _) = True" | "busy (Deciding _ _) = True"
| "busy (Resetting _) = True" | "busy (Relaunching _) = True" | "busy (Relaunched _ _) = True"
| "busy (Finishing _ _ _) = True" | "busy _ = False"

text \<open>A job holds a slot from its admission to \<^verbatim>\<open>finish\<close>.\<close>

definition holds :: "pc \<Rightarrow> bool" where
  "holds p \<longleftrightarrow> p = Promoted \<or> busy p"

fun pc_ok :: "pc \<Rightarrow> Job \<Rightarrow> Thread \<Rightarrow> bool" where
  "pc_ok InQueue j t \<longleftrightarrow> job_status j = JobQueued \<and> \<not> jb_done j \<and> jb_correlated j = None
     \<and> th_launches t = 0 \<and> \<not> th_alive t"
| "pc_ok Cancelled j t \<longleftrightarrow> job_status j = JobAborted \<and> jb_done j \<and> jb_correlated j = None
     \<and> th_launches t = 0 \<and> \<not> th_alive t"
| "pc_ok Dropped j t \<longleftrightarrow> jb_correlated j = None \<and> th_launches t = 0 \<and> \<not> th_alive t"
| "pc_ok Promoted j t \<longleftrightarrow> live j \<and> jb_correlated j = None \<and> th_launches t = 0 \<and> \<not> th_alive t"
| "pc_ok Starting j t \<longleftrightarrow> live j \<and> jb_correlated j = None \<and> th_launches t = 0 \<and> \<not> th_alive t"
| "pc_ok (Launched pid) j t \<longleftrightarrow> live j \<and> jb_correlated j = None \<and> th_launches t = 1"
| "pc_ok Abandoned j t \<longleftrightarrow> live j \<and> jb_correlated j = None \<and> th_launches t = 1 \<and> jb_ctx j = Some True"
| "pc_ok (Attempt n) j t \<longleftrightarrow> live j \<and> jb_correlated j \<noteq> Some False \<and> n \<le> MaxAuthoringRetries \<and> th_launches t = Suc n"
| "pc_ok (Waiting n) j t \<longleftrightarrow> live j \<and> n \<le> MaxAuthoringRetries \<and> th_launches t = Suc n"
| "pc_ok (WaitFailed n msg) j t \<longleftrightarrow> live j \<and> n \<le> MaxAuthoringRetries \<and> th_launches t = Suc n \<and> \<not> th_alive t"
| "pc_ok (Deciding n msg) j t \<longleftrightarrow> live j \<and> n \<le> MaxAuthoringRetries \<and> th_launches t = Suc n \<and> \<not> th_alive t"
| "pc_ok (Resetting n) j t \<longleftrightarrow> live j \<and> n < MaxAuthoringRetries \<and> th_launches t = Suc n \<and> \<not> th_alive t \<and> th_acancel t"
| "pc_ok (Relaunching n) j t \<longleftrightarrow> live j \<and> n < MaxAuthoringRetries \<and> th_launches t = Suc n \<and> \<not> th_alive t
     \<and> jb_correlated j \<noteq> Some False"
| "pc_ok (Relaunched n pid) j t \<longleftrightarrow> live j \<and> n < MaxAuthoringRetries \<and> th_launches t = Suc (Suc n)
     \<and> jb_correlated j \<noteq> Some False"
| "pc_ok (Finishing st c m) j t \<longleftrightarrow> live j \<and> isTerminal st \<and> th_launches t \<le> Suc MaxAuthoringRetries \<and> \<not> th_alive t
     \<and> jb_ctx j = Some True"
| "pc_ok (Finished nx) j t \<longleftrightarrow> isTerminal (job_status j) \<and> \<not> jb_done j \<and> jb_correlated j \<noteq> Some False
     \<and> th_launches t \<le> Suc MaxAuthoringRetries \<and> \<not> th_alive t"
| "pc_ok Exited j t \<longleftrightarrow> isTerminal (job_status j) \<and> jb_done j \<and> jb_correlated j \<noteq> Some False
     \<and> th_launches t \<le> Suc MaxAuthoringRetries \<and> \<not> th_alive t"

definition job_ok :: "Job \<Rightarrow> Thread \<Rightarrow> bool" where
  "job_ok j t \<longleftrightarrow> pc_ok (th_pc t) j t \<and> (th_cpc t \<noteq> CNone \<longleftrightarrow> jb_correlated j = Some False)"

definition locals_ok :: "Sys \<Rightarrow> bool" where
  "locals_ok s \<longleftrightarrow> list_all2 job_ok (jobs_of s) (sy_thr s)"

subsection \<open>The global invariants\<close>

definition slots_ok :: "Sys \<Rightarrow> bool" where
  "slots_ok s \<longleftrightarrow> rg_slots (sy_reg s) = count_if (\<lambda>t. holds (th_pc t)) (sy_thr s)
     \<and> rg_slots (sy_reg s) \<le> rg_cap (sy_reg s)"

definition queue_ok :: "Sys \<Rightarrow> bool" where
  "queue_ok s \<longleftrightarrow> distinct (rg_queue (sy_reg s))
     \<and> (\<forall>a. a \<in> set (rg_queue (sy_reg s)) \<longleftrightarrow> valid s a \<and> pc_of s a = InQueue)"

text \<open>A job waits only while every slot is taken.\<close>

definition work_conserving :: "Sys \<Rightarrow> bool" where
  "work_conserving s \<longleftrightarrow>
     (\<not> rg_closed (sy_reg s) \<and> rg_queue (sy_reg s) \<noteq> [] \<longrightarrow> rg_slots (sy_reg s) = rg_cap (sy_reg s))"

definition handover_ok :: "Sys \<Rightarrow> bool" where
  "handover_ok s \<longleftrightarrow>
     (\<forall>a b. valid s a \<and> pc_of s a = Finished (Some b) \<longrightarrow> valid s b \<and> pc_of s b = Promoted)
     \<and> (\<forall>a a' b. valid s a \<and> valid s a' \<and> pc_of s a = Finished (Some b) \<and> pc_of s a' = Finished (Some b) \<longrightarrow> a = a')
     \<and> (\<forall>b. valid s b \<and> pc_of s b = Promoted \<longrightarrow> (\<exists>a. valid s a \<and> pc_of s a = Finished (Some b)))"

definition map_ok :: "Sys \<Rightarrow> bool" where
  "map_ok s \<longleftrightarrow> distinct (map fst (rg_jobs (sy_reg s)))
     \<and> (\<forall>(jid, a) \<in> set (rg_jobs (sy_reg s)). valid s a \<and> pc_of s a \<noteq> Dropped
            \<and> jr_JobID (jb_Record (jobs_of s ! a)) = jid)
     \<and> (\<forall>a \<in> set (sy_cancels s). valid s a)"

definition safe_effects :: "Sys \<Rightarrow> bool" where
  "safe_effects s \<longleftrightarrow> \<not> sy_panic s \<and> (\<forall>(a, alive) \<in> set (sy_pruned s). \<not> alive)"

definition sys_inv :: "Sys \<Rightarrow> bool" where
  "sys_inv s \<longleftrightarrow> locals_ok s \<and> slots_ok s \<and> queue_ok s \<and> work_conserving s \<and> handover_ok s \<and> map_ok s \<and> safe_effects s"

lemmas inv_defs = sys_inv_def locals_ok_def slots_ok_def queue_ok_def work_conserving_def handover_ok_def
  map_ok_def safe_effects_def

lemma locals_okD: "locals_ok s \<Longrightarrow> valid s a \<Longrightarrow> job_ok (jobs_of s ! a) (sy_thr s ! a)"
  by (auto simp: locals_ok_def list_all2_conv_all_nth)

lemma locals_ok_length: "locals_ok s \<Longrightarrow> length (jobs_of s) = length (sy_thr s)"
  by (auto simp: locals_ok_def list_all2_conv_all_nth)

lemma init_inv: "sys_inv (init_sys cap pid started store)"
  by (simp add: inv_defs init_sys_def NewRegistry_def Let_def)

subsection \<open>Steps that move one job\<close>

text \<open>
  Most steps touch the object and the goroutines of one job only and keep it among the jobs that
  hold a slot (or do not move it at all). They preserve everything as soon as they preserve the
  local invariant.
\<close>

definition moves :: "nat \<Rightarrow> Job \<Rightarrow> Thread \<Rightarrow> Sys \<Rightarrow> Sys \<Rightarrow> bool" where
  "moves a j t s s' \<longleftrightarrow> valid s a \<and> jobs_of s' = (jobs_of s)[a := j] \<and> sy_thr s' = (sy_thr s)[a := t]
     \<and> rg_jobs (sy_reg s') = rg_jobs (sy_reg s) \<and> rg_queue (sy_reg s') = rg_queue (sy_reg s)
     \<and> rg_slots (sy_reg s') = rg_slots (sy_reg s) \<and> rg_cap (sy_reg s') = rg_cap (sy_reg s)
     \<and> rg_closed (sy_reg s') = rg_closed (sy_reg s)
     \<and> set (sy_cancels s') \<subseteq> set (sy_cancels s) \<and> sy_pruned s' = sy_pruned s \<and> sy_panic s' = sy_panic s
     \<and> jr_JobID (jb_Record j) = jr_JobID (jb_Record (jobs_of s ! a))
     \<and> (th_pc t = pc_of s a \<or> busy (pc_of s a) \<and> busy (th_pc t))"

lemma moves_pc:
  assumes "moves a j t s s'"
  shows "valid s' b = valid s b"
    and "pc_of s' b = pc_of s b \<or> busy (pc_of s b) \<and> busy (pc_of s' b)"
proof -
  have "valid s a" and thr: "sy_thr s' = (sy_thr s)[a := t]"
    and pc: "th_pc t = pc_of s a \<or> busy (pc_of s a) \<and> busy (th_pc t)"
    using assms by (simp_all add: moves_def)
  then show "valid s' b = valid s b" and "pc_of s' b = pc_of s b \<or> busy (pc_of s b) \<and> busy (pc_of s' b)"
    by (cases "b = a"; simp)+
qed

lemma moves_special:
  assumes "moves a j t s s'" and "\<not> busy p"
  shows "pc_of s' b = p \<longleftrightarrow> pc_of s b = p"
  using moves_pc(2) [OF assms(1), of b] assms(2) by metis

lemma moves_locals: "locals_ok s \<Longrightarrow> moves a j t s s' \<Longrightarrow> job_ok j t \<Longrightarrow> locals_ok s'"
  by (simp add: locals_ok_def moves_def list_all2_update_cong)

lemma moves_slots: "slots_ok s \<Longrightarrow> moves a j t s s' \<Longrightarrow> slots_ok s'"
proof -
  assume ok: "slots_ok s" and mv: "moves a j t s s'"
  then have "holds (th_pc t) = holds (pc_of s a)"
    by (auto simp: moves_def holds_def)
  with ok mv show ?thesis by (simp add: slots_ok_def moves_def)
qed

lemma moves_queue:
  assumes "queue_ok s" and mv: "moves a j t s s'"
  shows "queue_ok s'"
proof -
  have "rg_queue (sy_reg s') = rg_queue (sy_reg s)"
    using mv by (simp add: moves_def)
  with assms(1) show ?thesis
    by (simp add: queue_ok_def moves_pc(1) [OF mv] moves_special [OF mv])
qed

lemma moves_work: "work_conserving s \<Longrightarrow> moves a j t s s' \<Longrightarrow> work_conserving s'"
  by (simp add: work_conserving_def moves_def)

lemma moves_handover:
  assumes "handover_ok s" and mv: "moves a j t s s'"
  shows "handover_ok s'"
proof -
  have "handover_ok s' = handover_ok s"
    by (simp add: handover_ok_def moves_pc(1) [OF mv] moves_special [OF mv])
  with assms(1) show ?thesis by simp
qed

lemma moves_map:
  assumes "map_ok s" and "locals_ok s" and mv: "moves a j t s s'"
  shows "map_ok s'"
proof -
  have "jr_JobID (jb_Record (jobs_of s' ! b)) = jr_JobID (jb_Record (jobs_of s ! b))" for b
    using mv locals_ok_length [OF assms(2)] by (cases "b = a") (simp_all add: moves_def)
  moreover have "set (sy_cancels s') \<subseteq> set (sy_cancels s)" "rg_jobs (sy_reg s') = rg_jobs (sy_reg s)"
    using mv by (simp_all add: moves_def)
  ultimately show ?thesis
    using assms(1) by (auto simp: map_ok_def moves_pc(1) [OF mv] moves_special [OF mv])
qed

lemma moves_inv: "sys_inv s \<Longrightarrow> moves a j t s s' \<Longrightarrow> job_ok j t \<Longrightarrow> sys_inv s'"
  unfolding sys_inv_def
  using moves_locals moves_slots moves_queue moves_work moves_handover moves_map
  by (metis moves_def safe_effects_def)

lemma move_step:
  assumes "sys_inv s" and "valid s a"
    and "valid s a \<Longrightarrow> length (jobs_of s) = length (sy_thr s) \<Longrightarrow> job_ok (jobs_of s ! a) (sy_thr s ! a) \<Longrightarrow>
      moves a (jobs_of s' ! a) (sy_thr s' ! a) s s' \<and> job_ok (jobs_of s' ! a) (sy_thr s' ! a)"
  shows "sys_inv s'"
proof -
  have loc: "locals_ok s" using assms(1) by (simp add: sys_inv_def)
  show ?thesis
    using assms(3) [OF assms(2) locals_ok_length [OF loc] locals_okD [OF loc assms(2)]] moves_inv [OF assms(1)]
    by blast
qed

lemmas step_defs = moves_def job_ok_def live_def fin_ready_def attempt_cancelled_def retry_allowed_def
  attempt_begin_def retry_reset_def retry_commit_def correlate_exit_def start_commit_def

text \<open>Every step of \<^verbatim>\<open>start\<close> and \<^verbatim>\<open>runAttempts\<close>.\<close>

lemma inv_launch_err:
  "sys_inv s \<Longrightarrow> valid s a \<Longrightarrow> pc_of s a = Starting \<Longrightarrow>
   sys_inv (goto a (Finishing JobFailed c msg) (upd_reg (upd_job a cancel_ctx) s))"
  by (rule move_step [of s a]) (auto simp: step_defs)

lemma inv_launch_ok:
  "sys_inv s \<Longrightarrow> valid s a \<Longrightarrow> pc_of s a = Starting \<Longrightarrow>
   sys_inv (upd_thr a (\<lambda>t. t\<lparr>th_pc := Launched pid, th_launches := Suc (th_launches t), th_alive := True\<rparr>) s)"
  by (rule move_step [of s a]) (auto simp: step_defs)

lemma inv_start_go:
  "sys_inv s \<Longrightarrow> valid s a \<Longrightarrow> pc_of s a = Launched pid \<Longrightarrow> start_commit pid now ok a (sy_reg s) = (True, r) \<Longrightarrow>
   sys_inv (goto a (Attempt 0) (upd_flush ok (\<lambda>_. r) s))"
  by (rule move_step [of s a]) (auto simp: step_defs split: if_splits)

lemma inv_start_closed:
  "sys_inv s \<Longrightarrow> valid s a \<Longrightarrow> pc_of s a = Launched pid \<Longrightarrow>
   sys_inv (goto a Abandoned (upd_reg (upd_job a cancel_ctx) s))"
  by (rule move_step [of s a]) (auto simp: step_defs)

lemma inv_attempt:
  "sys_inv s \<Longrightarrow> valid s a \<Longrightarrow> pc_of s a = Attempt n \<Longrightarrow>
   sys_inv (upd_thr a (\<lambda>t. t\<lparr>th_pc := Waiting n, th_cpc := CAwait, th_acancel := False\<rparr>)
               (upd_flush ok (attempt_begin now ok a) s))"
  by (rule move_step [of s a]) (auto simp: step_defs)

lemma inv_wait_ok:
  "sys_inv s \<Longrightarrow> valid s a \<Longrightarrow> pc_of s a = Waiting n \<Longrightarrow>
   sys_inv (upd_thr a (\<lambda>t. t\<lparr>th_pc := Finishing JobCompleted [] [], th_acancel := True, th_alive := False\<rparr>)
               (upd_reg (upd_job a cancel_ctx) s))"
  by (rule move_step [of s a]) (auto simp: step_defs)

lemma inv_wait_err:
  "sys_inv s \<Longrightarrow> valid s a \<Longrightarrow> pc_of s a = Waiting n \<Longrightarrow>
   sys_inv (upd_thr a (\<lambda>t. t\<lparr>th_pc := WaitFailed n msg, th_alive := False\<rparr>) s)"
  by (rule move_step [of s a]) (auto simp: step_defs)

lemma inv_seen_aborted:
  "sys_inv s \<Longrightarrow> valid s a \<Longrightarrow> pc_of s a = WaitFailed n msg \<Longrightarrow>
   sys_inv (upd_thr a (\<lambda>t. t\<lparr>th_pc := Finishing JobAborted [] [], th_acancel := True\<rparr>)
               (upd_reg (upd_job a cancel_ctx) s))"
  by (rule move_step [of s a]) (auto simp: step_defs)

lemma inv_not_aborted:
  "sys_inv s \<Longrightarrow> valid s a \<Longrightarrow> pc_of s a = WaitFailed n msg \<Longrightarrow> sys_inv (goto a (Deciding n msg) s)"
  by (rule move_step [of s a]) (auto simp: step_defs)

lemma inv_retry:
  "sys_inv s \<Longrightarrow> valid s a \<Longrightarrow> pc_of s a = Deciding n msg \<Longrightarrow> retry_allowed n (jobs_of s ! a) hrf \<Longrightarrow>
   sys_inv (upd_thr a (\<lambda>t. t\<lparr>th_pc := Resetting n, th_acancel := True\<rparr>) s)"
  by (rule move_step [of s a]) (auto simp: step_defs)

lemma inv_give_up:
  "sys_inv s \<Longrightarrow> valid s a \<Longrightarrow> pc_of s a = Deciding n msg \<Longrightarrow>
   sys_inv (upd_thr a (\<lambda>t. t\<lparr>th_pc := Finishing JobFailed c msg, th_acancel := True\<rparr>)
               (upd_reg (upd_job a cancel_ctx) s))"
  by (rule move_step [of s a]) (auto simp: step_defs)

lemma inv_reset:
  "sys_inv s \<Longrightarrow> valid s a \<Longrightarrow> pc_of s a = Resetting n \<Longrightarrow> fin_ready s a \<Longrightarrow>
   sys_inv (goto a (Relaunching n) (upd_flush ok (retry_reset now ok a) s))"
  by (rule move_step [of s a]) (auto simp: step_defs)

lemma inv_relaunch_err:
  "sys_inv s \<Longrightarrow> valid s a \<Longrightarrow> pc_of s a = Relaunching n \<Longrightarrow>
   sys_inv (goto a (Finishing JobFailed c msg) (upd_reg (upd_job a cancel_ctx) s))"
  by (rule move_step [of s a]) (auto simp: step_defs)

lemma inv_relaunch_ok:
  "sys_inv s \<Longrightarrow> valid s a \<Longrightarrow> pc_of s a = Relaunching n \<Longrightarrow>
   sys_inv (upd_thr a (\<lambda>t. t\<lparr>th_pc := Relaunched n pid, th_launches := Suc (th_launches t), th_alive := True\<rparr>) s)"
  by (rule move_step [of s a]) (auto simp: step_defs)

lemma inv_relaunch_go:
  "sys_inv s \<Longrightarrow> valid s a \<Longrightarrow> pc_of s a = Relaunched n pid \<Longrightarrow>
   sys_inv (goto a (Attempt (Suc n)) (upd_flush ok (retry_commit pid now ok a) s))"
  by (rule move_step [of s a]) (auto simp: step_defs)

lemmas inv_attempts = inv_launch_err inv_launch_ok inv_start_go inv_start_closed inv_attempt inv_wait_ok
  inv_wait_err inv_seen_aborted inv_not_aborted inv_retry inv_give_up inv_reset inv_relaunch_err
  inv_relaunch_ok inv_relaunch_go

text \<open>Every step of \<^verbatim>\<open>correlate\<close>, which runs at any control point at which its channel is open.\<close>

text \<open>Resolving a run sets one field of one job, possibly to its old value.\<close>

definition resolved_run :: "string option \<Rightarrow> string \<Rightarrow> string" where
  "resolved_run found rid = (if rid \<noteq> [] then rid else case found of None \<Rightarrow> rid | Some x \<Rightarrow> x)"

definition set_RunID :: "string option \<Rightarrow> Job \<Rightarrow> Job" where
  "set_RunID found j = j\<lparr>jb_Record := (jb_Record j)\<lparr>jr_RunID := resolved_run found (jr_RunID (jb_Record j))\<rparr>\<rparr>"

lemma resolve_snd: "snd (tryResolveRunUnlocked found a r) = upd_job a (set_RunID found) r"
proof -
  let ?j = "rg_mem r ! a"
  have same: "upd_job a (set_RunID found) r = r" if "resolved_run found (jr_RunID (jb_Record ?j)) = jr_RunID (jb_Record ?j)"
    using that by (simp add: upd_job_def set_RunID_def)
  show ?thesis
  proof (cases "jr_RunID (jb_Record ?j) = [] \<and> found \<noteq> None")
    case True
    then show ?thesis
      by (auto simp: tryResolveRunUnlocked_def set_RunID_def resolved_run_def upd_job_def)
  next
    case False
    then have "resolved_run found (jr_RunID (jb_Record ?j)) = jr_RunID (jb_Record ?j)"
      and "snd (tryResolveRunUnlocked found a r) = r"
      by (auto simp: resolved_run_def tryResolveRunUnlocked_def)
    with same show ?thesis by simp
  qed
qed

lemma set_RunID_fields [simp, reg]:
  "job_status (set_RunID f j) = job_status j" "jb_ctx (set_RunID f j) = jb_ctx j"
  "jb_cancel (set_RunID f j) = jb_cancel j" "jb_done (set_RunID f j) = jb_done j"
  "jb_correlated (set_RunID f j) = jb_correlated j"
  "jr_JobID (jb_Record (set_RunID f j)) = jr_JobID (jb_Record j)"
  by (simp_all add: set_RunID_def)

lemma correlate_session_snd:
  "snd (correlate_session sid found now ok a r) =
     flushed ok now (upd_job a (\<lambda>j. j\<lparr>jb_updatedAt := now\<rparr>)
       (upd_job a (set_RunID found) (upd_job a (\<lambda>j. j\<lparr>jb_Record := (jb_Record j)\<lparr>jr_SessionID := sid\<rparr>\<rparr>) r)))"
  by (simp add: correlate_session_def Let_def case_prod_beta resolve_snd)

lemma correlate_poll_snd:
  "snd (correlate_poll found now ok a r) =
     (if fst (correlate_poll found now ok a r)
      then flushed ok now (upd_job a (\<lambda>j. j\<lparr>jb_updatedAt := now\<rparr>) (upd_job a (set_RunID found) r))
      else upd_job a (set_RunID found) r)"
  by (simp add: correlate_poll_def Let_def case_prod_beta resolve_snd)

lemma correlate_upd_ok:
  "job_ok j t \<Longrightarrow> th_cpc t \<noteq> CNone \<Longrightarrow> live j' \<Longrightarrow> jb_ctx j' = jb_ctx j \<Longrightarrow> jb_correlated j' = Some False \<Longrightarrow>
   c \<noteq> CNone \<Longrightarrow> job_ok j' (t\<lparr>th_cpc := c\<rparr>)"
  by (cases "th_pc t") (auto simp: job_ok_def live_def)

lemma correlate_exit_ok:
  "job_ok j t \<Longrightarrow> th_cpc t \<noteq> CNone \<Longrightarrow> live j' \<Longrightarrow> jb_ctx j' = jb_ctx j \<Longrightarrow> jb_correlated j' = Some True \<Longrightarrow>
   job_ok j' (t\<lparr>th_cpc := CNone\<rparr>)"
  by (cases "th_pc t") (auto simp: job_ok_def live_def)

lemma correlate_live: "job_ok j t \<Longrightarrow> th_cpc t \<noteq> CNone \<Longrightarrow> live j \<and> jb_correlated j = Some False"
  by (cases "th_pc t") (auto simp: job_ok_def)

lemma inv_correlate_exit: "sys_inv s \<Longrightarrow> valid s a \<Longrightarrow> th_cpc (sy_thr s ! a) \<noteq> CNone \<Longrightarrow> sys_inv (correlate_exit a s)"
  by (rule move_step [of s a])
    (auto simp: moves_def correlate_exit_def live_def dest: correlate_live intro!: correlate_exit_ok)

lemma inv_session_event:
  assumes "sys_inv s" "valid s a" "th_cpc (sy_thr s ! a) \<noteq> CNone"
  shows "sys_inv (correlate_next a sid resolved (upd_flush ok (\<lambda>_. snd (correlate_session sid found now ok a (sy_reg s))) s))"
  by (rule move_step [of s a], rule assms(1), rule assms(2), insert assms(3))
    (auto simp: moves_def correlate_exit_def correlate_next_def correlate_session_snd live_def
      dest: correlate_live intro!: correlate_exit_ok correlate_upd_ok)

lemma inv_poll:
  assumes "sys_inv s" "valid s a" "th_cpc (sy_thr s ! a) \<noteq> CNone"
  shows "sys_inv (correlate_next a sid resolved (s\<lparr>sy_reg := snd (correlate_poll found now ok a (sy_reg s)), sy_dirty := d\<rparr>))"
  by (rule move_step [of s a], rule assms(1), rule assms(2), insert assms(3))
    (auto simp: moves_def correlate_exit_def correlate_next_def correlate_poll_snd live_def
      dest: correlate_live intro!: correlate_exit_ok correlate_upd_ok)

lemma inv_cancel_call:
  assumes "sys_inv s" "a \<in> set (sy_cancels s)"
  shows "sys_inv ((upd_reg (upd_job a cancel_ctx) s)\<lparr>sy_cancels := remove1 a (sy_cancels s)\<rparr>)"
proof (rule move_step [OF assms(1)])
  show "valid s a" using assms by (auto simp: sys_inv_def map_ok_def)
next
  have "pc_ok p (cancel_ctx j) t" if "pc_ok p j t" for p j t
    using that by (cases p) (auto simp: live_def cancel_ctx_def)
  moreover have "set (remove1 a (sy_cancels s)) \<subseteq> set (sy_cancels s)"
    by (rule set_remove1_subset)
  moreover assume "valid s a" "length (jobs_of s) = length (sy_thr s)" "job_ok (jobs_of s ! a) (sy_thr s ! a)"
  ultimately show "moves a (jobs_of ((upd_reg (upd_job a cancel_ctx) s)\<lparr>sy_cancels := remove1 a (sy_cancels s)\<rparr>) ! a)
       (sy_thr ((upd_reg (upd_job a cancel_ctx) s)\<lparr>sy_cancels := remove1 a (sy_cancels s)\<rparr>) ! a) s
       ((upd_reg (upd_job a cancel_ctx) s)\<lparr>sy_cancels := remove1 a (sy_cancels s)\<rparr>)
     \<and> job_ok (jobs_of ((upd_reg (upd_job a cancel_ctx) s)\<lparr>sy_cancels := remove1 a (sy_cancels s)\<rparr>) ! a)
       (sy_thr ((upd_reg (upd_job a cancel_ctx) s)\<lparr>sy_cancels := remove1 a (sy_cancels s)\<rparr>) ! a)"
    by (simp add: moves_def job_ok_def)
qed

end
