(* ===== verification/Registry_Global.thy ===== *)
theory Registry_Global
  imports Registry_Inv
begin

text \<open>
  The steps that add jobs, release slots, promote, cancel and close: preservation of the
  invariant of \<open>Registry_Inv\<close>, and with it the invariant of every reachable state.
\<close>

subsection \<open>Adding a job\<close>

lemma set_update_subset: "set (AList.update k v al) \<subseteq> insert (k, v) (set al)"
  by (induction al) auto

lemma set_delete_subset: "set (AList.delete k al) \<subseteq> set al"
  by (auto simp: AList.delete_eq)

definition adds :: "pc \<Rightarrow> Job \<Rightarrow> Sys \<Rightarrow> Sys \<Rightarrow> bool" where
  "adds p j s s' \<longleftrightarrow> jobs_of s' = jobs_of s @ [j] \<and> sy_thr s' = sy_thr s @ [new_thread p]
     \<and> rg_cap (sy_reg s') = rg_cap (sy_reg s) \<and> rg_closed (sy_reg s') = rg_closed (sy_reg s)
     \<and> rg_slots (sy_reg s') = rg_slots (sy_reg s) + (if p = Starting then 1 else 0)
     \<and> rg_slots (sy_reg s') \<le> rg_cap (sy_reg s)
     \<and> rg_queue (sy_reg s') = rg_queue (sy_reg s) @ (if p = InQueue then [length (sy_thr s)] else [])
     \<and> (p = InQueue \<longrightarrow> rg_slots (sy_reg s) = rg_cap (sy_reg s))
     \<and> distinct (map fst (rg_jobs (sy_reg s')))
     \<and> set (rg_jobs (sy_reg s')) \<subseteq> set (rg_jobs (sy_reg s))
          \<union> (if p = Dropped then {} else {(jr_JobID (jb_Record j), length (sy_thr s))})
     \<and> sy_cancels s' = sy_cancels s \<and> sy_pruned s' = sy_pruned s \<and> sy_panic s' = sy_panic s
     \<and> p \<in> {Starting, InQueue, Dropped} \<and> pc_ok p j (new_thread p) \<and> jb_correlated j = None"

lemma adds_pc:
  assumes "adds p j s s'"
  shows "valid s' b \<longleftrightarrow> valid s b \<or> b = length (sy_thr s)"
    and "valid s b \<Longrightarrow> sy_thr s' ! b = sy_thr s ! b"
    and "pc_of s' (length (sy_thr s)) = p"
  using assms by (auto simp: adds_def nth_append new_thread_def)

lemma adds_local:
  assumes "locals_ok s" and ad: "adds p j s s'"
  shows "locals_ok s'"
proof -
  have "jobs_of s' = jobs_of s @ [j]" "sy_thr s' = sy_thr s @ [new_thread p]" "job_ok j (new_thread p)"
    using ad by (auto simp: adds_def job_ok_def new_thread_def)
  with assms(1) show ?thesis by (simp add: locals_ok_def list_all2_appendI)
qed

lemma adds_slots:
  assumes "slots_ok s" and ad: "adds p j s s'"
  shows "slots_ok s'"
  using assms by (auto simp: slots_ok_def adds_def new_thread_def holds_def)

lemma adds_special:
  assumes ad: "adds p j s s'"
  shows "valid s' b \<and> pc_of s' b = x \<longleftrightarrow> valid s b \<and> pc_of s b = x \<or> b = length (sy_thr s) \<and> x = p"
  using adds_pc(1,2) [OF ad, of b] adds_pc(3) [OF ad] by auto

lemma adds_queue:
  assumes "queue_ok s" and ad: "adds p j s s'"
  shows "queue_ok s'"
proof -
  let ?q = "rg_queue (sy_reg s)"
  have q: "rg_queue (sy_reg s') = ?q @ (if p = InQueue then [length (sy_thr s)] else [])"
    using ad by (simp add: adds_def)
  have old: "distinct ?q" "a \<in> set ?q \<longleftrightarrow> valid s a \<and> pc_of s a = InQueue" for a
    using assms(1) by (simp_all add: queue_ok_def)
  then have "length (sy_thr s) \<notin> set ?q" by simp
  then show ?thesis
    unfolding queue_ok_def q adds_special [OF ad] using old by simp
qed

lemma adds_work: "work_conserving s \<Longrightarrow> adds p j s s' \<Longrightarrow> work_conserving s'"
  by (auto simp: work_conserving_def adds_def split: if_splits)

lemma adds_handover:
  assumes "handover_ok s" and ad: "adds p j s s'"
  shows "handover_ok s'"
proof -
  have new: "valid s' b \<and> pc_of s' b = x \<longleftrightarrow> valid s b \<and> pc_of s b = x" if "x \<notin> {Starting, InQueue, Dropped}" for x b
    using that adds_special [OF ad, of b x] ad by (auto simp: adds_def)
  have "valid s' a \<and> valid s' a' \<and> pc_of s' a = x \<and> pc_of s' a' = x \<longleftrightarrow>
        valid s a \<and> valid s a' \<and> pc_of s a = x \<and> pc_of s a' = x" if "x \<notin> {Starting, InQueue, Dropped}" for x a a'
    using new [OF that] by blast
  with new have "handover_ok s' = handover_ok s" by (simp add: handover_ok_def)
  with assms(1) show ?thesis by simp
qed

lemma adds_map:
  assumes "map_ok s" and "locals_ok s" and ad: "adds p j s s'"
  shows "map_ok s'"
proof -
  have len: "length (jobs_of s) = length (sy_thr s)" using assms(2) by (rule locals_ok_length)
  have old: "valid s a \<Longrightarrow> jobs_of s' ! a = jobs_of s ! a" for a
    using ad len by (simp add: adds_def nth_append)
  have j: "jobs_of s' ! length (sy_thr s) = j" using ad len [symmetric] by (simp add: adds_def)
  have "valid s' a \<and> pc_of s' a \<noteq> Dropped \<and> jr_JobID (jb_Record (jobs_of s' ! a)) = jid"
    if "(jid, a) \<in> set (rg_jobs (sy_reg s'))" for jid a
  proof -
    have "(jid, a) \<in> set (rg_jobs (sy_reg s)) \<or> p \<noteq> Dropped \<and> jid = jr_JobID (jb_Record j) \<and> a = length (sy_thr s)"
      using that ad by (auto simp: adds_def split: if_splits)
    then show ?thesis
      using assms(1) old [of a] j adds_pc(1,2) [OF ad, of a] adds_pc(3) [OF ad] by (auto simp: map_ok_def)
  qed
  moreover have "distinct (map fst (rg_jobs (sy_reg s')))" "sy_cancels s' = sy_cancels s"
    using ad by (simp_all add: adds_def)
  ultimately show ?thesis
    using assms(1) adds_pc(1) [OF ad] by (auto simp: map_ok_def)
qed

lemma adds_inv: "sys_inv s \<Longrightarrow> adds p j s s' \<Longrightarrow> sys_inv s'"
  unfolding sys_inv_def
  using adds_local adds_slots adds_queue adds_work adds_handover adds_map
  by (metis adds_def safe_effects_def)

lemma NewJob_fields [simp]:
  "job_status (NewJob spec uuid now) = JobQueued" "jb_ctx (NewJob spec uuid now) = None"
  "jb_cancel (NewJob spec uuid now) = False" "jb_done (NewJob spec uuid now) = False"
  "jb_correlated (NewJob spec uuid now) = None"
  by (simp_all add: NewJob_def Let_def)

lemma flush_fst [simp]: "fst (flushUnlocked ok now r) = ok"
  by (simp add: flushUnlocked_def UpsertJobs_def Let_def)

lemmas submit_defs = Submit_def tryAdmitUnlocked_def startingUnlocked_def removeFromQueueUnlocked_def Let_def

lemma Submit_adds:
  assumes inv: "sys_inv s" and sub: "Submit spec uuid now ok (sy_reg s) = (res, r)"
  shows "(case res of
     Inr (a, admitted) \<Rightarrow> a = length (jobs_of s) \<and>
        (\<exists>j. adds (if admitted then Starting else InQueue) j s
           (s\<lparr>sy_reg := r, sy_dirty := d, sy_thr := sy_thr s @ [new_thread (if admitted then Starting else InQueue)]\<rparr>))
   | Inl e \<Rightarrow> \<exists>j. adds Dropped j s (s\<lparr>sy_reg := r, sy_dirty := d, sy_thr := sy_thr s @ [new_thread Dropped]\<rparr>))"
proof -
  let ?r = "sy_reg s" and ?a = "length (jobs_of s)" and ?j = "NewJob spec uuid now"
  let ?id = "jr_JobID (jb_Record ?j)"
  have len: "length (sy_thr s) = ?a" using inv by (simp add: sys_inv_def locals_ok_length)
  have cap: "rg_slots ?r \<le> rg_cap ?r" and dist: "distinct (map fst (rg_jobs ?r))"
    and notin: "?a \<notin> set (rg_queue ?r)"
    using inv len by (auto simp: sys_inv_def slots_ok_def map_ok_def queue_ok_def)
  have upd: "distinct (map fst (AList.update ?id ?a (rg_jobs ?r)))"
    "set (AList.update ?id ?a (rg_jobs ?r)) \<subseteq> insert (?id, ?a) (set (rg_jobs ?r))"
    "distinct (map fst (AList.delete ?id (rg_jobs ?r)))"
    "set (AList.delete ?id (rg_jobs ?r)) \<subseteq> set (rg_jobs ?r)"
    using dist by (simp_all add: AList.distinct_update AList.distinct_delete set_update_subset set_delete_subset)
  have q: "filter (\<lambda>b. b \<noteq> ?a) (rg_queue ?r) = rg_queue ?r"
    using notin by (auto simp: filter_id_conv)
  show ?thesis
    using sub cap upd len q
    by (cases "rg_slots ?r < rg_cap ?r"; cases ok)
      (auto simp: submit_defs case_prod_beta adds_def live_def new_thread_def AList.delete_update_same)
qed

subsection \<open>Finishing a job and promoting the next\<close>

text \<open>What the critical section of \<^verbatim>\<open>finish\<close> computes for a job that holds a slot.\<close>

lemma finish_locked_alone:
  assumes "job_status (rg_mem r ! a) \<in> {JobRunning, JobAborted}" and "rg_closed r \<or> rg_queue r = []"
  shows "finish_locked st code msg now ok a r =
    (None, flushed ok now ((upd_job a (set_terminal st code msg now) r)\<lparr>rg_slots := rg_slots r - 1\<rparr>))"
  using assms
  by (auto simp: finish_locked_def promoteUnlocked_def dequeueUnlocked_def Let_def upd_job_def)

lemma finish_locked_promotes:
  assumes "job_status (rg_mem r ! a) \<in> {JobRunning, JobAborted}" and "\<not> rg_closed r" and "rg_queue r = b # q"
    and "0 < rg_slots r" and "rg_slots r \<le> rg_cap r"
  shows "finish_locked st code msg now ok a r =
    (Some b, flushed ok now (startingUnlocked now b ((upd_job a (set_terminal st code msg now) r)
        \<lparr>rg_queue := q, rg_slots := rg_slots r\<rparr>)))"
  using assms
  by (auto simp: finish_locked_def promoteUnlocked_def dequeueUnlocked_def Let_def upd_job_def startingUnlocked_def)

lemma set_terminal_ok:
  assumes "job_ok j t" and "th_pc t = Finishing st c m" and "jb_correlated j \<noteq> Some False"
  shows "job_ok (set_terminal st c m now j) (t\<lparr>th_pc := Finished nx\<rparr>)"
  using assms by (auto simp: job_ok_def live_def)

lemma starting_ok:
  assumes "job_ok j t" and "th_pc t = InQueue"
  shows "job_ok (markUnlocked JobRunning now (j\<lparr>jb_ctx := Some False, jb_cancel := True\<rparr>)) (t\<lparr>th_pc := Promoted\<rparr>)"
  using assms by (auto simp: job_ok_def live_def markUnlocked_def)

text \<open>Release without promotion.\<close>

definition releases :: "nat \<Rightarrow> Job \<Rightarrow> Thread \<Rightarrow> Sys \<Rightarrow> Sys \<Rightarrow> bool" where
  "releases a j t s s' \<longleftrightarrow> valid s a \<and> jobs_of s' = (jobs_of s)[a := j] \<and> sy_thr s' = (sy_thr s)[a := t]
     \<and> rg_jobs (sy_reg s') = rg_jobs (sy_reg s) \<and> rg_queue (sy_reg s') = rg_queue (sy_reg s)
     \<and> rg_slots (sy_reg s') = rg_slots (sy_reg s) - 1 \<and> rg_cap (sy_reg s') = rg_cap (sy_reg s)
     \<and> rg_closed (sy_reg s') = rg_closed (sy_reg s) \<and> (rg_closed (sy_reg s) \<or> rg_queue (sy_reg s) = [])
     \<and> sy_cancels s' = sy_cancels s \<and> sy_pruned s' = sy_pruned s \<and> sy_panic s' = sy_panic s
     \<and> jr_JobID (jb_Record j) = jr_JobID (jb_Record (jobs_of s ! a))
     \<and> busy (pc_of s a) \<and> th_pc t = Finished None \<and> job_ok j t"

lemma releases_pc:
  assumes "releases a j t s s'"
  shows "valid s' b = valid s b"
    and "x \<noteq> Finished None \<Longrightarrow> \<not> busy x \<Longrightarrow> pc_of s' b = x \<longleftrightarrow> pc_of s b = x"
proof -
  have "valid s a" "sy_thr s' = (sy_thr s)[a := t]" "busy (pc_of s a)" "th_pc t = Finished None"
    using assms by (simp_all add: releases_def)
  then show "valid s' b = valid s b"
    and "x \<noteq> Finished None \<Longrightarrow> \<not> busy x \<Longrightarrow> pc_of s' b = x \<longleftrightarrow> pc_of s b = x"
    by (cases "b = a"; auto)+
qed

lemma releases_inv:
  assumes inv: "sys_inv s" and rel: "releases a j t s s'"
  shows "sys_inv s'"
proof -
  note pcs = releases_pc [OF rel]
  have "locals_ok s'"
    using inv rel by (simp add: sys_inv_def locals_ok_def releases_def list_all2_update_cong)
  moreover have "slots_ok s'"
    using inv rel count_if_update_lose [of a "sy_thr s" "\<lambda>t. holds (th_pc t)" t]
    by (auto simp: sys_inv_def slots_ok_def releases_def holds_def)
  moreover have "queue_ok s'"
    using inv rel by (simp add: sys_inv_def queue_ok_def pcs) (simp add: releases_def)
  moreover have "work_conserving s'"
    using rel by (auto simp: work_conserving_def releases_def)
  moreover have "handover_ok s' = handover_ok s"
    by (simp add: handover_ok_def pcs)
  moreover have "jr_JobID (jb_Record (jobs_of s' ! b)) = jr_JobID (jb_Record (jobs_of s ! b))" for b
    using rel inv by (cases "b = a") (auto simp: releases_def sys_inv_def dest!: locals_ok_length)
  then have "map_ok s'"
    using inv rel by (simp add: sys_inv_def map_ok_def pcs) (simp add: releases_def)
  moreover have "safe_effects s'"
    using inv rel by (simp add: sys_inv_def safe_effects_def releases_def)
  ultimately show ?thesis using inv by (simp add: sys_inv_def)
qed

text \<open>Two jobs move at once: the hand-over of a slot, and the start of the promoted job.\<close>

definition moves2 :: "nat \<Rightarrow> Job \<Rightarrow> Thread \<Rightarrow> nat \<Rightarrow> Job \<Rightarrow> Thread \<Rightarrow> Sys \<Rightarrow> Sys \<Rightarrow> bool" where
  "moves2 a ja ta b jb tb s s' \<longleftrightarrow> a \<noteq> b \<and> valid s a \<and> valid s b
     \<and> jobs_of s' = (jobs_of s)[a := ja, b := jb] \<and> sy_thr s' = (sy_thr s)[a := ta, b := tb]
     \<and> rg_jobs (sy_reg s') = rg_jobs (sy_reg s) \<and> rg_slots (sy_reg s') = rg_slots (sy_reg s)
     \<and> rg_cap (sy_reg s') = rg_cap (sy_reg s) \<and> rg_closed (sy_reg s') = rg_closed (sy_reg s)
     \<and> sy_cancels s' = sy_cancels s \<and> safe_effects s'
     \<and> jr_JobID (jb_Record ja) = jr_JobID (jb_Record (jobs_of s ! a))
     \<and> jr_JobID (jb_Record jb) = jr_JobID (jb_Record (jobs_of s ! b))
     \<and> th_pc ta \<noteq> Dropped \<and> th_pc tb \<noteq> Dropped \<and> job_ok ja ta \<and> job_ok jb tb"

lemma moves2_pc:
  assumes "moves2 a ja ta b jb tb s s'"
  shows "valid s' c = valid s c"
    and "pc_of s' c = (if c = b then th_pc tb else if c = a then th_pc ta else pc_of s c)"
  using assms by (auto simp: moves2_def nth_list_update)

lemma moves2_locals:
  assumes "locals_ok s" and mv: "moves2 a ja ta b jb tb s s'"
  shows "locals_ok s'"
  using assms by (simp add: locals_ok_def moves2_def list_all2_update_cong)

lemma moves2_slots:
  assumes "slots_ok s" and mv: "moves2 a ja ta b jb tb s s'"
    and h: "holds (pc_of s a) = holds (th_pc tb)" "holds (pc_of s b) = holds (th_pc ta)"
  shows "slots_ok s'"
proof -
  let ?P = "\<lambda>t. holds (th_pc t)"
  have "count_if ?P ((sy_thr s)[a := ta, b := tb]) = count_if ?P (sy_thr s)"
    using mv h count_if_update [of a "sy_thr s" ?P ta] count_if_update [of b "(sy_thr s)[a := ta]" ?P tb]
    by (auto simp: moves2_def)
  with assms(1) mv show ?thesis by (simp add: slots_ok_def moves2_def)
qed

lemma moves2_map:
  assumes "map_ok s" and "locals_ok s" and mv: "moves2 a ja ta b jb tb s s'"
  shows "map_ok s'"
proof -
  have "length (jobs_of s) = length (sy_thr s)" using assms(2) by (rule locals_ok_length)
  then have "jr_JobID (jb_Record (jobs_of s' ! c)) = jr_JobID (jb_Record (jobs_of s ! c))" for c
    using mv by (auto simp: moves2_def nth_list_update)
  moreover have "pc_of s' c = Dropped \<Longrightarrow> pc_of s c = Dropped" for c
    using moves2_pc(2) [OF mv, of c] mv by (auto simp: moves2_def split: if_splits)
  ultimately show ?thesis
    using assms(1) mv moves2_pc(1) [OF mv] by (fastforce simp: map_ok_def moves2_def)
qed

text \<open>The hand-over relation, as a fact about the control points alone.\<close>

lemma handoverI:
  assumes "\<And>a b. valid s a \<Longrightarrow> pc_of s a = Finished (Some b) \<Longrightarrow> valid s b \<and> pc_of s b = Promoted"
    and "\<And>a a' b. valid s a \<Longrightarrow> valid s a' \<Longrightarrow> pc_of s a = Finished (Some b) \<Longrightarrow> pc_of s a' = Finished (Some b) \<Longrightarrow> a = a'"
    and "\<And>b. valid s b \<Longrightarrow> pc_of s b = Promoted \<Longrightarrow> \<exists>a. valid s a \<and> pc_of s a = Finished (Some b)"
  shows "handover_ok s"
  using assms unfolding handover_ok_def by blast

lemma handoverD:
  assumes "handover_ok s"
  shows "valid s a \<Longrightarrow> pc_of s a = Finished (Some b) \<Longrightarrow> valid s b"
    and "valid s a \<Longrightarrow> pc_of s a = Finished (Some b) \<Longrightarrow> pc_of s b = Promoted"
    and "valid s a \<Longrightarrow> valid s a' \<Longrightarrow> pc_of s a = Finished (Some b) \<Longrightarrow> pc_of s a' = Finished (Some b) \<Longrightarrow> a = a'"
    and "valid s b \<Longrightarrow> pc_of s b = Promoted \<Longrightarrow> \<exists>a. valid s a \<and> pc_of s a = Finished (Some b)"
  using assms unfolding handover_ok_def by blast+

lemma promotes_handover:
  assumes ho: "handover_ok s" and mv: "moves2 a ja ta b jb tb s s'"
    and pca: "busy (pc_of s a)" "th_pc ta = Finished (Some b)" and pcb: "pc_of s b = InQueue" "th_pc tb = Promoted"
  shows "handover_ok s'"
proof -
  note pcs = moves2_pc [OF mv] and D = handoverD [OF ho]
  have old: "a \<noteq> b" "valid s a" "valid s b" using mv by (simp_all add: moves2_def)
  have pa: "pc_of s a \<noteq> Promoted" using pca(1) by (cases "pc_of s a"; simp)
  have pb: "valid s c \<Longrightarrow> pc_of s c \<noteq> Finished (Some b)" for c
    using D(2) [of c b] pcb(1) by auto
  have fin: "c = a \<and> y = b \<or> c \<noteq> a \<and> c \<noteq> b \<and> pc_of s c = Finished (Some y)"
    if "pc_of s' c = Finished (Some y)" for c y
    using that pcs(2) [of c] pca pcb by (auto split: if_splits)
  show ?thesis
  proof (rule handoverI)
    fix c y
    assume c: "valid s' c" "pc_of s' c = Finished (Some y)"
    show "valid s' y \<and> pc_of s' y = Promoted"
      using fin [OF c(2)] D(1,2) [of c y] c(1) old pa pcb(2) pcs [of y] pcs(1) [of c] by auto
  next
    fix c c' y
    assume c: "valid s' c" "valid s' c'" "pc_of s' c = Finished (Some y)" "pc_of s' c' = Finished (Some y)"
    show "c = c'"
      using fin [OF c(3)] fin [OF c(4)] D(3) [of c c' y] pb [of c] pb [of c'] c(1,2) pcs(1) by auto
  next
    fix y
    assume y: "valid s' y" "pc_of s' y = Promoted"
    show "\<exists>c. valid s' c \<and> pc_of s' c = Finished (Some y)"
    proof (cases "y = b")
      case True
      then show ?thesis using old pcs [of a] pca(2) by (intro exI [of _ a]) simp
    next
      case False
      then have "pc_of s y = Promoted" using y(2) pcs(2) [of y] pca(2) by (auto split: if_splits)
      then obtain c where "valid s c" "pc_of s c = Finished (Some y)" using D(4) y(1) pcs(1) by blast
      then show ?thesis using pcs [of c] pca(1) pcb(1) by (intro exI [of _ c]) auto
    qed
  qed
qed

lemma starts_handover:
  assumes ho: "handover_ok s" and mv: "moves2 a ja ta b jb tb s s'"
    and pca: "pc_of s a = Finished (Some b)" "th_pc ta = Exited" and pcb: "th_pc tb = Starting"
  shows "handover_ok s'"
proof -
  note pcs = moves2_pc [OF mv] and D = handoverD [OF ho]
  have old: "a \<noteq> b" "valid s a" "valid s b" using mv by (simp_all add: moves2_def)
  have pb: "pc_of s b = Promoted" using D(2) pca(1) old by blast
  have fin: "c \<noteq> a \<and> c \<noteq> b \<and> pc_of s c = Finished (Some y)" if "pc_of s' c = Finished (Some y)" for c y
    using that pcs(2) [of c] pca pcb by (auto split: if_splits)
  show ?thesis
  proof (rule handoverI)
    fix c y
    assume c: "valid s' c" "pc_of s' c = Finished (Some y)"
    have vc: "valid s c" and pc: "c \<noteq> a" "pc_of s c = Finished (Some y)"
      using c(1) pcs(1) [of c] fin [OF c(2)] by simp_all
    have "y \<noteq> b" using D(3) [OF vc old(2) _ pca(1)] pc by auto
    moreover have "y \<noteq> a" using D(2) [OF vc pc(2)] pca(1) by auto
    ultimately show "valid s' y \<and> pc_of s' y = Promoted"
      using D(1,2) [OF vc pc(2)] pcs [of y] by simp
  next
    fix c c' y
    assume c: "valid s' c" "valid s' c'" "pc_of s' c = Finished (Some y)" "pc_of s' c' = Finished (Some y)"
    show "c = c'"
      using fin [OF c(3)] fin [OF c(4)] D(3) [of c c' y] c(1,2) pcs(1) by auto
  next
    fix y
    assume y: "valid s' y" "pc_of s' y = Promoted"
    then have yb: "y \<noteq> b" "y \<noteq> a" "pc_of s y = Promoted"
      using pcs(2) [of y] pca pcb by (auto split: if_splits)
    then obtain c where c: "valid s c" "pc_of s c = Finished (Some y)" using D(4) y(1) pcs(1) by blast
    then have "c \<noteq> a" "c \<noteq> b" using pca(1) pb yb(1) by auto
    then show "\<exists>c. valid s' c \<and> pc_of s' c = Finished (Some y)"
      using c pcs [of c] by (intro exI [of _ c]) auto
  qed
qed

lemma promotes_inv:
  assumes inv: "sys_inv s" and mv: "moves2 a ja ta b jb tb s s'"
    and pca: "busy (pc_of s a)" "th_pc ta = Finished (Some b)" and pcb: "pc_of s b = InQueue" "th_pc tb = Promoted"
    and q: "rg_queue (sy_reg s) = b # rg_queue (sy_reg s')" and open_reg: "\<not> rg_closed (sy_reg s)"
  shows "sys_inv s'"
proof -
  have parts: "locals_ok s" "slots_ok s" "queue_ok s" "work_conserving s" "handover_ok s" "map_ok s"
    using inv by (simp_all add: sys_inv_def)
  note pcs = moves2_pc [OF mv]
  have old: "a \<noteq> b" "valid s a" "valid s b" using mv by (simp_all add: moves2_def)
  have pa: "pc_of s a \<noteq> InQueue" "pc_of s a \<noteq> Promoted" "pc_of s a \<noteq> Finished x" for x
    using pca(1) by (cases "pc_of s a"; simp)+
  have "slots_ok s'"
    by (rule moves2_slots [OF parts(2) mv]) (simp_all add: holds_def pca pcb)
  moreover have "queue_ok s'"
    using parts(3) pa pca pcb old q unfolding queue_ok_def pcs by auto
  moreover have "work_conserving s'"
    using parts(4) q open_reg mv by (simp add: work_conserving_def moves2_def)
  moreover have "handover_ok s'"
    by (rule promotes_handover [OF parts(5) mv pca pcb])
  ultimately show ?thesis
    using moves2_locals [OF parts(1) mv] moves2_map [OF parts(6,1) mv] mv by (simp add: sys_inv_def moves2_def)
qed

lemma starts_inv:
  assumes inv: "sys_inv s" and mv: "moves2 a ja ta b jb tb s s'"
    and pca: "pc_of s a = Finished (Some b)" "th_pc ta = Exited" and pcb: "th_pc tb = Starting"
    and q: "rg_queue (sy_reg s') = rg_queue (sy_reg s)"
  shows "sys_inv s'"
proof -
  have parts: "locals_ok s" "slots_ok s" "queue_ok s" "work_conserving s" "handover_ok s" "map_ok s"
    using inv by (simp_all add: sys_inv_def)
  note pcs = moves2_pc [OF mv]
  have old: "a \<noteq> b" "valid s a" "valid s b" using mv by (simp_all add: moves2_def)
  have pb: "pc_of s b = Promoted" using handoverD(2) [OF parts(5)] pca(1) old(2) by blast
  have "slots_ok s'"
    using parts(2) mv pca pcb pb
      count_if_update_same [of "\<lambda>t. holds (th_pc t)" ta "sy_thr s" a]
      count_if_update_same [of "\<lambda>t. holds (th_pc t)" tb "(sy_thr s)[a := ta]" b]
    by (simp add: slots_ok_def moves2_def holds_def)
  moreover have "queue_ok s'"
    using parts(3) pca pcb pb old q unfolding queue_ok_def pcs by auto
  moreover have "work_conserving s'"
    using parts(4) q mv by (simp add: work_conserving_def moves2_def)
  moreover have "handover_ok s'"
    by (rule starts_handover [OF parts(5) mv pca pcb])
  ultimately show ?thesis
    using moves2_locals [OF parts(1) mv] moves2_map [OF parts(6,1) mv] mv by (simp add: sys_inv_def moves2_def)
qed

lemma inv_finish_cs:
  assumes inv: "sys_inv s" and va: "valid s a" and pca: "pc_of s a = Finishing st code msg" and ready: "fin_ready s a"
    and fin: "finish_locked st code msg now ok a (sy_reg s) = (nx, r)"
  shows "sys_inv ((case nx of None \<Rightarrow> (\<lambda>s. s) | Some b \<Rightarrow> goto b Promoted)
               (goto a (Finished nx) (upd_flush ok (\<lambda>_. r) s)))"
proof -
  let ?r = "sy_reg s"
  have loc: "locals_ok s" and slots: "slots_ok s" and qu: "queue_ok s" and safe: "safe_effects s"
    using inv by (simp_all add: sys_inv_def)
  have len: "length (jobs_of s) = length (sy_thr s)" using loc by (rule locals_ok_length)
  have ja: "job_ok (jobs_of s ! a) (sy_thr s ! a)" using loc va by (rule locals_okD)
  then have status: "job_status (jobs_of s ! a) \<in> {JobRunning, JobAborted}"
    using pca by (simp add: job_ok_def live_def)
  have ja': "job_ok (set_terminal st code msg now (jobs_of s ! a)) ((sy_thr s ! a)\<lparr>th_pc := Finished n\<rparr>)" for n
    using set_terminal_ok [OF ja pca] ready by (simp add: fin_ready_def)
  have pos: "0 < rg_slots ?r" and cap: "rg_slots ?r \<le> rg_cap ?r"
    using slots count_if_pos [of a "sy_thr s" "\<lambda>t. holds (th_pc t)"] va pca by (simp_all add: slots_ok_def holds_def)
  show ?thesis
  proof (cases "rg_closed ?r \<or> rg_queue ?r = []")
    case True
    then have "nx = None" and r: "r = flushed ok now ((upd_job a (set_terminal st code msg now) ?r)\<lparr>rg_slots := rg_slots ?r - 1\<rparr>)"
      using finish_locked_alone [OF status True, of st code msg now ok] fin by simp_all
    moreover have "releases a (set_terminal st code msg now (jobs_of s ! a)) ((sy_thr s ! a)\<lparr>th_pc := Finished None\<rparr>) s
        (goto a (Finished None) (upd_flush ok (\<lambda>_. r) s))"
      using True va ja' pca by (simp add: releases_def r)
    ultimately show ?thesis using releases_inv [OF inv] by simp
  next
    case False
    then obtain b q where q: "rg_queue ?r = b # q" by (auto simp: neq_Nil_conv)
    have vb: "valid s b" and pcb: "pc_of s b = InQueue" using qu q by (auto simp: queue_ok_def)
    have ab: "a \<noteq> b" using pca pcb by auto
    let ?jb = "markUnlocked JobRunning now ((jobs_of s ! b)\<lparr>jb_ctx := Some False, jb_cancel := True\<rparr>)"
    have jb: "job_ok ?jb ((sy_thr s ! b)\<lparr>th_pc := Promoted\<rparr>)"
      using starting_ok [OF locals_okD [OF loc vb] pcb] .
    have nx: "nx = Some b" and r: "r = flushed ok now (startingUnlocked now b
        ((upd_job a (set_terminal st code msg now) ?r)\<lparr>rg_queue := q, rg_slots := rg_slots ?r\<rparr>))"
      using finish_locked_promotes [OF status _ q pos cap, of st code msg now ok] False fin by simp_all
    let ?s' = "goto b Promoted (goto a (Finished (Some b)) (upd_flush ok (\<lambda>_. r) s))"
    have "moves2 a (set_terminal st code msg now (jobs_of s ! a)) ((sy_thr s ! a)\<lparr>th_pc := Finished (Some b)\<rparr>)
        b ?jb ((sy_thr s ! b)\<lparr>th_pc := Promoted\<rparr>) s ?s'"
      using ab va vb ja' jb safe len by (simp add: moves2_def r startingUnlocked_def safe_effects_def)
    moreover have "rg_queue ?r = b # rg_queue (sy_reg ?s')" by (simp add: q r startingUnlocked_def)
    ultimately have "sys_inv ?s'"
      using promotes_inv [OF inv, of a _ _ b _ _ ?s'] pca pcb False by simp
    then show ?thesis by (simp add: nx)
  qed
qed

lemma finish_post_eq:
  "finish_post snap ok a r = (pruned, dbl, r') \<Longrightarrow>
   pruned = (jr_Mode (jb_Record (rg_mem r ! a)) = ModeWrite \<and> job_status (rg_mem r ! a) = JobAborted)
   \<and> dbl = jb_done (rg_mem r ! a) \<and> rg_mem r' = (rg_mem r)[a := (rg_mem r ! a)\<lparr>jb_done := True\<rparr>]
   \<and> rg_jobs r' = rg_jobs r \<and> rg_queue r' = rg_queue r \<and> rg_slots r' = rg_slots r
   \<and> rg_cap r' = rg_cap r \<and> rg_closed r' = rg_closed r
   \<and> rg_ownerPid r' = rg_ownerPid r \<and> rg_ownerStartedAt r' = rg_ownerStartedAt r"
  by (auto simp: finish_post_def Let_def upd_job_def split: option.splits if_splits)

text \<open>The end of a job that promoted nobody.\<close>

lemma exits_inv:
  assumes inv: "sys_inv s" and va: "valid s a" and pca: "pc_of s a = Finished None" and pct: "th_pc t = Exited"
    and ok: "job_ok j t" and s': "jobs_of s' = (jobs_of s)[a := j]" "sy_thr s' = (sy_thr s)[a := t]"
    "rg_jobs (sy_reg s') = rg_jobs (sy_reg s)" "rg_queue (sy_reg s') = rg_queue (sy_reg s)"
    "rg_slots (sy_reg s') = rg_slots (sy_reg s)" "rg_cap (sy_reg s') = rg_cap (sy_reg s)"
    "rg_closed (sy_reg s') = rg_closed (sy_reg s)" "sy_cancels s' = sy_cancels s" "safe_effects s'"
    and jid: "jr_JobID (jb_Record j) = jr_JobID (jb_Record (jobs_of s ! a))"
  shows "sys_inv s'"
proof -
  have val: "valid s' c = valid s c" for c using s'(2) by simp
  have pcs: "pc_of s' c = x \<longleftrightarrow> pc_of s c = x" if "x \<noteq> Exited" "x \<noteq> Finished None" for c x
    using that pca pct va s'(2) by (cases "c = a") auto
  have "locals_ok s'"
    using inv ok s'(1,2) by (simp add: sys_inv_def locals_ok_def list_all2_update_cong)
  moreover have "slots_ok s'"
    using inv s' pca pct by (simp add: sys_inv_def slots_ok_def holds_def)
  moreover have "queue_ok s'"
    using inv s'(4) by (simp add: sys_inv_def queue_ok_def pcs val)
  moreover have "work_conserving s'"
    using inv s' by (simp add: sys_inv_def work_conserving_def)
  moreover have "handover_ok s' = handover_ok s"
    by (simp add: handover_ok_def pcs val)
  moreover have "jr_JobID (jb_Record (jobs_of s' ! b)) = jr_JobID (jb_Record (jobs_of s ! b))" for b
    using s'(1) inv jid va by (cases "b = a") (auto simp: sys_inv_def dest!: locals_ok_length)
  then have "map_ok s'"
    using inv s'(3,8) by (simp add: sys_inv_def map_ok_def pcs val)
  ultimately show ?thesis using inv s'(9) by (simp add: sys_inv_def)
qed

lemma inv_finish_end:
  assumes inv: "sys_inv s" and va: "valid s a" and pca: "pc_of s a = Finished nx"
    and fin: "finish_post snap ok a (sy_reg s) = (pruned, dbl, r)"
  shows "sys_inv ((case nx of None \<Rightarrow> (\<lambda>s. s) | Some b \<Rightarrow> goto b Starting)
               (goto a Exited
                 (s\<lparr>sy_reg := r, sy_panic := (sy_panic s \<or> dbl),
                    sy_pruned := sy_pruned s @ (if pruned then [(a, th_alive (sy_thr s ! a))] else [])\<rparr>)))"
proof -
  let ?s1 = "goto a Exited (s\<lparr>sy_reg := r, sy_panic := (sy_panic s \<or> dbl),
                    sy_pruned := sy_pruned s @ (if pruned then [(a, th_alive (sy_thr s ! a))] else [])\<rparr>)"
  have loc: "locals_ok s" and safe: "safe_effects s" and ho: "handover_ok s"
    using inv by (simp_all add: sys_inv_def)
  have len: "length (jobs_of s) = length (sy_thr s)" using loc by (rule locals_ok_length)
  have ja: "job_ok (jobs_of s ! a) (sy_thr s ! a)" using loc va by (rule locals_okD)
  note post = finish_post_eq [OF fin]
  have ja': "job_ok ((jobs_of s ! a)\<lparr>jb_done := True\<rparr>) ((sy_thr s ! a)\<lparr>th_pc := Exited\<rparr>)"
    using ja pca by (simp add: job_ok_def)
  have "\<not> th_alive (sy_thr s ! a)" "\<not> jb_done (jobs_of s ! a)"
    using ja pca by (simp_all add: job_ok_def)
  then have safe': "safe_effects ?s1" using safe post by (auto simp: safe_effects_def)
  show ?thesis
  proof (cases nx)
    case None
    then have "pc_of s a = Finished None" using pca by simp
    then have "sys_inv ?s1"
      by (rule exits_inv [OF inv va _ _ ja' _ _ _ _ _ _ _ _ safe']) (simp_all add: post)
    then show ?thesis by (simp add: None)
  next
    case (Some b)
    have vb: "valid s b" and pcb: "pc_of s b = Promoted"
      using handoverD(1,2) [OF ho va] pca Some by simp_all
    have jb: "job_ok (jobs_of s ! b) ((sy_thr s ! b)\<lparr>th_pc := Starting\<rparr>)"
      using locals_okD [OF loc vb] pcb by (simp add: job_ok_def)
    have ab: "a \<noteq> b" using pca pcb by auto
    have "moves2 a ((jobs_of s ! a)\<lparr>jb_done := True\<rparr>) ((sy_thr s ! a)\<lparr>th_pc := Exited\<rparr>)
        b (jobs_of s ! b) ((sy_thr s ! b)\<lparr>th_pc := Starting\<rparr>) s (goto b Starting ?s1)"
      using ab va vb ja' jb safe' post len
      by (simp add: moves2_def safe_effects_def) (metis list_update_id list_update_swap)
    then have "sys_inv (goto b Starting ?s1)"
      using starts_inv [OF inv] pca Some post by simp
    then show ?thesis by (simp add: Some)
  qed
qed

subsection \<open>Cancelling and closing\<close>

lemma aborted_pc_ok:
  assumes "pc_ok p j t" and "job_status j = JobRunning" and "p \<noteq> Dropped"
  shows "pc_ok p (abort_mark now j) t"
  using assms by (cases p) (auto simp: live_def)

lemma map_okD:
  assumes "map_ok s" and "map_of (rg_jobs (sy_reg s)) jid = Some a"
  shows "valid s a" and "pc_of s a \<noteq> Dropped" and "jr_JobID (jb_Record (jobs_of s ! a)) = jid"
  using assms map_of_SomeD [OF assms(2)] by (auto simp: map_ok_def)

text \<open>Cancelling a running job marks it; the goroutines find out later.\<close>

lemma abort_running_inv:
  assumes inv: "sys_inv s" and va: "valid s a" and "pc_of s a \<noteq> Dropped" and run: "job_status (jobs_of s ! a) = JobRunning"
    and r: "r = flushed ok now (upd_job a (abort_mark now) (sy_reg s))"
  shows "sys_inv (s\<lparr>sy_reg := r, sy_dirty := d, sy_panic := sy_panic s\<rparr>)"
proof (rule move_step [OF inv va])
  assume "valid s a" and len: "length (jobs_of s) = length (sy_thr s)" and "job_ok (jobs_of s ! a) (sy_thr s ! a)"
  then have "job_ok (abort_mark now (jobs_of s ! a)) (sy_thr s ! a)"
    using aborted_pc_ok [OF _ run] assms(3) by (simp add: job_ok_def)
  then show "moves a (jobs_of (s\<lparr>sy_reg := r, sy_dirty := d, sy_panic := sy_panic s\<rparr>) ! a)
      (sy_thr (s\<lparr>sy_reg := r, sy_dirty := d, sy_panic := sy_panic s\<rparr>) ! a) s (s\<lparr>sy_reg := r, sy_dirty := d, sy_panic := sy_panic s\<rparr>)
    \<and> job_ok (jobs_of (s\<lparr>sy_reg := r, sy_dirty := d, sy_panic := sy_panic s\<rparr>) ! a)
      (sy_thr (s\<lparr>sy_reg := r, sy_dirty := d, sy_panic := sy_panic s\<rparr>) ! a)"
    using va len by (simp add: moves_def r)
qed

text \<open>Cancelling a queued job takes it out of the queue for good.\<close>

lemma queued_pc:
  assumes "job_ok j t" and "job_status j = JobQueued" and "th_pc t \<noteq> Dropped"
  shows "th_pc t = InQueue"
  using assms by (cases "th_pc t") (auto simp: job_ok_def live_def isTerminal_def)

lemma abort_queued_inv:
  assumes inv: "sys_inv s" and va: "valid s a" and pca: "pc_of s a = InQueue"
    and s': "jobs_of s' = (jobs_of s)[a := j]" "sy_thr s' = (sy_thr s)[a := t]" "th_pc t = Cancelled" "job_ok j t"
    "jr_JobID (jb_Record j) = jr_JobID (jb_Record (jobs_of s ! a))"
    "rg_jobs (sy_reg s') = rg_jobs (sy_reg s)" "rg_queue (sy_reg s') = filter (\<lambda>b. b \<noteq> a) (rg_queue (sy_reg s))"
    "rg_slots (sy_reg s') = rg_slots (sy_reg s)" "rg_cap (sy_reg s') = rg_cap (sy_reg s)"
    "rg_closed (sy_reg s') = rg_closed (sy_reg s)" "sy_cancels s' = sy_cancels s" "safe_effects s'"
  shows "sys_inv s'"
proof -
  have val: "valid s' c = valid s c" for c using s'(2) by simp
  have pcs: "pc_of s' c = x \<longleftrightarrow> pc_of s c = x" if "x \<noteq> InQueue" "x \<noteq> Cancelled" for c x
    using that pca va s'(2,3) by (cases "c = a") auto
  have "locals_ok s'"
    using inv s'(1,2,4) by (simp add: sys_inv_def locals_ok_def list_all2_update_cong)
  moreover have "slots_ok s'"
    using inv s' pca by (simp add: sys_inv_def slots_ok_def holds_def)
  moreover have "pc_of s' c = InQueue \<longleftrightarrow> pc_of s c = InQueue \<and> c \<noteq> a" for c
    using s'(2,3) va by (cases "c = a") auto
  then have "queue_ok s'"
    using inv unfolding sys_inv_def queue_ok_def s'(7) by (auto simp: val)
  moreover have "work_conserving s'"
    using inv s' by (auto simp: sys_inv_def work_conserving_def)
  moreover have "handover_ok s' = handover_ok s"
    by (simp add: handover_ok_def pcs val)
  moreover have "jr_JobID (jb_Record (jobs_of s' ! b)) = jr_JobID (jb_Record (jobs_of s ! b))" for b
    using s'(1,5) inv va by (cases "b = a") (auto simp: sys_inv_def dest!: locals_ok_length)
  then have "map_ok s'"
    using inv s'(6,11) by (simp add: sys_inv_def map_ok_def pcs val)
  ultimately show ?thesis using inv s'(12) by (simp add: sys_inv_def)
qed

lemma frame_inv:
  assumes inv: "sys_inv s" and thr: "sy_thr s' = sy_thr s" and mem: "jobs_of s' = jobs_of s"
    and regs: "rg_jobs (sy_reg s') = rg_jobs (sy_reg s)" "rg_queue (sy_reg s') = rg_queue (sy_reg s)"
    "rg_slots (sy_reg s') = rg_slots (sy_reg s)" "rg_cap (sy_reg s') = rg_cap (sy_reg s)"
    and cl: "rg_closed (sy_reg s) \<Longrightarrow> rg_closed (sy_reg s')"
    and canc: "\<And>a. a \<in> set (sy_cancels s') \<Longrightarrow> a \<in> set (sy_cancels s) \<or> valid s a" and safe: "safe_effects s'"
  shows "sys_inv s'"
proof -
  have "handover_ok s' = handover_ok s" by (simp add: handover_ok_def thr)
  moreover have "locals_ok s' = locals_ok s" "slots_ok s' = slots_ok s" "queue_ok s' = queue_ok s"
    by (simp_all add: locals_ok_def slots_ok_def queue_ok_def thr mem regs)
  moreover have "work_conserving s \<Longrightarrow> work_conserving s'"
    using cl by (auto simp: work_conserving_def regs)
  moreover have "map_ok s \<Longrightarrow> map_ok s'"
    using canc by (auto simp: map_ok_def regs mem thr)
  ultimately show ?thesis using inv safe by (simp add: sys_inv_def)
qed

lemma inv_safe: "sys_inv s \<Longrightarrow> safe_effects s"
  by (simp add: sys_inv_def)

lemma add_cancels_inv:
  assumes "sys_inv s" and "\<And>a. a \<in> set as \<Longrightarrow> valid s a"
  shows "sys_inv (s\<lparr>sy_cancels := sy_cancels s @ as\<rparr>)"
  by (rule frame_inv [OF assms(1)]) (use assms(2) inv_safe [OF assms(1)] in \<open>auto simp: safe_effects_def\<close>)

lemma add_pruned_inv:
  assumes "sys_inv s" and "\<not> th_alive (sy_thr s ! a)"
  shows "sys_inv (s\<lparr>sy_pruned := sy_pruned s @ [(a, th_alive (sy_thr s ! a))]\<rparr>)"
  by (rule frame_inv [OF assms(1)]) (use assms(2) inv_safe [OF assms(1)] in \<open>auto simp: safe_effects_def\<close>)

lemma dirty_inv [simp]: "sys_inv (s\<lparr>sy_dirty := d\<rparr>) = sys_inv s"
  by (simp add: inv_defs)

lemma Cancel_unchanged:
  assumes "Cancel jid now ok r = (res, act, dbl, r')"
    and "\<And>a. map_of (rg_jobs r) jid = Some a \<Longrightarrow> job_status (rg_mem r ! a) \<notin> {JobQueued, JobRunning}"
  shows "act = NoAction \<and> \<not> dbl \<and> r' = r"
  using assms by (auto simp: Cancel_def Let_def split: option.splits if_splits)

lemma Cancel_queued:
  assumes "Cancel jid now ok r = (res, act, dbl, r')" and "map_of (rg_jobs r) jid = Some a"
    and "job_status (rg_mem r ! a) = JobQueued"
  shows "act = (if jr_Mode (jb_Record (rg_mem r ! a)) = ModeWrite then PruneWorktree a else NoAction)
    \<and> dbl = jb_done (rg_mem r ! a)
    \<and> r' = upd_job a (\<lambda>j. j\<lparr>jb_done := True\<rparr>) (flushed ok now (upd_job a (abort_mark now) (removeFromQueueUnlocked a r)))"
  using assms by (auto simp: Cancel_def Let_def isTerminal_def)

lemma Cancel_running:
  assumes "Cancel jid now ok r = (res, act, dbl, r')" and "map_of (rg_jobs r) jid = Some a"
    and "job_status (rg_mem r ! a) = JobRunning" and "jb_cancel (rg_mem r ! a)"
  shows "act = CallCancel a \<and> \<not> dbl \<and> r' = flushed ok now (upd_job a (abort_mark now) r)"
  using assms by (auto simp: Cancel_def Let_def isTerminal_def)

lemma inv_cancel:
  assumes inv: "sys_inv s" and can: "Cancel jid now ok (sy_reg s) = (res, act, dbl, r)"
  shows "sys_inv (do_cancel_after act ((cancelled_pc jid s)\<lparr>sy_reg := r, sy_panic := (sy_panic s \<or> dbl), sy_dirty := d\<rparr>))"
proof -
  have mp: "map_ok s" and loc: "locals_ok s" and safe: "safe_effects s"
    using inv by (simp_all add: sys_inv_def)
  have len: "length (jobs_of s) = length (sy_thr s)" using loc by (rule locals_ok_length)
  consider (other) "\<And>a. map_of (rg_jobs (sy_reg s)) jid = Some a \<Longrightarrow> job_status (jobs_of s ! a) \<notin> {JobQueued, JobRunning}"
    | (queued) a where "map_of (rg_jobs (sy_reg s)) jid = Some a" "job_status (jobs_of s ! a) = JobQueued"
    | (running) a where "map_of (rg_jobs (sy_reg s)) jid = Some a" "job_status (jobs_of s ! a) = JobRunning"
    by blast
  then show ?thesis
  proof cases
    case other
    then have "cancelled_pc jid s = s" by (auto simp: cancelled_pc_def split: option.split)
    with Cancel_unchanged [OF can other] inv show ?thesis
      by (simp add: do_cancel_after_def)
  next
    case (queued a)
    note a = map_okD [OF mp queued(1)] and c = Cancel_queued [OF can queued]
    note ok = locals_okD [OF loc a(1)]
    have pca: "pc_of s a = InQueue" using queued_pc [OF ok queued(2) a(2)] .
    then have idle: "\<not> jb_done (jobs_of s ! a)" "\<not> th_alive (sy_thr s ! a)"
      using ok by (simp_all add: job_ok_def)
    let ?s1 = "(cancelled_pc jid s)\<lparr>sy_reg := r, sy_panic := (sy_panic s \<or> dbl), sy_dirty := d\<rparr>"
    have pc: "cancelled_pc jid s = goto a Cancelled s" using queued by (simp add: cancelled_pc_def)
    have ok': "job_ok ((abort_mark now (jobs_of s ! a))\<lparr>jb_done := True\<rparr>) ((sy_thr s ! a)\<lparr>th_pc := Cancelled\<rparr>)"
      using ok pca by (auto simp: job_ok_def)
    have "sys_inv ?s1"
      by (rule abort_queued_inv [OF inv a(1) pca _ _ _ ok'])
        (use a(1) len idle safe c pc in \<open>simp_all add: removeFromQueueUnlocked_def safe_effects_def\<close>)
    moreover have "\<not> th_alive (sy_thr ?s1 ! a)" using idle(2) a(1) pc by simp
    ultimately show ?thesis
      using add_pruned_inv [of ?s1 a] c by (auto simp: do_cancel_after_def)
  next
    case (running a)
    note a = map_okD [OF mp running(1)]
    note ok = locals_okD [OF loc a(1)]
    have "jb_cancel (jobs_of s ! a)"
      using ok running(2) a(2) by (cases "pc_of s a") (auto simp: job_ok_def live_def isTerminal_def)
    note c = Cancel_running [OF can running this]
    have pc: "cancelled_pc jid s = s" using running by (simp add: cancelled_pc_def)
    have "sys_inv (s\<lparr>sy_reg := r, sy_dirty := d, sy_panic := sy_panic s\<rparr>)"
      using abort_running_inv [OF inv a(1,2) running(2)] c by blast
    then show ?thesis
      using add_cancels_inv [of "s\<lparr>sy_reg := r, sy_panic := sy_panic s, sy_dirty := d\<rparr>" "[a]"] a(1) c pc
      by (simp add: do_cancel_after_def)
  qed
qed

lemma inv_close:
  assumes inv: "sys_inv s" and cl: "Close now ok (sy_reg s) = (Some as, r)"
  shows "sys_inv (s\<lparr>sy_reg := r, sy_dirty := d, sy_cancels := sy_cancels s @ as\<rparr>)"
proof -
  have r: "r = flushed ok now ((sy_reg s)\<lparr>rg_closed := True\<rparr>)"
    and as: "set as \<subseteq> snd ` set (rg_jobs (sy_reg s))"
    using cl by (auto simp: Close_def Let_def split: if_splits)
  have "sys_inv (s\<lparr>sy_reg := r, sy_dirty := d\<rparr>)"
    by (rule frame_inv [OF inv]) (use inv_safe [OF inv] in \<open>simp_all add: r safe_effects_def\<close>)
  moreover have "map_ok s" using inv by (simp add: sys_inv_def)
  then have "valid s a" if "a \<in> set as" for a
    using that as by (fastforce simp: map_ok_def)
  ultimately show ?thesis
    using add_cancels_inv [of "s\<lparr>sy_reg := r, sy_dirty := d\<rparr>" as] by simp
qed

subsection \<open>Every step, every reachable state\<close>

lemma inv_submit:
  assumes "sys_inv s" and "Submit spec uuid now ok (sy_reg s) = (res, r)"
  shows "case res of
     Inr (a, admitted) \<Rightarrow> sys_inv (s\<lparr>sy_reg := r, sy_dirty := d,
        sy_thr := sy_thr s @ [new_thread (if admitted then Starting else InQueue)]\<rparr>)
   | Inl e \<Rightarrow> sys_inv (s\<lparr>sy_reg := r, sy_dirty := d, sy_thr := sy_thr s @ [new_thread Dropped]\<rparr>)"
  using Submit_adds [OF assms, of d] adds_inv [OF assms(1)] by (auto split: sum.splits prod.splits)

lemma inv_shared_table:
  assumes "sys_inv s"
  shows "sys_inv (s\<lparr>sy_reg := (sy_reg s)\<lparr>rg_store := t\<rparr>\<rparr>)"
  by (rule frame_inv [OF assms]) (use inv_safe [OF assms] in \<open>simp_all add: safe_effects_def\<close>)

lemma step_inv: "step s t \<Longrightarrow> sys_inv s \<Longrightarrow> sys_inv t"
proof (induction rule: step.induct)
  case (submit_ok spec uuid now ok s a admitted r)
  then show ?case using inv_submit [of s spec uuid now ok "Inr (a, admitted)" r] by simp
next
  case (submit_fail spec uuid now ok s e r)
  then show ?case using inv_submit [of s spec uuid now ok "Inl e" r "sy_dirty s"] by simp
next
  case (session_event s a sid found now ok resolved r)
  then show ?case using inv_session_event [of s a sid resolved ok found now] by simp
next
  case (poll s a sid found now ok resolved r)
  then show ?case using inv_poll [of s a sid resolved "if resolved then \<not> ok else sy_dirty s" found now ok] by simp
next
  case (session_none s a)
  then show ?case by (simp add: inv_correlate_exit)
next
  case (correlate_stop s a)
  then show ?case by (simp add: inv_correlate_exit)
qed (blast intro: inv_attempts inv_finish_cs inv_finish_end inv_cancel inv_cancel_call inv_close inv_shared_table)+

lemma reachable_inv: "reachable s \<Longrightarrow> sys_inv s"
  by (rule ts.invariantI [of sys_inv]) (use init_inv step_inv in blast)+

end
