(* ===== verification/Registry_Props.thy ===== *)
theory Registry_Props
  imports Registry_Global
begin

text \<open>
  What the registry promises in every reachable state of its interleaving semantics: the
  concurrency cap, work conservation, finality of terminal records, a channel closed once, bounded
  launches, pruning only after the process is gone, progress and termination of every job, the
  queue discipline and durability. A short run of the system (\<open>demo1\<close>, \<open>demo2\<close>, ...) witnesses
  that the hypotheses can hold.
\<close>

subsection \<open>A run of a server with one slot\<close>

definition demo_spec :: "string \<Rightarrow> Spec" where
  "demo_spec jid = \<lparr>sp_Mode = ModeWrite, sp_CWD = ''/w'', sp_RunsDir = ''/w/runs'', sp_Task = ''t'',
     sp_Context = [], sp_Worktree = ''/wt'', sp_Branch = ''b'', sp_JobID = [], sp_PreassignedID = jid\<rparr>"

definition demo0 :: Sys where "demo0 = init_sys 1 100 ''s'' []"

definition demo_submit :: "string \<Rightarrow> pc \<Rightarrow> Sys \<Rightarrow> Sys" where
  "demo_submit jid p s = s\<lparr>sy_reg := snd (Submit (demo_spec jid) [] 5 True (sy_reg s)), sy_dirty := \<not> True,
     sy_thr := sy_thr s @ [new_thread p]\<rparr>"

text \<open>One job starts, a second one waits for its slot; the first is launched, its process runs, exits
  and the job finishes, which promotes the second.\<close>

definition demo1 :: Sys where "demo1 = demo_submit ''j1'' Starting demo0"
definition demo2 :: Sys where "demo2 = demo_submit ''j2'' InQueue demo1"
definition demo3 :: Sys where
  "demo3 = upd_thr 0 (\<lambda>t. t\<lparr>th_pc := Launched 7, th_launches := Suc (th_launches t), th_alive := True\<rparr>) demo2"
definition demo4 :: Sys where
  "demo4 = goto 0 (Attempt 0) (upd_flush True (\<lambda>_. snd (start_commit 7 6 True 0 (sy_reg demo3))) demo3)"
definition demo5 :: Sys where
  "demo5 = upd_thr 0 (\<lambda>t. t\<lparr>th_pc := Waiting 0, th_cpc := CAwait, th_acancel := False\<rparr>)
     (upd_flush True (attempt_begin 7 True 0) demo4)"
definition demo6 :: Sys where
  "demo6 = upd_thr 0 (\<lambda>t. t\<lparr>th_pc := Finishing JobCompleted [] [], th_acancel := True, th_alive := False\<rparr>)
     (upd_reg (upd_job 0 cancel_ctx) demo5)"
definition demo7 :: Sys where "demo7 = correlate_exit 0 demo6"
definition demo8 :: Sys where
  "demo8 = goto 1 Promoted (goto 0 (Finished (Some 1))
     (upd_flush True (\<lambda>_. snd (finish_locked JobCompleted [] [] 9 True 0 (sy_reg demo7))) demo7))"

lemmas demo_regs = demo0_def init_sys_def NewRegistry_def demo_spec_def NewJob_def zero_JobRecord_def
  tryAdmitUnlocked_def startingUnlocked_def flushUnlocked_def recordsUnlocked_def UpsertJobs_def
  row_of_def upd_job_def markUnlocked_def Let_def DefaultConcurrencyCap_def Submit_def new_thread_def
  demo_submit_def upd_thr_def upd_flush_def upd_reg_def

lemma demo1_eq: "Submit (demo_spec ''j1'') [] 5 True (sy_reg demo0) = (Inr (0, True), sy_reg demo1)"
  by (simp add: demo_regs demo1_def)

lemma demo2_eq: "Submit (demo_spec ''j2'') [] 5 True (sy_reg demo1) = (Inr (1, False), sy_reg demo2)"
  by (simp add: demo_regs demo1_def demo2_def)

lemma demo_threads:
  "sy_thr demo0 = []" "sy_thr demo1 = [new_thread Starting]" "sy_thr demo2 = [new_thread Starting, new_thread InQueue]"
  "pc_of demo3 0 = Launched 7" "pc_of demo4 0 = Attempt 0" "pc_of demo5 0 = Waiting 0"
  "pc_of demo6 0 = Finishing JobCompleted [] []" "pc_of demo7 0 = Finishing JobCompleted [] []"
  "length (sy_thr demo3) = 2" "length (sy_thr demo4) = 2" "length (sy_thr demo5) = 2" "length (sy_thr demo6) = 2"
  "length (sy_thr demo7) = 2" "length (sy_thr demo8) = 2" "th_cpc (sy_thr demo6 ! 0) = CAwait" "th_acancel (sy_thr demo6 ! 0)"
  by (simp_all add: demo0_def init_sys_def demo1_def demo2_def demo3_def demo4_def demo5_def demo6_def demo7_def
      demo8_def demo_submit_def new_thread_def correlate_exit_def)

lemma demo_stores:
  "rg_store (sy_reg demo0) = []" "rg_ownerPid (sy_reg demo0) = 100" "rg_closed (sy_reg demo3) = False"
  "tbl_get (rg_store (sy_reg demo1)) ''j2'' = None"
  by (simp_all add: demo_regs demo1_def demo2_def demo3_def tbl_get_def)

lemma demo_len: "length (jobs_of demo2) = 2"
  by (simp add: demo_regs demo1_def demo2_def)

lemma demo_commit: "start_commit 7 6 True 0 (sy_reg demo3) = (True, snd (start_commit 7 6 True 0 (sy_reg demo3)))"
  by (simp add: start_commit_def demo_stores(3))

lemma demo_fin_reg:
  "fin_ready demo7 0" "rg_queue (sy_reg demo7) = [1]" "\<not> rg_closed (sy_reg demo7)" "rg_slots (sy_reg demo7) = 1"
  "rg_cap (sy_reg demo7) = 1" "job_status (jobs_of demo7 ! 0) = JobRunning"
  by (simp_all add: fin_ready_def demo7_def correlate_exit_def demo6_def demo5_def demo4_def demo3_def attempt_begin_def
      start_commit_def demo2_def demo1_def demo_regs set_PID_def cancel_ctx_def)

lemma demo_reachable1: "reachable demo1"
proof -
  have "reachable demo0" unfolding demo0_def by (rule reachable.init) (simp add: wf_table_def)
  moreover have "step demo0 demo1"
    using step.submit_ok [OF demo1_eq] by (simp add: demo_stores tbl_get_def demo1_def demo_submit_def)
  ultimately show ?thesis by (rule reachable.more)
qed

lemma demo_reachable2: "reachable demo2"
proof -
  have "jr_JobID (jb_Record (NewJob (demo_spec ''j2'') [] 5)) = ''j2''"
    by (simp add: NewJob_def demo_spec_def Let_def)
  then have "step demo1 demo2"
    using step.submit_ok [OF demo2_eq] by (simp add: demo_stores(4) demo2_def demo_submit_def)
  with demo_reachable1 show ?thesis by (rule reachable.more)
qed

lemma demo_reachable3: "reachable demo3"
  by (rule reachable.more [OF demo_reachable2], unfold demo3_def, rule step.launch_ok)
    (simp_all add: demo_threads new_thread_def)

lemma demo_reachable5: "reachable demo5"
proof -
  have "step demo3 demo4"
    unfolding demo4_def by (rule step.start_go [OF _ demo_threads(4) demo_commit]) (simp add: demo_threads)
  moreover have "step demo4 demo5"
    unfolding demo5_def by (rule step.attempt) (simp_all add: demo_threads)
  ultimately show ?thesis using demo_reachable3 by (blast intro: reachable.more)
qed

lemma demo_reachable7: "reachable demo7"
proof -
  have "step demo5 demo6"
    unfolding demo6_def by (rule step.wait_ok) (simp_all add: demo_threads)
  moreover have "step demo6 demo7"
    unfolding demo7_def by (rule step.correlate_stop) (simp_all add: demo_threads attempt_cancelled_def)
  ultimately show ?thesis using demo_reachable5 by (blast intro: reachable.more)
qed

lemma demo_step8: "step demo7 demo8"
proof -
  have "fst (finish_locked JobCompleted [] [] 9 True 0 (sy_reg demo7)) = Some 1"
    using finish_locked_promotes [of "sy_reg demo7" 0 1 "[]"] demo_fin_reg by simp
  then have "finish_locked JobCompleted [] [] 9 True 0 (sy_reg demo7) =
      (Some 1, snd (finish_locked JobCompleted [] [] 9 True 0 (sy_reg demo7)))"
    by (metis prod.collapse)
  from step.finish_cs [OF _ demo_threads(8) demo_fin_reg(1) this] show ?thesis
    by (simp add: demo_threads demo8_def)
qed

subsection \<open>The concurrency cap\<close>

lemma cap_constant: "step s t \<Longrightarrow> rg_cap (sy_reg t) = rg_cap (sy_reg s)"
proof (induction rule: step.induct)
  case (finish_cs s a st code msg now ok nx r)
  then show ?case
    by (auto simp: finish_locked_def promoteUnlocked_def dequeueUnlocked_def startingUnlocked_def Let_def
        split: option.split list.splits if_splits)
next
  case (finish_end s a nx snap ok pruned dbl r)
  then show ?case by (auto dest!: finish_post_eq split: option.split)
qed (auto simp: submit_defs case_prod_beta start_commit_def attempt_begin_def retry_reset_def retry_commit_def
      correlate_exit_def correlate_next_def correlate_session_def correlate_poll_def tryResolveRunUnlocked_def
      Cancel_def do_cancel_after_def cancelled_pc_def Close_def split: if_splits option.splits CancelAfter.split)

lemma cap_positive: "reachable s \<Longrightarrow> 0 < rg_cap (sy_reg s)"
  by (rule ts.invariantI [of "\<lambda>s. 0 < rg_cap (sy_reg s)"])
    (auto simp: init_sys_def NewRegistry_def Let_def DefaultConcurrencyCap_def cap_constant)

text \<open>Parts of the invariant in the form the properties use.\<close>

lemma reachable_job: "reachable s \<Longrightarrow> valid s a \<Longrightarrow> job_ok (jobs_of s ! a) (sy_thr s ! a)"
  by (rule locals_okD) (auto dest: reachable_inv simp: sys_inv_def)

lemma reachable_length: "reachable s \<Longrightarrow> length (jobs_of s) = length (sy_thr s)"
  by (rule locals_ok_length) (auto dest: reachable_inv simp: sys_inv_def)

lemma reachable_parts:
  assumes "reachable s"
  shows "slots_ok s" and "queue_ok s" and "work_conserving s" and "handover_ok s" and "map_ok s" and "safe_effects s"
  using reachable_inv [OF assms] by (simp_all add: sys_inv_def)

lemma alive_holds: "job_ok j t \<Longrightarrow> th_alive t \<Longrightarrow> holds (th_pc t)"
  by (cases "th_pc t") (auto simp: job_ok_def holds_def)

lemma running_holds: "job_ok j t \<Longrightarrow> job_status j = JobRunning \<Longrightarrow> th_pc t \<noteq> Dropped \<Longrightarrow> holds (th_pc t)"
  by (cases "th_pc t") (auto simp: job_ok_def holds_def isTerminal_def)

lemma count_if_mono: "(\<And>x. x \<in> set xs \<Longrightarrow> P x \<Longrightarrow> Q x) \<Longrightarrow> count_if P xs \<le> count_if Q xs"
  by (induction xs) auto

text \<open>C1: the concurrency cap. In every reachable state of the registry, whatever requests, exits,
  retries, cancellations and failed writes came before, the tokens in \<^verbatim>\<open>slots\<close> are exactly the jobs
  between admission and finish, there are at most \<^verbatim>\<open>cap\<close> of them, a job that has a live pi process
  is one of them and so is a registered job whose status is running; the cap is positive.\<close>

theorem concurrency_cap:
  assumes "reachable s"
  shows "rg_slots (sy_reg s) = count_if (\<lambda>t. holds (th_pc t)) (sy_thr s)
    \<and> rg_slots (sy_reg s) \<le> rg_cap (sy_reg s) \<and> 0 < rg_cap (sy_reg s)
    \<and> count_if th_alive (sy_thr s) \<le> rg_cap (sy_reg s)
    \<and> (\<forall>(jid, a) \<in> set (rg_jobs (sy_reg s)). job_status (jobs_of s ! a) = JobRunning \<longrightarrow> holds (pc_of s a))"
proof -
  have job: "valid s a \<Longrightarrow> job_ok (jobs_of s ! a) (sy_thr s ! a)" for a
    using reachable_job [OF assms] .
  have slots: "rg_slots (sy_reg s) = count_if (\<lambda>t. holds (th_pc t)) (sy_thr s)" "rg_slots (sy_reg s) \<le> rg_cap (sy_reg s)"
    using reachable_parts(1) [OF assms] by (simp_all add: slots_ok_def)
  have "count_if th_alive (sy_thr s) \<le> count_if (\<lambda>t. holds (th_pc t)) (sy_thr s)"
    by (rule count_if_mono) (auto simp: in_set_conv_nth dest!: alive_holds [OF job])
  moreover have "\<forall>(jid, a) \<in> set (rg_jobs (sy_reg s)). job_status (jobs_of s ! a) = JobRunning \<longrightarrow> holds (pc_of s a)"
    using reachable_parts(5) [OF assms] running_holds [OF job] by (fastforce simp: map_ok_def)
  ultimately show ?thesis using slots cap_positive [OF assms] by linarith
qed

theorem concurrency_cap_witness:
  "reachable demo3 \<and> count_if th_alive (sy_thr demo3) \<le> rg_cap (sy_reg demo3)"
  using concurrency_cap [OF demo_reachable3] demo_reachable3 by blast

text \<open>C8: no idle slot. While the registry is open, a job waits in the queue only if all slots are
  taken; the queue holds exactly the jobs that wait, each of them once.\<close>

theorem no_idle_slot:
  assumes "reachable s" and "\<not> rg_closed (sy_reg s)" and "rg_queue (sy_reg s) \<noteq> []"
  shows "rg_slots (sy_reg s) = rg_cap (sy_reg s) \<and> distinct (rg_queue (sy_reg s))
    \<and> set (rg_queue (sy_reg s)) = {a. valid s a \<and> pc_of s a = InQueue}"
  using reachable_parts(2,3) [OF assms(1)] assms(2,3) by (auto simp: work_conserving_def queue_ok_def)

theorem no_idle_slot_witness: "rg_queue (sy_reg demo7) = [1] \<and> rg_slots (sy_reg demo7) = rg_cap (sy_reg demo7)"
  using no_idle_slot [OF demo_reachable7] demo_fin_reg by simp

subsection \<open>Channels and effects\<close>

text \<open>C3: a job's \<^verbatim>\<open>done\<close> channel is closed at most once and only when its status is final. No run of
  the registry ever closes a closed channel (which would crash the server), and a closed channel
  means the job is terminal and no goroutine of it is left.\<close>

theorem done_closed_once:
  assumes "reachable s" and "valid s a" and "pc_of s a \<noteq> Dropped"
  shows "\<not> sy_panic s
    \<and> (jb_done (jobs_of s ! a) \<longrightarrow> isTerminal (job_status (jobs_of s ! a)) \<and> pc_of s a \<in> {Exited, Cancelled}
         \<and> th_cpc (sy_thr s ! a) = CNone \<and> \<not> th_alive (sy_thr s ! a))"
proof -
  have "job_ok (jobs_of s ! a) (sy_thr s ! a)" using reachable_job assms(1,2) .
  then have "jb_done (jobs_of s ! a) \<longrightarrow> isTerminal (job_status (jobs_of s ! a)) \<and> pc_of s a \<in> {Exited, Cancelled}
         \<and> th_cpc (sy_thr s ! a) = CNone \<and> \<not> th_alive (sy_thr s ! a)"
    using assms(3) by (cases "pc_of s a") (auto simp: job_ok_def live_def isTerminal_def)
  with reachable_parts(6) [OF assms(1)] show ?thesis by (simp add: safe_effects_def)
qed

theorem done_closed_once_witness: "pc_of demo3 0 = Launched 7 \<and> \<not> sy_panic demo3 \<and> \<not> jb_done (jobs_of demo3 ! 0)"
  using done_closed_once [OF demo_reachable3, of 0] by (simp add: demo_threads)

text \<open>C10: a job is launched at most \<^verbatim>\<open>MaxAuthoringRetries + 1\<close> times, and in attempt \<open>n\<close> it has been
  launched exactly \<open>n + 1\<close> times.\<close>

theorem bounded_launches:
  assumes "reachable s" and "valid s a"
  shows "th_launches (sy_thr s ! a) \<le> MaxAuthoringRetries + 1
    \<and> (\<forall>n. pc_of s a = Waiting n \<longrightarrow> th_launches (sy_thr s ! a) = n + 1)"
  using reachable_job [OF assms] by (cases "pc_of s a") (auto simp: job_ok_def)

theorem bounded_launches_witness:
  "pc_of demo5 0 = Waiting 0 \<and> th_launches (sy_thr demo5 ! 0) = 1"
  using bounded_launches [OF demo_reachable5, of 0] by (simp add: demo_threads)

subsection \<open>Termination and progress of a job\<close>

definition rounds_left :: "nat \<Rightarrow> nat" where
  "rounds_left n = 8 * (MaxAuthoringRetries - n)"

text \<open>An upper bound on the control transfers a job has before it.\<close>

fun rank :: "pc \<Rightarrow> nat" where
  "rank InQueue = rounds_left 0 + 14" | "rank Promoted = rounds_left 0 + 13" | "rank Starting = rounds_left 0 + 12"
| "rank (Launched _) = rounds_left 0 + 11" | "rank (Attempt n) = rounds_left n + 10" | "rank (Waiting n) = rounds_left n + 9"
| "rank (WaitFailed n _) = rounds_left n + 8" | "rank (Deciding n _) = rounds_left n + 7"
| "rank (Resetting n) = rounds_left n + 6" | "rank (Relaunching n) = rounds_left n + 5"
| "rank (Relaunched n _) = rounds_left n + 4" | "rank (Finishing _ _ _) = 2" | "rank (Finished _) = 1"
| "rank Exited = 0" | "rank Cancelled = 0" | "rank Dropped = 0" | "rank Abandoned = 0"

lemma rounds_left_Suc: "n < MaxAuthoringRetries \<Longrightarrow> rounds_left n = rounds_left (Suc n) + 8"
  by (simp add: rounds_left_def)

lemma nth_update_field: "f x = f (xs ! b) \<Longrightarrow> f (xs[b := x] ! a) = f (xs ! a)"
  by (cases "a = b"; cases "b < length xs") (simp_all add: list_update_beyond)

lemma correlate_pcs [simp]:
  "pc_of (correlate_exit b s) a = pc_of s a" "pc_of (correlate_next b sid res s) a = pc_of s a"
  "length (sy_thr (correlate_exit b s)) = length (sy_thr s)" "length (sy_thr (correlate_next b sid res s)) = length (sy_thr s)"
  by (simp_all add: correlate_exit_def correlate_next_def nth_update_field [of th_pc])

lemma thr_do_cancel_after [simp]: "sy_thr (do_cancel_after act s) = sy_thr s"
  by (simp add: do_cancel_after_def split: CancelAfter.split)

lemma pc_goto: "valid s b \<Longrightarrow> pc_of (goto b p s) a = (if a = b then p else pc_of s a)"
  by (simp add: nth_list_update_if)

text \<open>The control point a cancelled job moves to.\<close>

lemma cancelled_pc_thr:
  assumes "sys_inv s" and "valid s a"
  shows "pc_of (cancelled_pc jid s) a = pc_of s a \<or> pc_of s a = InQueue \<and> pc_of (cancelled_pc jid s) a = Cancelled"
proof -
  have mp: "map_ok s" and loc: "locals_ok s" using assms(1) by (simp_all add: sys_inv_def)
  show ?thesis
  proof (cases "map_of (rg_jobs (sy_reg s)) jid")
    case (Some b)
    note b = map_okD [OF mp Some]
    show ?thesis
      using Some queued_pc [OF locals_okD [OF loc b(1)] _ b(2)] assms(2)
      by (cases "a = b") (auto simp: cancelled_pc_def)
  qed (simp add: cancelled_pc_def)
qed

lemma cancelled_pc_length [simp]: "length (sy_thr (cancelled_pc jid s)) = length (sy_thr s)"
  by (simp add: cancelled_pc_def split: option.split)

lemma finish_locked_next:
  "fst (finish_locked st code msg now ok a r) = Some b \<Longrightarrow> b \<in> set (rg_queue r)"
  by (auto simp: finish_locked_def promoteUnlocked_def dequeueUnlocked_def Let_def split: if_splits list.splits)

lemma step_rank:
  assumes "step s t" and "sys_inv s" and "valid s a"
  shows "valid t a \<and> (pc_of t a = pc_of s a \<or> rank (pc_of t a) < rank (pc_of s a))"
  using assms
proof (induction rule: step.induct)
  case (relaunch_go s b n pid ok now)
  then have "n < MaxAuthoringRetries"
    using locals_okD [of s b] by (simp add: sys_inv_def job_ok_def)
  with relaunch_go show ?case
    by (cases "a = b") (simp_all add: rounds_left_Suc)
next
  case (finish_cs s b st code msg now ok nx r)
  have "valid s c \<and> pc_of s c = InQueue \<and> c \<noteq> b" if "nx = Some c" for c
  proof -
    have "c \<in> set (rg_queue (sy_reg s))"
      using finish_locked_next [of st code msg now ok b "sy_reg s" c] finish_cs(4) that by simp
    moreover have "queue_ok s" using finish_cs(5) by (simp add: sys_inv_def)
    ultimately have "valid s c" "pc_of s c = InQueue" by (simp_all add: queue_ok_def)
    then show ?thesis using finish_cs(2) by auto
  qed
  with finish_cs show ?case
    by (cases nx) (auto simp: nth_list_update)
next
  case (finish_end s b nx snap ok pruned dbl r)
  have "valid s c \<and> pc_of s c = Promoted \<and> c \<noteq> b" if "nx = Some c" for c
  proof -
    have ho: "handover_ok s" using finish_end(4) by (simp add: sys_inv_def)
    have pcb: "pc_of s b = Finished (Some c)" using finish_end(2) that by simp
    have "pc_of s c = Promoted" by (rule handoverD(2) [OF ho finish_end(1) pcb])
    moreover from this pcb have "c \<noteq> b" by (metis pc.distinct)
    ultimately show ?thesis using handoverD(1) [OF ho finish_end(1) pcb] by blast
  qed
  with finish_end show ?case
    by (cases nx) (auto simp: nth_list_update)
next
  case (cancel jid now ok s res act dbl r)
  then show ?case using cancelled_pc_thr [of s a jid] by auto
qed (auto simp: nth_append nth_list_update_if)

text \<open>C4: every job terminates. Whatever the system does, a step either leaves a job's control point
  alone or moves it strictly closer to its end, so a job makes at most 30 control transfers:
  the attempts are bounded and no loop of \<^verbatim>\<open>runAttempts\<close> runs forever.\<close>

theorem job_terminates:
  assumes "reachable s" and "valid s a" and "step s t"
  shows "(pc_of t a = pc_of s a \<or> rank (pc_of t a) < rank (pc_of s a)) \<and> rank (pc_of s a) \<le> 30"
proof -
  have "rank p \<le> 30" for p
    by (cases p) (simp_all add: rounds_left_def MaxAuthoringRetries_def)
  with step_rank [OF assms(3) reachable_inv [OF assms(1)] assms(2)] show ?thesis by blast
qed

theorem job_terminates_witness:
  "step demo7 demo8 \<and> (pc_of demo8 0 = pc_of demo7 0 \<or> rank (pc_of demo8 0) < rank (pc_of demo7 0))"
  using job_terminates [OF demo_reachable7 _ demo_step8, of 0] demo_step8 by (simp add: demo_threads)

text \<open>A job's control point at which only its own goroutines, or the one that promoted it, move it on.\<close>

definition unfinished :: "pc \<Rightarrow> bool" where
  "unfinished p \<longleftrightarrow> p \<notin> {InQueue, Cancelled, Dropped, Exited, Abandoned}"

lemma blocked_correlator:
  assumes "reachable s" and "valid s a" and "\<not> fin_ready s a" and "attempt_cancelled s a"
  shows "step s (correlate_exit a s)" and "fin_ready (correlate_exit a s) a"
proof -
  have "th_cpc (sy_thr s ! a) \<noteq> CNone"
    using reachable_job [OF assms(1,2)] assms(3) by (simp add: job_ok_def fin_ready_def)
  then show "step s (correlate_exit a s)" using step.correlate_stop assms(2,4) by blast
  show "fin_ready (correlate_exit a s) a"
    using reachable_length [OF assms(1)] assms(2) by (simp add: fin_ready_def correlate_exit_def)
qed

lemma finish_post_total: "\<exists>p d r'. finish_post snap ok a r = (p, d, r')"
  by (simp add: finish_post_def Let_def)

lemma starting_moves:
  assumes "valid s a" and "pc_of s a = Launched pid"
  shows "\<exists>t. step s t \<and> rank (pc_of t a) < rank (pc_of s a)"
proof (cases "start_commit pid 0 True a (sy_reg s)")
  case (Pair go r)
  show ?thesis
  proof (cases go)
    case True
    with Pair have "start_commit pid 0 True a (sy_reg s) = (True, r)" by simp
    from step.start_go [OF assms this] assms show ?thesis by (intro exI) (erule conjI, simp)
  next
    case False
    with Pair have "start_commit pid 0 True a (sy_reg s) = (False, r)" by simp
    from step.start_closed [OF assms this] assms show ?thesis by (intro exI) (erule conjI, simp)
  qed
qed

lemma attempt_moves:
  assumes "valid s a" and "case pc_of s a of Starting \<Rightarrow> True | Attempt n \<Rightarrow> True | Waiting n \<Rightarrow> True
     | WaitFailed n m \<Rightarrow> True | Deciding n m \<Rightarrow> True | Relaunching n \<Rightarrow> True | _ \<Rightarrow> False"
  shows "\<exists>t. step s t \<and> rank (pc_of t a) < rank (pc_of s a)"
proof -
  consider "pc_of s a = Starting" | n where "pc_of s a = Attempt n" | n where "pc_of s a = Waiting n"
    | n m where "pc_of s a = WaitFailed n m" | n m where "pc_of s a = Deciding n m" | n where "pc_of s a = Relaunching n"
    using assms(2) by (cases "pc_of s a") auto
  then show ?thesis
  proof cases
    case 1
    from step.launch_ok [OF assms(1) 1, of 0] assms(1) 1 show ?thesis by (intro exI) (erule conjI, simp)
  next
    case 2
    from step.attempt [OF assms(1) 2, of True 0] assms(1) 2 show ?thesis by (intro exI) (erule conjI, simp)
  next
    case 3
    from step.wait_err [OF assms(1) 3, of "[]"] assms(1) 3 show ?thesis by (intro exI) (erule conjI, simp)
  next
    case 4
    show ?thesis
    proof (cases "job_status (jobs_of s ! a) = JobAborted")
      case True
      from step.seen_aborted [OF assms(1) 4 True] assms(1) 4 show ?thesis by (intro exI) (erule conjI, simp)
    next
      case False
      from step.not_aborted [OF assms(1) 4 False] assms(1) 4 show ?thesis by (intro exI) (erule conjI, simp)
    qed
  next
    case 5
    from step.give_up [OF assms(1) 5, of True] assms(1) 5 show ?thesis
      by (intro exI) (erule conjI [OF meta_mp], simp_all add: retry_allowed_def)
  next
    case 6
    from step.relaunch_err [OF assms(1) 6, of "[]"] assms(1) 6 show ?thesis by (intro exI) (erule conjI, simp)
  qed
qed

lemma finish_moves:
  assumes inv: "sys_inv s" and va: "valid s a"
  shows "pc_of s a = Finishing st code msg \<Longrightarrow> fin_ready s a \<Longrightarrow> \<exists>t. step s t \<and> rank (pc_of t a) < rank (pc_of s a)"
    and "pc_of s a = Finished nx \<Longrightarrow>
      \<exists>t. step s t \<and> rank (pc_of t a) < rank (pc_of s a) \<and> (\<forall>b. nx = Some b \<longrightarrow> pc_of t b = Starting)"
proof -
  assume pca: "pc_of s a = Finishing st code msg" and ready: "fin_ready s a"
  obtain nx r where fin: "finish_locked st code msg 0 True a (sy_reg s) = (nx, r)" by fastforce
  let ?t = "(case nx of None \<Rightarrow> (\<lambda>s. s) | Some b \<Rightarrow> goto b Promoted) (goto a (Finished nx) (upd_flush True (\<lambda>_. r) s))"
  have st: "step s ?t" by (rule step.finish_cs [OF va pca ready fin])
  have "pc_of ?t a \<in> {Promoted, Finished nx}"
    using va by (cases nx) (auto simp: nth_list_update)
  then have "pc_of ?t a \<noteq> pc_of s a" using pca by auto
  with step_rank [OF st inv va] st show "\<exists>t. step s t \<and> rank (pc_of t a) < rank (pc_of s a)" by blast
next
  assume pca: "pc_of s a = Finished nx"
  obtain p d r where fin: "finish_post None True a (sy_reg s) = (p, d, r)" using finish_post_total by blast
  note st = step.finish_end [OF va pca fin]
  have vb: "valid s b" if "nx = Some b" for b
    using handoverD(1) [of s a b] inv va pca that by (simp add: sys_inv_def)
  let ?t = "(case nx of None \<Rightarrow> (\<lambda>s. s) | Some b \<Rightarrow> goto b Starting) (goto a Exited
     (s\<lparr>sy_reg := r, sy_panic := (sy_panic s \<or> d), sy_pruned := sy_pruned s @ (if p then [(a, th_alive (sy_thr s ! a))] else [])\<rparr>))"
  have "pc_of ?t a \<in> {Starting, Exited}"
    using va by (cases nx) (auto simp: nth_list_update)
  then have "pc_of ?t a \<noteq> pc_of s a" using pca by auto
  with step_rank [OF st inv va] have "rank (pc_of ?t a) < rank (pc_of s a)" by blast
  moreover have "pc_of ?t b = Starting" if "nx = Some b" for b
    using vb [OF that] that by simp
  ultimately show "\<exists>t. step s t \<and> rank (pc_of t a) < rank (pc_of s a) \<and> (\<forall>b. nx = Some b \<longrightarrow> pc_of t b = Starting)"
    using st by blast
qed

lemma correlator_then_moves:
  assumes "reachable s" and "valid s a" and "\<not> fin_ready s a" and "attempt_cancelled s a"
    and go: "\<And>t. sys_inv t \<Longrightarrow> valid t a \<Longrightarrow> pc_of t a = pc_of s a \<Longrightarrow> fin_ready t a \<Longrightarrow>
        \<exists>u. step t u \<and> rank (pc_of u a) < rank (pc_of t a)"
  shows "step s (correlate_exit a s) \<and> (\<exists>u. step (correlate_exit a s) u \<and> rank (pc_of u a) < rank (pc_of s a))"
proof -
  have inv: "sys_inv s" using reachable_inv [OF assms(1)] .
  note t = blocked_correlator [OF assms(1-4)]
  with go [OF step_inv [OF t(1) inv]] step_rank [OF t(1) inv assms(2)] show ?thesis by auto
qed

lemma resetting_moves:
  assumes "valid t a" and "pc_of t a = Resetting n" and "fin_ready t a"
  shows "\<exists>u. step t u \<and> rank (pc_of u a) < rank (pc_of t a)"
  using step.reset [OF assms, of True 0] assms(1,2) by (intro exI) (erule conjI, simp)

text \<open>No job gets stuck. A job that has been admitted and has not ended can always move closer to
  its end in one step of its own goroutines or of the one handing it its slot, or its goroutine
  waits for the correlator, which can return at once and lets it move: \<^verbatim>\<open>finish\<close> blocking on
  \<^verbatim>\<open>correlated\<close> is not a deadlock.\<close>

theorem job_never_stuck:
  assumes "reachable s" and "valid s a" and "unfinished (pc_of s a)"
  shows "(\<exists>t. step s t \<and> rank (pc_of t a) < rank (pc_of s a))
    \<or> step s (correlate_exit a s) \<and> (\<exists>u. step (correlate_exit a s) u \<and> rank (pc_of u a) < rank (pc_of s a))"
proof -
  have inv: "sys_inv s" using reachable_inv [OF assms(1)] .
  have ok: "job_ok (jobs_of s ! a) (sy_thr s ! a)" using reachable_job [OF assms(1,2)] .
  note wait = correlator_then_moves [OF assms(1,2)]
  consider "case pc_of s a of Starting \<Rightarrow> True | Attempt n \<Rightarrow> True | Waiting n \<Rightarrow> True
     | WaitFailed n m \<Rightarrow> True | Deciding n m \<Rightarrow> True | Relaunching n \<Rightarrow> True | _ \<Rightarrow> False"
    | (launched) pid where "pc_of s a = Launched pid" | (relaunched) n pid where "pc_of s a = Relaunched n pid"
    | (resetting) n where "pc_of s a = Resetting n" | (finishing) st c m where "pc_of s a = Finishing st c m"
    | (finished) nx where "pc_of s a = Finished nx" | (promoted) "pc_of s a = Promoted"
    using assms(3) by (cases "pc_of s a") (auto simp: unfinished_def)
  then show ?thesis
  proof cases
    case 1
    then show ?thesis using attempt_moves [OF assms(2)] by blast
  next
    case launched
    then show ?thesis using starting_moves [OF assms(2)] by blast
  next
    case relaunched
    have "pc_of (goto a (Attempt (Suc n)) (upd_flush True (retry_commit pid 0 True a) s)) a = Attempt (Suc n)"
      using assms(2) by simp
    with step.relaunch_go [OF assms(2) relaunched, of True 0] step_rank [OF _ inv assms(2)] relaunched
    show ?thesis by (metis pc.distinct)
  next
    case resetting
    then have "attempt_cancelled s a" using ok by (simp add: job_ok_def attempt_cancelled_def)
    with resetting resetting_moves wait assms(2) show ?thesis by metis
  next
    case finishing
    then have "attempt_cancelled s a" using ok by (simp add: job_ok_def attempt_cancelled_def)
    with finishing finish_moves(1) [OF inv assms(2) finishing] wait finish_moves(1) show ?thesis by metis
  next
    case finished
    with finish_moves(2) [OF inv assms(2) finished] show ?thesis by blast
  next
    case promoted
    then obtain b where b: "valid s b" "pc_of s b = Finished (Some a)"
      using handoverD(4) [OF reachable_parts(4) [OF assms(1)] assms(2)] by blast
    obtain t where "step s t" "pc_of t a = Starting" using finish_moves(2) [OF inv b] by blast
    then show ?thesis using promoted by (intro disjI1 exI [of _ t]) simp
  qed
qed

subsection \<open>Final records\<close>

definition over :: "pc \<Rightarrow> bool" where
  "over p \<longleftrightarrow> p = Exited \<or> p = Cancelled \<or> (\<exists>nx. p = Finished nx)"

lemma over_simps [simp]:
  "\<not> over Starting" "\<not> over (Launched x)" "\<not> over (Attempt n)" "\<not> over (Waiting n)" "\<not> over (WaitFailed n m)"
  "\<not> over (Deciding n m)" "\<not> over (Resetting n)" "\<not> over (Relaunching n)" "\<not> over (Relaunched n x)"
  "\<not> over (Finishing st c m)" "\<not> over InQueue" "\<not> over Promoted" "\<not> over Abandoned" "\<not> over Dropped" "over (Finished nx)" "over Exited" "over Cancelled"
  by (simp_all add: over_def)

lemma Submit_mem: "Submit spec uuid now ok r = (res, r') \<Longrightarrow> \<exists>j. rg_mem r' = rg_mem r @ [j]"
  by (auto simp: submit_defs case_prod_beta split: if_splits)

lemma finish_locked_mem:
  assumes "finish_locked st code msg now ok b r = (nx, r')" and "a \<notin> set (rg_queue r)" and "a < length (rg_mem r)"
  shows "rg_mem r' ! a = (if a = b then set_terminal st code msg now (rg_mem r ! b) else rg_mem r ! a)"
  using assms
  by (auto simp: finish_locked_def promoteUnlocked_def dequeueUnlocked_def startingUnlocked_def Let_def
      split: if_splits list.splits option.splits)

lemma Cancel_mem:
  assumes "Cancel jid now ok r = (res, act, dbl, r')" and "isTerminal (job_status (rg_mem r ! a))"
  shows "rg_mem r' ! a = rg_mem r ! a"
proof (cases "map_of (rg_jobs r) jid")
  case None
  then show ?thesis using assms(1) by (simp add: Cancel_def)
next
  case (Some b)
  show ?thesis
  proof (cases "a = b")
    case True
    then show ?thesis using assms Some by (simp add: Cancel_def Let_def)
  next
    case False
    then show ?thesis
      using assms(1) Some by (auto simp: Cancel_def Let_def removeFromQueueUnlocked_def split: if_splits)
  qed
qed

lemma over_idle: "job_ok j t \<Longrightarrow> over (th_pc t) \<Longrightarrow> th_cpc t = CNone \<and> isTerminal (job_status j)"
  by (cases "th_pc t") (auto simp: job_ok_def isTerminal_def)

lemma queue_okD: "queue_ok s \<Longrightarrow> a \<in> set (rg_queue (sy_reg s)) \<Longrightarrow> valid s a \<and> pc_of s a = InQueue"
  unfolding queue_ok_def by blast

text \<open>Only the steps of a job's own goroutines and its cancellation write to its object.\<close>

lemma step_record:
  assumes "step s t" and inv: "sys_inv s" and va: "valid s a" and "isTerminal (job_status (jobs_of s ! a))" and "pc_of s a \<noteq> Dropped"
  shows "job_status (jobs_of t ! a) = job_status (jobs_of s ! a)
    \<and> (over (pc_of s a) \<longrightarrow> jb_Record (jobs_of t ! a) = jb_Record (jobs_of s ! a))"
proof -
  have loc: "locals_ok s" and qu: "queue_ok s" using inv by (simp_all add: sys_inv_def)
  have len: "length (jobs_of s) = length (sy_thr s)" using loc by (rule locals_ok_length)
  have ok: "job_ok (jobs_of s ! a) (sy_thr s ! a)" using loc va by (rule locals_okD)
  have idle: "over (pc_of s a) \<Longrightarrow> th_cpc (sy_thr s ! a) = CNone" using over_idle [OF ok] by blast
  have "pc_of s a \<noteq> InQueue" using ok assms(4) by (auto simp: job_ok_def isTerminal_def)
  then have nq: "a \<notin> set (rg_queue (sy_reg s))" using queue_okD [OF qu] by blast
  show ?thesis
    using assms(1,4) va len idle nq
  proof (induction rule: step.induct)
    case (submit_ok spec uuid now ok s b admitted r)
    then show ?case using Submit_mem by (fastforce simp: nth_append)
  next
    case (submit_fail spec uuid now ok s e r)
    then show ?case using Submit_mem by (fastforce simp: nth_append)
  next
    case (finish_cs s b st code msg now ok nx r)
    then show ?case using finish_locked_mem [OF finish_cs(4), of a] by (auto split: option.split)
  next
    case (finish_end s b nx snap ok pruned dbl r)
    then show ?case using finish_post_eq [OF finish_end(3)] by (auto simp: nth_list_update split: option.split)
  next
    case (cancel jid now ok s res act dbl r)
    then have "rg_mem r ! a = jobs_of s ! a" using Cancel_mem by blast
    then show ?case by (auto simp: do_cancel_after_def cancelled_pc_def split: CancelAfter.split option.split)
  next
    case (cancel_call b s)
    then show ?case by (simp add: nth_update_field [of jb_Record])
  qed (auto simp: nth_list_update attempt_begin_def retry_reset_def retry_commit_def start_commit_def Close_def Let_def
      correlate_exit_def correlate_next_def correlate_session_def correlate_poll_def tryResolveRunUnlocked_def
      split: if_splits option.splits)
qed

text \<open>The queued job of the run is cancelled.\<close>

definition demo_cancelled :: Sys where
  "demo_cancelled = do_cancel_after (PruneWorktree 1)
     ((cancelled_pc ''j2'' demo2)\<lparr>sy_reg := snd (snd (snd (Cancel ''j2'' 6 True (sy_reg demo2)))),
        sy_panic := (sy_panic demo2 \<or> False), sy_dirty := cancel_dirty ''j2'' True demo2\<rparr>)"

lemma demo_cancel_eq:
  "fst (snd (Cancel ''j2'' 6 True (sy_reg demo2))) = PruneWorktree 1"
  "fst (snd (snd (Cancel ''j2'' 6 True (sy_reg demo2)))) = False"
  by (simp_all add: Cancel_def demo2_def demo1_def demo_regs isTerminal_def)

lemma demo_step_cancelled: "step demo2 demo_cancelled"
proof -
  have "Cancel ''j2'' 6 True (sy_reg demo2) = (fst (Cancel ''j2'' 6 True (sy_reg demo2)), PruneWorktree 1, False,
      snd (snd (snd (Cancel ''j2'' 6 True (sy_reg demo2)))))"
    using demo_cancel_eq by (metis prod.collapse)
  from step.cancel [OF this] show ?thesis by (simp add: demo_cancelled_def)
qed

lemma demo_reachable_cancelled: "reachable demo_cancelled"
  using demo_reachable2 demo_step_cancelled by (rule reachable.more)

lemma demo_cancelled_facts:
  "length (sy_thr demo_cancelled) = 2" "pc_of demo_cancelled 1 = Cancelled" "pc_of demo_cancelled 0 = Starting"
  "job_status (jobs_of demo_cancelled ! 1) = JobAborted" "sy_pruned demo_cancelled = [(1, False)]"
  by (simp_all add: demo_cancelled_def do_cancel_after_def cancelled_pc_def Cancel_def demo2_def demo1_def demo_regs
      isTerminal_def abort_mark_def removeFromQueueUnlocked_def)

lemma demo_cancelled_next: "\<exists>t. step demo_cancelled t"
  using step.launch_ok [of 0 demo_cancelled 7] demo_cancelled_facts by auto

text \<open>C2: terminal is final. Once a registered job's status is completed, failed or aborted, no step
  changes it: a clean exit does not overwrite an abort and a second cancel changes nothing. When
  \<^verbatim>\<open>finish\<close> has run (or the job was cancelled in the queue) the whole persisted record is frozen:
  the correlator can no longer write to it.\<close>

theorem terminal_is_final:
  assumes "reachable s" and "valid s a" and "pc_of s a \<noteq> Dropped" and "isTerminal (job_status (jobs_of s ! a))" and "step s t"
  shows "job_status (jobs_of t ! a) = job_status (jobs_of s ! a)
    \<and> (over (pc_of s a) \<longrightarrow> jb_Record (jobs_of t ! a) = jb_Record (jobs_of s ! a))"
  using step_record [OF assms(5) reachable_inv [OF assms(1)] assms(2,4,3)] .

theorem terminal_is_final_witness:
  "\<exists>t. step demo_cancelled t \<and> jb_Record (jobs_of t ! 1) = jb_Record (jobs_of demo_cancelled ! 1)"
proof -
  obtain t where "step demo_cancelled t" using demo_cancelled_next by blast
  with terminal_is_final [OF demo_reachable_cancelled _ _ _ this, of 1] show ?thesis
    using \<open>step demo_cancelled t\<close> demo_cancelled_facts by (auto simp: isTerminal_def)
qed

subsection \<open>Pruning happens once\<close>

definition pruned_ok :: "Sys \<Rightarrow> bool" where
  "pruned_ok s \<longleftrightarrow> distinct (map fst (sy_pruned s))
     \<and> (\<forall>a \<in> fst ` set (sy_pruned s). valid s a \<and> (pc_of s a = Exited \<or> pc_of s a = Cancelled))"

lemma rank0_stays:
  assumes "step s t" and "sys_inv s" and "valid s a" and "pc_of s a = Exited \<or> pc_of s a = Cancelled"
  shows "valid t a \<and> (pc_of t a = Exited \<or> pc_of t a = Cancelled)"
  using step_rank [OF assms(1-3)] assms(4) by auto

lemma pruned_keep: "pruned_ok s \<Longrightarrow> step s t \<Longrightarrow> sys_inv s \<Longrightarrow> sy_pruned t = sy_pruned s \<Longrightarrow> pruned_ok t"
  using rank0_stays unfolding pruned_ok_def by metis

lemma pruned_add:
  assumes "pruned_ok s" and "step s t" and "sys_inv s" and "sy_pruned t = sy_pruned s @ [(a, al)]" and "valid s a"
    and "pc_of s a \<noteq> Exited" and "pc_of s a \<noteq> Cancelled" and "pc_of t a = Exited \<or> pc_of t a = Cancelled"
  shows "pruned_ok t"
proof -
  have "a \<notin> fst ` set (sy_pruned s)" using assms(1,6,7) by (auto simp: pruned_ok_def)
  moreover have "valid t a" using step_rank [OF assms(2,3,5)] by blast
  ultimately show ?thesis
    using assms(1,4,8) rank0_stays [OF assms(2,3)] by (auto simp: pruned_ok_def)
qed

lemma inv_pruned:
  assumes "step s t" and "sys_inv s" and "pruned_ok s"
  shows "pruned_ok t"
  using assms(1)
proof (cases rule: step.cases)
  case (finish_end a nx snap ok pruned dbl r)
  show ?thesis
  proof (cases pruned)
    case True
    have "nx \<noteq> Some a"
      using handoverD(2) [of s a a] assms(2) finish_end(2,3) by (auto simp: sys_inv_def)
    then have "pc_of t a = Exited"
      using finish_end(1,2) by (cases nx) auto
    moreover have "sy_pruned t = sy_pruned s @ [(a, th_alive (sy_thr s ! a))]"
      using finish_end(1) True by (cases nx) simp_all
    ultimately show ?thesis using pruned_add [OF assms(3,1,2)] finish_end(2,3) by simp
  next
    case False
    then have "sy_pruned t = sy_pruned s" using finish_end(1) by (cases nx) simp_all
    then show ?thesis by (rule pruned_keep [OF assms(3,1,2)])
  qed
next
  case (cancel jid now ok res act dbl r)
  have keep: "sy_pruned t = sy_pruned s" if "\<forall>a. act \<noteq> PruneWorktree a"
    using cancel(1) that by (cases act) (auto simp: do_cancel_after_def cancelled_pc_def split: option.split)
  show ?thesis
  proof (cases act)
    case (PruneWorktree a)
    have "jb_cancel (jobs_of s ! b)" if "map_of (rg_jobs (sy_reg s)) jid = Some b" "job_status (jobs_of s ! b) = JobRunning" for b
      using running_holds that assms(2) locals_okD [of s b] map_okD [of s jid b] by (cases "pc_of s b") (auto simp: sys_inv_def job_ok_def live_def isTerminal_def)
    then have a: "map_of (rg_jobs (sy_reg s)) jid = Some a" "job_status (jobs_of s ! a) = JobQueued"
      using cancel(2) PruneWorktree by (auto simp: Cancel_def Let_def split: option.splits if_splits)
    have mp: "map_ok s" and loc: "locals_ok s" using assms(2) by (simp_all add: sys_inv_def)
    have pcs: "pc_of s a = InQueue" "valid s a"
      using queued_pc [OF locals_okD [OF loc] a(2)] map_okD [OF mp a(1)] by simp_all
    moreover have "pc_of t a = Cancelled"
      using cancel(1) a pcs(2) by (simp add: cancelled_pc_def)
    moreover have "\<exists>al. sy_pruned t = sy_pruned s @ [(a, al)]"
      using cancel(1) PruneWorktree a by (simp add: do_cancel_after_def cancelled_pc_def)
    ultimately show ?thesis using pruned_add [OF assms(3,1,2)] by auto
  qed (simp_all add: pruned_keep [OF assms(3,1,2) keep])
next
  case (session_event a sid found now ok resolved r)
  then show ?thesis by (intro pruned_keep [OF assms(3,1,2)]) (simp add: correlate_next_def correlate_exit_def)
next
  case (poll a sid found now ok resolved r)
  then show ?thesis by (intro pruned_keep [OF assms(3,1,2)]) (simp add: correlate_next_def correlate_exit_def)
next
  case (finish_cs a st code msg now ok nx r)
  then show ?thesis by (intro pruned_keep [OF assms(3,1,2)]) (simp split: option.split)
qed (rule pruned_keep [OF assms(3,1,2)], simp add: correlate_exit_def)+

lemma reachable_pruned: "reachable s \<Longrightarrow> pruned_ok s"
proof (rule ts.invariant_underI [where J = sys_inv])
  show "pruned_ok s" if "\<exists>cap pid started store. wf_table store \<and> s = init_sys cap pid started store" for s
    using that by (auto simp: pruned_ok_def init_sys_def)
qed (use reachable_inv inv_pruned in blast)+

text \<open>C7: a worktree is pruned at most once, and only when no process can be writing to it. Every
  prune the registry performs, on cancelling a queued job or after an aborted job finished, happens
  in a state in which that job has no live process, and afterwards the job's control flow is over.\<close>

theorem prune_once_after_exit:
  assumes "reachable s"
  shows "distinct (map fst (sy_pruned s))
    \<and> (\<forall>(a, alive) \<in> set (sy_pruned s). \<not> alive \<and> (pc_of s a = Exited \<or> pc_of s a = Cancelled))"
  using reachable_parts(6) [OF assms] reachable_pruned [OF assms] by (fastforce simp: safe_effects_def pruned_ok_def)

theorem prune_once_after_exit_witness:
  "sy_pruned demo_cancelled = [(1, False)] \<and> pc_of demo_cancelled 1 \<in> {Exited, Cancelled}"
  using prune_once_after_exit [OF demo_reachable_cancelled] demo_cancelled_facts by simp

end
