(* ===== verification/Registry_Durable.thy ===== *)
theory Registry_Durable
  imports Registry_Props
begin

text \<open>
  The registry as a cache of the shared table: after every transition the rows of the registered
  jobs are this server's, and unless the last write failed they equal the jobs' records. Beside it
  the functional contracts of the entry points: the queue discipline, the roll-back of a failed
  \<^verbatim>\<open>Submit\<close> and every branch of \<^verbatim>\<open>Cancel\<close>.
\<close>

subsection \<open>What a flush achieves\<close>

definition ids_ok :: "Registry \<Rightarrow> bool" where
  "ids_ok r \<longleftrightarrow> distinct (map fst (rg_jobs r)) \<and> (\<forall>(jid, a) \<in> set (rg_jobs r). jr_JobID (jb_Record (rg_mem r ! a)) = jid)"

definition writable :: "Registry \<Rightarrow> bool" where
  "writable r \<longleftrightarrow> wf_table (rg_store r) \<and>
     (\<forall>(jid, a) \<in> set (rg_jobs r). \<forall>row. tbl_get (rg_store r) jid = Some row \<longrightarrow>
        row_ownerPid row = rg_ownerPid r \<or> row_ownerPid row = 0)"

text \<open>Every registered job has a row this server owns; and the row holds the job's record.\<close>

definition rows_ok :: "Registry \<Rightarrow> bool" where
  "rows_ok r \<longleftrightarrow> wf_table (rg_store r) \<and>
     (\<forall>(jid, a) \<in> set (rg_jobs r). \<exists>row. tbl_get (rg_store r) jid = Some row \<and> row_ownerPid row = rg_ownerPid r)"

definition synced :: "Registry \<Rightarrow> bool" where
  "synced r \<longleftrightarrow> (\<forall>(jid, a) \<in> set (rg_jobs r). \<exists>row. tbl_get (rg_store r) jid = Some row
      \<and> row_rec row = (jb_Record (rg_mem r ! a))\<lparr>jr_RunSnapshot := []\<rparr>)"

lemma ids_ok_records: "ids_ok r \<Longrightarrow> map jr_JobID (recordsUnlocked r) = map fst (rg_jobs r)"
  by (auto simp: ids_ok_def recordsUnlocked_def)

lemma rows_writable: "rows_ok r \<Longrightarrow> writable r"
  by (fastforce simp: rows_ok_def writable_def)

lemma flushed_store: "rg_store (flushed ok now r) =
   snd (UpsertJobs ok (recordsUnlocked r) (rg_ownerPid r) (rg_ownerStartedAt r) now (rg_store r))"
  by (simp add: flushUnlocked_def Let_def)

lemma flush_syncs:
  assumes "ids_ok r" and "writable r"
  shows "rows_ok (flushed True now r) \<and> synced (flushed True now r)"
proof -
  let ?t = "rg_store (flushed True now r)"
  have wf: "wf_table (rg_store r)" using assms(2) by (simp add: writable_def)
  have dist: "distinct (map jr_JobID (recordsUnlocked r))"
    using assms(1) by (simp add: ids_ok_records) (simp add: ids_ok_def)
  have own: "row_ownerPid row = rg_ownerPid r \<or> row_ownerPid row = 0"
    if "tbl_get (rg_store r) jid = Some row" "jid \<in> jr_JobID ` set (recordsUnlocked r)" for jid row
  proof -
    have "jid \<in> set (map fst (rg_jobs r))"
      using that(2) ids_ok_records [OF assms(1)] by (metis list.set_map)
    with that(1) assms(2) show ?thesis by (auto simp: writable_def)
  qed
  have written: "\<forall>rc \<in> set (recordsUnlocked r). \<exists>row. tbl_get (snd (UpsertJobs True (recordsUnlocked r) (rg_ownerPid r)
        (rg_ownerStartedAt r) now (rg_store r))) (jr_JobID rc) = Some row
      \<and> row_rec row = rc\<lparr>jr_RunSnapshot := []\<rparr> \<and> row_ownerPid row = rg_ownerPid r"
    using UpsertJobs_exact [OF wf dist, of "recordsUnlocked r" "rg_ownerPid r"] own by blast
  have row: "\<exists>row. tbl_get ?t jid = Some row \<and> row_rec row = (jb_Record (rg_mem r ! a))\<lparr>jr_RunSnapshot := []\<rparr>
      \<and> row_ownerPid row = rg_ownerPid r" if "(jid, a) \<in> set (rg_jobs r)" for jid a
  proof -
    have "jb_Record (rg_mem r ! a) \<in> set (recordsUnlocked r)"
      using that by (force simp: recordsUnlocked_def)
    moreover have "jr_JobID (jb_Record (rg_mem r ! a)) = jid" using assms(1) that by (auto simp: ids_ok_def)
    ultimately show ?thesis
      using written by (auto simp: flushed_store)
  qed
  have "wf_table ?t" using wf by (simp add: flushed_store wf_UpsertJobs)
  with row show ?thesis by (fastforce simp: rows_ok_def synced_def)
qed

lemma flush_rows:
  assumes "ids_ok r" and "rows_ok r"
  shows "rows_ok (flushed ok now r) \<and> (ok \<longrightarrow> synced (flushed ok now r))"
proof (cases ok)
  case True
  with flush_syncs [OF assms(1) rows_writable [OF assms(2)]] show ?thesis by simp
next
  case False
  with assms(2) show ?thesis by (simp add: rows_ok_def flushed_store UpsertJobs_def)
qed

text \<open>The part of the registry durability depends on.\<close>

lemma rows_cong:
  "rg_jobs r' = rg_jobs r \<Longrightarrow> rg_store r' = rg_store r \<Longrightarrow> rg_ownerPid r' = rg_ownerPid r \<Longrightarrow> rows_ok r' = rows_ok r"
  by (simp add: rows_ok_def)

lemma synced_cong:
  "rg_jobs r' = rg_jobs r \<Longrightarrow> rg_store r' = rg_store r \<Longrightarrow>
   (\<And>a. jb_Record (rg_mem r' ! a) = jb_Record (rg_mem r ! a)) \<Longrightarrow> synced r' = synced r"
  by (simp add: synced_def)

definition durable :: "Sys \<Rightarrow> bool" where
  "durable s \<longleftrightarrow> rows_ok (sy_reg s) \<and> (\<not> sy_dirty s \<longrightarrow> synced (sy_reg s))"

text \<open>A step is a flush of a registry with the old rows, or leaves rows and records alone.\<close>

lemma durable_flush:
  assumes "durable s" and "map_ok t" and "sy_dirty t = (\<not> ok)"
    and "rg_jobs (sy_reg t) = rg_jobs r1" and "rg_store (sy_reg t) = rg_store (flushed ok now r1)"
    and "rg_ownerPid (sy_reg t) = rg_ownerPid r1" and "\<And>a. jb_Record (jobs_of t ! a) = jb_Record (rg_mem r1 ! a)"
    and "rg_jobs r1 = rg_jobs (sy_reg s)" and "rg_store r1 = rg_store (sy_reg s)" and "rg_ownerPid r1 = rg_ownerPid (sy_reg s)"
  shows "durable t"
proof -
  have "ids_ok r1" using assms(2) by (auto simp: map_ok_def ids_ok_def assms(4,7))
  moreover have "rows_ok r1" using assms(1) rows_cong [OF assms(8-10)] by (simp add: durable_def)
  ultimately have "rows_ok (flushed ok now r1)" "ok \<longrightarrow> synced (flushed ok now r1)"
    using flush_rows by blast+
  then show ?thesis
    using rows_cong [of "sy_reg t" "flushed ok now r1"] synced_cong [of "sy_reg t" "flushed ok now r1"] assms(3-7)
    by (simp add: durable_def)
qed

lemma durable_keep:
  assumes "durable s" and "sy_dirty t = sy_dirty s"
    and "rg_jobs (sy_reg t) = rg_jobs (sy_reg s)" and "rg_store (sy_reg t) = rg_store (sy_reg s)"
    and "rg_ownerPid (sy_reg t) = rg_ownerPid (sy_reg s)"
    and "\<And>a. jb_Record (jobs_of t ! a) = jb_Record (jobs_of s ! a)"
  shows "durable t"
  using assms rows_cong [of "sy_reg t" "sy_reg s"] synced_cong [of "sy_reg t" "sy_reg s"] by (simp add: durable_def)

lemma durable_snapshot:
  assumes "rows_ok r" and "finish_post snap ok a r = (p, d, r')"
  shows "rows_ok r' \<and> (synced r \<longrightarrow> synced r')"
proof -
  let ?f = "\<lambda>snp row. if row_id row = jr_JobID (jb_Record (rg_mem r ! a)) \<and> row_ownerPid row = rg_ownerPid r
     then row\<lparr>row_runSnapshot := snp\<rparr> else row"
  have "rg_store r' = rg_store r \<or> (\<exists>snp. rg_store r' = map (?f snp) (rg_store r))"
    using assms(2) by (auto simp: finish_post_def Let_def SaveSnapshot_def split: option.splits if_splits)
  then have "\<exists>f. rg_store r' = map f (rg_store r) \<and> (\<forall>row. row_rec (f row) = row_rec row \<and> row_ownerPid (f row) = row_ownerPid row)"
  proof (elim disjE exE)
    assume "rg_store r' = rg_store r"
    then show ?thesis by (intro exI [of _ "\<lambda>x. x"]) simp
  next
    fix snp
    assume "rg_store r' = map (?f snp) (rg_store r)"
    then show ?thesis by (intro exI [of _ "?f snp"]) simp
  qed
  then obtain f where f: "rg_store r' = map f (rg_store r)" "\<And>row. row_id (f row) = row_id row"
      "\<And>row. row_rec (f row) = row_rec row" "\<And>row. row_ownerPid (f row) = row_ownerPid row"
    by auto
  note post = finish_post_eq [OF assms(2)]
  have "jb_Record (rg_mem r' ! b) = jb_Record (rg_mem r ! b)" for b
    using post by (simp add: nth_update_field [of jb_Record])
  moreover have "tbl_get (rg_store r') jid = map_option f (tbl_get (rg_store r) jid)" for jid
    using f(2) by (simp add: tbl_get_def f(1) find_map_rows)
  moreover have "wf_table (rg_store r') = wf_table (rg_store r)" using f(1,2) by (simp add: wf_map_rows)
  ultimately show ?thesis
    using assms(1) post f(3,4) by (fastforce simp: rows_ok_def synced_def)
qed

lemma durable_submit:
  assumes "durable s" and inv: "map_ok t" and sub: "Submit spec uuid now ok (sy_reg s) = (Inr (a, admitted), r)"
    and own: "\<And>row. tbl_get (rg_store (sy_reg s)) (jr_JobID (jb_Record (NewJob spec uuid now))) = Some row \<Longrightarrow>
        row_ownerPid row = rg_ownerPid (sy_reg s) \<or> row_ownerPid row = 0"
    and t: "sy_reg t = r" "sy_dirty t = (\<not> ok)"
  shows "durable t"
proof -
  let ?id = "jr_JobID (jb_Record (NewJob spec uuid now))"
  obtain r1 where ok: "ok" and r: "r = flushed ok now r1" and jobs: "rg_jobs r1 = AList.update ?id a (rg_jobs (sy_reg s))"
    and st: "rg_store r1 = rg_store (sy_reg s)" "rg_ownerPid r1 = rg_ownerPid (sy_reg s)"
    using sub by (auto simp: submit_defs case_prod_beta split: if_splits)
  have "ids_ok r1" using inv by (auto simp: map_ok_def ids_ok_def t(1) r)
  moreover have "set (rg_jobs r1) \<subseteq> insert (?id, a) (set (rg_jobs (sy_reg s)))"
    by (simp add: jobs set_update_subset)
  then have "writable r1"
    using assms(1) own unfolding durable_def rows_ok_def writable_def st by fastforce
  ultimately show ?thesis using flush_syncs t ok r by (simp add: durable_def)
qed

lemma durable_submit_fail:
  assumes "durable s" and len: "length (jobs_of s) = length (sy_thr s)" and "map_ok s"
    and sub: "Submit spec uuid now ok (sy_reg s) = (Inl e, r)"
  shows "durable (s\<lparr>sy_reg := r, sy_dirty := sy_dirty s, sy_thr := th\<rparr>)"
proof -
  have st: "rg_store r = rg_store (sy_reg s)" "rg_ownerPid r = rg_ownerPid (sy_reg s)"
    "set (rg_jobs r) \<subseteq> set (rg_jobs (sy_reg s))"
    using sub
    by (auto dest!: subsetD [OF set_delete_subset] simp: submit_defs case_prod_beta flushed_store UpsertJobs_def AList.delete_update_same split: if_splits)
  obtain j where "rg_mem r = jobs_of s @ [j]" using Submit_mem [OF sub] by blast
  then have "jobs_of s ! a = rg_mem r ! a" if "(jid, a) \<in> set (rg_jobs (sy_reg s))" for jid a
    using that assms(3) len by (auto simp: map_ok_def nth_append)
  then show ?thesis
    using assms(1) st by (fastforce simp: durable_def rows_ok_def synced_def)
qed

lemma poll_unresolved: "correlate_poll found now ok a r = (False, r') \<Longrightarrow> r' = r"
  by (auto simp: correlate_poll_def tryResolveRunUnlocked_def split: if_splits option.splits)

lemma correlate_next_frame:
  "rg_jobs (sy_reg (correlate_next a sid res s)) = rg_jobs (sy_reg s)"
  "rg_store (sy_reg (correlate_next a sid res s)) = rg_store (sy_reg s)"
  "rg_ownerPid (sy_reg (correlate_next a sid res s)) = rg_ownerPid (sy_reg s)"
  "jb_Record (jobs_of (correlate_next a sid res s) ! b) = jb_Record (jobs_of s ! b)"
  "sy_dirty (correlate_next a sid res s) = sy_dirty s"
  by (simp_all add: correlate_next_def correlate_exit_def nth_update_field [of jb_Record])

lemma finish_locked_flush:
  "\<exists>r1. snd (finish_locked st code msg now ok a r) = flushed ok now r1 \<and> rg_jobs r1 = rg_jobs r
     \<and> rg_store r1 = rg_store r \<and> rg_ownerPid r1 = rg_ownerPid r"
  by (auto simp: finish_locked_def promoteUnlocked_def dequeueUnlocked_def startingUnlocked_def Let_def split: list.splits)

lemma remove_fields:
  "rg_mem (removeFromQueueUnlocked a r) = rg_mem r" "rg_jobs (removeFromQueueUnlocked a r) = rg_jobs r"
  "rg_store (removeFromQueueUnlocked a r) = rg_store r" "rg_ownerPid (removeFromQueueUnlocked a r) = rg_ownerPid r"
  by (simp_all add: removeFromQueueUnlocked_def)

lemma done_records: "jb_Record (rg_mem (upd_job a (\<lambda>j. j\<lparr>jb_done := True\<rparr>) r) ! b) = jb_Record (rg_mem r ! b)"
  by (simp add: nth_update_field [of jb_Record])

lemma Cancel_flush:
  assumes "Cancel jid now ok r = (res, act, dbl, r')"
  shows "(\<exists>a. map_of (rg_jobs r) jid = Some a \<and> job_status (rg_mem r ! a) \<in> {JobQueued, JobRunning})
      \<and> (\<exists>r1. rg_store r' = rg_store (flushed ok now r1) \<and> rg_jobs r' = rg_jobs r1 \<and> rg_ownerPid r' = rg_ownerPid r1
         \<and> (\<forall>b. jb_Record (rg_mem r' ! b) = jb_Record (rg_mem r1 ! b))
         \<and> rg_jobs r1 = rg_jobs r \<and> rg_store r1 = rg_store r \<and> rg_ownerPid r1 = rg_ownerPid r)
    \<or> (\<forall>a. map_of (rg_jobs r) jid = Some a \<longrightarrow> job_status (rg_mem r ! a) \<notin> {JobQueued, JobRunning}) \<and> r' = r"
proof (cases "\<exists>a. map_of (rg_jobs r) jid = Some a \<and> job_status (rg_mem r ! a) \<in> {JobQueued, JobRunning}")
  case True
  then obtain a where a: "map_of (rg_jobs r) jid = Some a" "job_status (rg_mem r ! a) \<in> {JobQueued, JobRunning}" by blast
  let ?q = "upd_job a (abort_mark now) (removeFromQueueUnlocked a r)" and ?n = "upd_job a (abort_mark now) r"
  have "r' = upd_job a (\<lambda>j. j\<lparr>jb_done := True\<rparr>) (flushed ok now ?q) \<or> r' = flushed ok now ?n"
    using assms a by (auto simp: Cancel_def Let_def isTerminal_def)
  then show ?thesis
  proof
    assume "r' = upd_job a (\<lambda>j. j\<lparr>jb_done := True\<rparr>) (flushed ok now ?q)"
    moreover from this have "jb_Record (rg_mem r' ! b) = jb_Record (rg_mem ?q ! b)" for b
      using done_records [of a "flushed ok now ?q" b] by (simp only: flushed_fields)
    ultimately show ?thesis using True
      by (intro disjI1 conjI exI [of _ ?q]) (simp_all only: upd_job_fields flushed_fields remove_fields simp_thms)
  next
    assume "r' = flushed ok now ?n"
    then show ?thesis using True by (intro disjI1 conjI exI [of _ ?n]) simp_all
  qed
next
  case False
  then show ?thesis using Cancel_unchanged [OF assms] by blast
qed

lemma do_cancel_after_reg [simp]:
  "sy_reg (do_cancel_after act s) = sy_reg s" "sy_dirty (do_cancel_after act s) = sy_dirty s"
  by (simp_all add: do_cancel_after_def split: CancelAfter.split)

lemma inv_durable:
  assumes st: "step s t" and inv: "sys_inv s" and dur: "durable s"
  shows "durable t"
proof -
  have "sys_inv t" by (rule step_inv [OF st inv])
  then have mp: "map_ok t" by (simp add: sys_inv_def)
  have len: "length (jobs_of s) = length (sy_thr s)" "map_ok s" using inv by (auto simp: sys_inv_def dest: locals_ok_length)
  from st show ?thesis
  proof (cases rule: step.cases)
    case (submit_ok spec uuid now ok a admitted r)
    show ?thesis by (rule durable_submit [OF dur mp submit_ok(2,3)]) (simp_all add: submit_ok(1))
  next
    case (submit_fail spec uuid now ok e r)
    then show ?thesis using durable_submit_fail [OF dur len submit_fail(2)] by simp
  next
    case (start_go a pid now ok r)
    then show ?thesis
      by (intro durable_flush [OF dur mp, of ok "upd_job a (set_PID pid now) (sy_reg s)" now])
        (auto simp: start_commit_def split: if_splits)
  next
    case (attempt a n ok now)
    then show ?thesis
      by (intro durable_flush [OF dur mp, of ok "upd_job a (\<lambda>j. j\<lparr>jb_correlated := Some False\<rparr>) (sy_reg s)" now])
        (auto simp: attempt_begin_def)
  next
    case (reset a n ok now)
    then show ?thesis
      by (intro durable_flush [OF dur mp, of ok "upd_job a (\<lambda>j. j\<lparr>jb_Record := (jb_Record j)\<lparr>jr_RunID := [], jr_SessionID := []\<rparr>,
                         jb_updatedAt := now\<rparr>) (sy_reg s)" now]) (auto simp: retry_reset_def)
  next
    case (relaunch_go a n pid ok now)
    then show ?thesis
      by (intro durable_flush [OF dur mp, of ok "upd_job a (set_PID pid now) (sy_reg s)" now]) (auto simp: retry_commit_def)
  next
    case (session_event a sid found now ok resolved r)
    let ?r1 = "upd_job a (\<lambda>j. j\<lparr>jb_updatedAt := now\<rparr>)
       (upd_job a (set_RunID found) (upd_job a (\<lambda>j. j\<lparr>jb_Record := (jb_Record j)\<lparr>jr_SessionID := sid\<rparr>\<rparr>) (sy_reg s)))"
    have "r = flushed ok now ?r1"
      using correlate_session_snd [of sid found now ok a "sy_reg s"] session_event(5) by simp
    then show ?thesis
      by (intro durable_flush [OF dur mp, of ok ?r1 now]) (simp_all add: session_event(1) correlate_next_frame)
  next
    case (poll a sid found now ok resolved r)
    let ?r1 = "upd_job a (\<lambda>j. j\<lparr>jb_updatedAt := now\<rparr>) (upd_job a (set_RunID found) (sy_reg s))"
    show ?thesis
    proof (cases resolved)
      case True
      then have "r = flushed ok now ?r1"
        using correlate_poll_snd [of found now ok a "sy_reg s"] poll(4) by simp
      then show ?thesis
        by (intro durable_flush [OF dur mp, of ok ?r1 now]) (simp_all add: poll(1) True correlate_next_frame)
    next
      case False
      then have "r = sy_reg s" using poll_unresolved [of found now ok a "sy_reg s" r] poll(4) by simp
      then show ?thesis
        by (intro durable_keep [OF dur]) (simp_all add: poll(1) False correlate_next_frame)
    qed
  next
    case (finish_cs a st code msg now ok nx r)
    obtain r1 where "r = flushed ok now r1" "rg_jobs r1 = rg_jobs (sy_reg s)"
      "rg_store r1 = rg_store (sy_reg s)" "rg_ownerPid r1 = rg_ownerPid (sy_reg s)"
      using finish_locked_flush [of st code msg now ok a "sy_reg s"] finish_cs(5) by auto
    then show ?thesis
      by (intro durable_flush [OF dur mp, of ok r1 now]) (simp_all add: finish_cs(1) split: option.split)
  next
    case (finish_end a nx snap ok pruned dbl r)
    have "sy_reg t = r" "sy_dirty t = sy_dirty s"
      by (simp_all add: finish_end(1) split: option.split)
    then show ?thesis
      using durable_snapshot [OF _ finish_end(4)] dur by (simp add: durable_def)
  next
    case (cancel jid now ok res act dbl r)
    from Cancel_flush [OF cancel(2)] show ?thesis
    proof (elim disjE conjE exE)
      fix a r1
      assume a: "map_of (rg_jobs (sy_reg s)) jid = Some a" "job_status (jobs_of s ! a) \<in> {JobQueued, JobRunning}"
        and r1: "rg_store r = rg_store (flushed ok now r1)" "rg_jobs r = rg_jobs r1" "rg_ownerPid r = rg_ownerPid r1"
         "\<forall>b. jb_Record (rg_mem r ! b) = jb_Record (rg_mem r1 ! b)"
         "rg_jobs r1 = rg_jobs (sy_reg s)" "rg_store r1 = rg_store (sy_reg s)" "rg_ownerPid r1 = rg_ownerPid (sy_reg s)"
      show ?thesis
        by (rule durable_flush [OF dur mp, of ok r1 now]) (use a r1 in \<open>simp_all add: cancel(1) cancel_dirty_def\<close>)
    next
      assume "\<forall>a. map_of (rg_jobs (sy_reg s)) jid = Some a \<longrightarrow> job_status (jobs_of s ! a) \<notin> {JobQueued, JobRunning}"
        and "r = sy_reg s"
      then show ?thesis
        by (intro durable_keep [OF dur]) (auto simp: cancel(1) cancel_dirty_def split: option.split)
    qed
  next
    case (close_registry now ok as r)
    then show ?thesis
      by (intro durable_flush [OF dur mp, of ok "(sy_reg s)\<lparr>rg_closed := True\<rparr>" now])
        (auto simp: Close_def Let_def split: if_splits)
  next
    case (shared_table tbl)
    then show ?thesis using dur by (auto simp: durable_def rows_ok_def synced_def; fastforce)
  qed (rule durable_keep [OF dur]; simp add: correlate_exit_def nth_update_field [of jb_Record])+
qed

lemma reachable_durable: "reachable s \<Longrightarrow> durable s"
proof (rule ts.invariant_underI [where J = sys_inv])
  show "durable s" if "\<exists>cap pid started store. wf_table store \<and> s = init_sys cap pid started store" for s
    using that by (auto simp: durable_def rows_ok_def synced_def init_sys_def NewRegistry_def Let_def)
qed (use reachable_inv inv_durable in blast)+

text \<open>C6: durability. In every reachable state, each registered job has a row in the shared table
  that this server owns, and unless the most recent database write failed that row holds exactly
  the job's current record: a crash at any point loses nothing that a successful write covered.\<close>

theorem registry_durable:
  assumes "reachable s" and "(jid, a) \<in> set (rg_jobs (sy_reg s))"
  shows "\<exists>row. tbl_get (rg_store (sy_reg s)) jid = Some row \<and> row_ownerPid row = rg_ownerPid (sy_reg s)
    \<and> (\<not> sy_dirty s \<longrightarrow> row_rec row = (jb_Record (jobs_of s ! a))\<lparr>jr_RunSnapshot := []\<rparr>)"
  using reachable_durable [OF assms(1)] assms(2) by (fastforce simp: durable_def rows_ok_def synced_def)

lemma demo2_jobs: "(''j2'', 1) \<in> set (rg_jobs (sy_reg demo2))" "\<not> sy_dirty demo2"
  by (simp_all add: demo2_def demo1_def demo_regs)

theorem registry_durable_witness:
  "\<exists>row. tbl_get (rg_store (sy_reg demo2)) ''j2'' = Some row \<and> row_rec row = (jb_Record (jobs_of demo2 ! 1))\<lparr>jr_RunSnapshot := []\<rparr>"
  using registry_durable [OF demo_reachable2 demo2_jobs(1)] demo2_jobs(2) by blast

subsection \<open>The queue\<close>

lemma finish_queue:
  assumes "reachable s" and "valid s a" and "pc_of s a = Finishing st code msg"
    and "finish_locked st code msg now ok a (sy_reg s) = (nx, r)"
  shows "rg_queue r = rg_queue (sy_reg s) \<or> (\<exists>b. rg_queue (sy_reg s) = b # rg_queue r \<and> nx = Some b \<and> valid s b)"
proof -
  have inv: "sys_inv s" using reachable_inv [OF assms(1)] .
  then have qu: "queue_ok s" and loc: "locals_ok s" by (simp_all add: sys_inv_def)
  have "job_ok (jobs_of s ! a) (sy_thr s ! a)" using loc assms(2) by (rule locals_okD)
  then have status: "job_status (jobs_of s ! a) \<in> {JobRunning, JobAborted}"
    using assms(3) by (simp add: job_ok_def live_def)
  have slots: "0 < rg_slots (sy_reg s)" "rg_slots (sy_reg s) \<le> rg_cap (sy_reg s)"
    using reachable_parts(1) [OF assms(1)] count_if_pos [of a "sy_thr s" "\<lambda>t. holds (th_pc t)"] assms(2,3)
    by (simp_all add: slots_ok_def holds_def)
  show ?thesis
  proof (cases "rg_closed (sy_reg s) \<or> rg_queue (sy_reg s) = []")
    case True
    then show ?thesis
      using finish_locked_alone [OF status True, of st code msg now ok] assms(4) by auto
  next
    case False
    then obtain b q where q: "rg_queue (sy_reg s) = b # q" by (auto simp: neq_Nil_conv)
    have "valid s b" using queue_okD [OF qu, of b] q by simp
    with q show ?thesis
      using finish_locked_promotes [OF status _ q slots, of st code msg now ok] False assms(4)
      by (auto simp: startingUnlocked_def)
  qed
qed

lemma Cancel_queue:
  assumes "map_ok s" and "Cancel jid now ok (sy_reg s) = (res, act, dbl, r)"
  shows "rg_queue r = rg_queue (sy_reg s)
    \<or> (\<exists>b. map_of (rg_jobs (sy_reg s)) jid = Some b \<and> job_status (jobs_of s ! b) = JobQueued \<and> valid s b
        \<and> rg_queue r = filter (\<lambda>c. c \<noteq> b) (rg_queue (sy_reg s)))"
proof (cases "\<exists>b. map_of (rg_jobs (sy_reg s)) jid = Some b \<and> job_status (jobs_of s ! b) = JobQueued")
  case True
  then obtain b where b: "map_of (rg_jobs (sy_reg s)) jid = Some b" "job_status (jobs_of s ! b) = JobQueued" by blast
  then show ?thesis
    using map_okD [OF assms(1) b(1)] Cancel_queued [OF assms(2) b] by (simp add: removeFromQueueUnlocked_def)
next
  case False
  then show ?thesis using assms(2) by (auto simp: Cancel_def Let_def split: option.splits if_splits)
qed

text \<open>C9: first in, first out. A step leaves the queue alone, appends the job just submitted,
  promotes its head into the slot a finishing job released, or removes a job because it was
  cancelled; the order of the others never changes.\<close>

theorem queue_fifo:
  assumes "reachable s" and "step s t"
  shows "rg_queue (sy_reg t) = rg_queue (sy_reg s)
    \<or> rg_queue (sy_reg t) = rg_queue (sy_reg s) @ [length (sy_thr s)] \<and> pc_of t (length (sy_thr s)) = InQueue
    \<or> (\<exists>b. rg_queue (sy_reg s) = b # rg_queue (sy_reg t) \<and> pc_of t b = Promoted)
    \<or> (\<exists>b. rg_queue (sy_reg t) = filter (\<lambda>c. c \<noteq> b) (rg_queue (sy_reg s)) \<and> pc_of t b = Cancelled)"
proof -
  have inv: "sys_inv s" using reachable_inv [OF assms(1)] .
  then have mp: "map_ok s" by (simp_all add: sys_inv_def)
  from assms(2) show ?thesis
  proof (cases rule: step.cases)
    case (submit_ok spec uuid now ok a admitted r)
    with Submit_adds [OF inv submit_ok(2), of "\<not> ok"] show ?thesis
      by (cases admitted) (auto simp: adds_def new_thread_def)
  next
    case (submit_fail spec uuid now ok e r)
    with Submit_adds [OF inv submit_fail(2), of "sy_dirty s"] show ?thesis by (auto simp: adds_def)
  next
    case (finish_cs a st code msg now ok nx r)
    from finish_queue [OF assms(1) finish_cs(2,3,5)] show ?thesis
      by (cases nx) (auto simp: finish_cs(1))
  next
    case (finish_end a nx snap ok pruned dbl r)
    then show ?thesis using finish_post_eq [OF finish_end(4)] by (auto split: option.split)
  next
    case (cancel jid now ok res act dbl r)
    from Cancel_queue [OF mp cancel(2)] show ?thesis
      by (auto simp: cancel(1) cancelled_pc_def)
  qed (auto simp: start_commit_def attempt_begin_def retry_reset_def retry_commit_def correlate_exit_def correlate_next_def
      correlate_session_def correlate_poll_def tryResolveRunUnlocked_def Close_def Let_def split: if_splits option.splits)
qed

theorem queue_fifo_witness: "step demo7 demo8 \<and> rg_queue (sy_reg demo8) = [] \<and> rg_queue (sy_reg demo7) = [1]"
proof -
  have "rg_queue (sy_reg demo8) = []"
    using finish_locked_promotes [of "sy_reg demo7" 0 1 "[]"] demo_fin_reg
    by (simp add: demo8_def startingUnlocked_def)
  with queue_fifo [OF demo_reachable7 demo_step8] demo_step8 demo_fin_reg show ?thesis by simp
qed

subsection \<open>Submit and Cancel\<close>

lemma Submit_undone:
  assumes "reachable s" and "map_of (rg_jobs (sy_reg s)) (jr_JobID (jb_Record (NewJob spec uuid now))) = None"
  shows "\<exists>j. Submit spec uuid now False (sy_reg s) = (Inl ErrPersistenceError, (sy_reg s)\<lparr>rg_mem := jobs_of s @ [j]\<rparr>)
    \<and> jb_ctx j \<noteq> Some False"
proof -
  let ?r = "sy_reg s" and ?a = "length (jobs_of s)" and ?id = "jr_JobID (jb_Record (NewJob spec uuid now))"
  have "?a \<notin> set (rg_queue ?r)"
    using queue_okD [OF reachable_parts(2) [OF assms(1)], of ?a] reachable_length [OF assms(1)] by auto
  then have q: "filter (\<lambda>b. b \<noteq> ?a) (rg_queue ?r) = rg_queue ?r"
    by (auto simp: filter_id_conv)
  have d: "AList.delete ?id (rg_jobs ?r) = rg_jobs ?r"
    using assms(2) by (simp add: map_of_eq_None_iff)
  let ?j = "NewJob spec uuid now"
  define j where "j = (if rg_slots ?r < rg_cap ?r
     then cancel_ctx (markUnlocked JobRunning now (?j\<lparr>jb_ctx := Some False, jb_cancel := True\<rparr>)) else markUnlocked JobQueued now ?j)"
  have "Submit spec uuid now False ?r = (Inl ErrPersistenceError, ?r\<lparr>rg_mem := jobs_of s @ [j]\<rparr>)"
    using q d by (simp add: submit_defs j_def flushUnlocked_def UpsertJobs_def upd_job_def AList.delete_update_same list_update_append)
  moreover have "jb_ctx j \<noteq> Some False" by (simp add: j_def)
  ultimately show ?thesis by blast
qed

text \<open>a \<^verbatim>\<open>Submit\<close> whose record cannot be written is undone exactly. The caller gets the
  persistence error, and the map, the queue, the slots, the table and every other job are as
  before; the object left behind is unreachable from the registry and its context is cancelled.\<close>

theorem Submit_rolls_back:
  assumes "reachable s" and "map_of (rg_jobs (sy_reg s)) (jr_JobID (jb_Record (NewJob spec uuid now))) = None"
  shows "\<exists>j. Submit spec uuid now False (sy_reg s) = (Inl ErrPersistenceError, (sy_reg s)\<lparr>rg_mem := jobs_of s @ [j]\<rparr>)
    \<and> jb_ctx j \<noteq> Some False"
  by (rule Submit_undone [OF assms])

theorem Submit_rolls_back_witness:
  "\<exists>j. Submit (demo_spec ''j3'') [] 9 False (sy_reg demo2)
     = (Inl ErrPersistenceError, (sy_reg demo2)\<lparr>rg_mem := jobs_of demo2 @ [j]\<rparr>)"
proof -
  have "map_of (rg_jobs (sy_reg demo2)) (jr_JobID (jb_Record (NewJob (demo_spec ''j3'') [] 9))) = None"
    by (simp add: demo2_def demo1_def demo_regs)
  from Submit_rolls_back [OF demo_reachable2 this] show ?thesis by blast
qed

lemma registered_status:
  assumes "reachable s" and "map_of (rg_jobs (sy_reg s)) jid = Some a"
  shows "isTerminal (job_status (jobs_of s ! a)) \<or> job_status (jobs_of s ! a) = JobQueued \<and> pc_of s a = InQueue
    \<or> job_status (jobs_of s ! a) = JobRunning \<and> holds (pc_of s a) \<and> jb_cancel (jobs_of s ! a) \<and> \<not> jb_done (jobs_of s ! a)"
proof -
  note a = map_okD [OF reachable_parts(5) [OF assms(1)] assms(2)]
  from reachable_job [OF assms(1) a(1)] a(2) show ?thesis
    by (cases "pc_of s a") (auto simp: job_ok_def live_def holds_def isTerminal_def)
qed

lemma Cancel_branches:
  assumes "reachable s" and can: "Cancel jid now ok (sy_reg s) = (res, act, dbl, r)"
  shows "\<not> dbl \<and> rg_slots r = rg_slots (sy_reg s) \<and>
    (case map_of (rg_jobs (sy_reg s)) jid of
       None \<Rightarrow> res = None \<and> act = NoAction \<and> r = sy_reg s
     | Some a \<Rightarrow>
         if isTerminal (job_status (jobs_of s ! a)) then res = Some (jb_Record (jobs_of s ! a)) \<and> act = NoAction \<and> r = sy_reg s
         else res = Some (jb_Record (rg_mem r ! a)) \<and> job_status (rg_mem r ! a) = JobAborted
            \<and> jr_ErrorCode (jb_Record (rg_mem r ! a)) = ErrWorkflowAborted \<and> a \<notin> set (rg_queue r)
            \<and> (job_status (jobs_of s ! a) = JobQueued \<longrightarrow> jb_done (rg_mem r ! a)
                 \<and> act = (if jr_Mode (jb_Record (jobs_of s ! a)) = ModeWrite then PruneWorktree a else NoAction))
            \<and> (job_status (jobs_of s ! a) \<noteq> JobQueued \<longrightarrow> \<not> jb_done (rg_mem r ! a) \<and> act = CallCancel a))"
proof (cases "map_of (rg_jobs (sy_reg s)) jid")
  case None
  then show ?thesis using can by (simp add: Cancel_def)
next
  case (Some a)
  note a = map_okD [OF reachable_parts(5) [OF assms(1)] Some]
  have va: "a < length (jobs_of s)" using a(1) reachable_length [OF assms(1)] by simp
  consider (t) "isTerminal (job_status (jobs_of s ! a))" | (q) "job_status (jobs_of s ! a) = JobQueued" "pc_of s a = InQueue"
    | (r) "job_status (jobs_of s ! a) = JobRunning" "holds (pc_of s a)" "jb_cancel (jobs_of s ! a)" "\<not> jb_done (jobs_of s ! a)"
    using registered_status [OF assms(1) Some] by blast
  then show ?thesis
  proof cases
    case t
    then show ?thesis using can Some by (auto simp: Cancel_def Let_def)
  next
    case q
    then have "\<not> jb_done (jobs_of s ! a)" using reachable_job [OF assms(1) a(1)] by (simp add: job_ok_def)
    then show ?thesis
      using can Some q va by (auto simp: Cancel_def Let_def isTerminal_def removeFromQueueUnlocked_def abort_mark_def)
  next
    case r
    then have "pc_of s a \<noteq> InQueue" by (auto simp: holds_def)
    then have "a \<notin> set (rg_queue (sy_reg s))" using queue_okD [OF reachable_parts(2) [OF assms(1)]] by blast
    then show ?thesis
      using can Some r va by (auto simp: Cancel_def Let_def isTerminal_def abort_mark_def)
  qed
qed

text \<open>C18: \<^verbatim>\<open>Cancel\<close>, on every branch. An unknown id is an error and changes nothing; a terminal job is
  returned as it is; any other job comes back aborted with the abort code, keeps its slot, leaves
  the queue. A queued one is done at once and its worktree (if it is a write job) is to be pruned; a
  running one has its context cancelled, always through the cancel function \<^verbatim>\<open>start\<close> installed:
  the branch for a running job without one is never taken.\<close>

theorem Cancel_contract:
  assumes "reachable s" and can: "Cancel jid now ok (sy_reg s) = (res, act, dbl, r)"
  shows "\<not> dbl \<and> rg_slots r = rg_slots (sy_reg s) \<and>
    (case map_of (rg_jobs (sy_reg s)) jid of
       None \<Rightarrow> res = None \<and> act = NoAction \<and> r = sy_reg s
     | Some a \<Rightarrow>
         if isTerminal (job_status (jobs_of s ! a)) then res = Some (jb_Record (jobs_of s ! a)) \<and> act = NoAction \<and> r = sy_reg s
         else res = Some (jb_Record (rg_mem r ! a)) \<and> job_status (rg_mem r ! a) = JobAborted
            \<and> jr_ErrorCode (jb_Record (rg_mem r ! a)) = ErrWorkflowAborted \<and> a \<notin> set (rg_queue r)
            \<and> (job_status (jobs_of s ! a) = JobQueued \<longrightarrow> jb_done (rg_mem r ! a)
                 \<and> act = (if jr_Mode (jb_Record (jobs_of s ! a)) = ModeWrite then PruneWorktree a else NoAction))
            \<and> (job_status (jobs_of s ! a) \<noteq> JobQueued \<longrightarrow> \<not> jb_done (rg_mem r ! a) \<and> act = CallCancel a))"
  using Cancel_branches [OF assms] .

theorem Cancel_contract_witness:
  "\<exists>res dbl r. Cancel ''j2'' 6 True (sy_reg demo2) = (res, PruneWorktree 1, dbl, r) \<and> \<not> dbl \<and> 1 \<notin> set (rg_queue r)"
proof -
  obtain res act dbl r where c: "Cancel ''j2'' 6 True (sy_reg demo2) = (res, act, dbl, r)" by (metis prod_cases4)
  have j: "map_of (rg_jobs (sy_reg demo2)) ''j2'' = Some 1" "job_status (jobs_of demo2 ! 1) = JobQueued"
    "jr_Mode (jb_Record (jobs_of demo2 ! 1)) = ModeWrite"
    by (simp_all add: demo2_def demo1_def demo_regs)
  from Cancel_contract [OF demo_reachable2 c] j c show ?thesis by (auto simp: isTerminal_def)
qed

text \<open>When an authoring attempt is retried. After a failed attempt the registry relaunches
  exactly when retries are left, the job was not cancelled and the runs directory holds no
  \<^verbatim>\<open>.json\<close> file at all. The test does not look at which run wrote the file: in a directory with
  an earlier run an authoring failure is never retried.\<close>

theorem retry_iff_no_run_file:
  "retry_allowed n j (runFileExists fs dir) \<longleftrightarrow> n < MaxAuthoringRetries \<and> jb_ctx j = Some False
    \<and> (\<forall>es. fs_ReadDir fs dir = Inr es \<longrightarrow> (\<forall>e \<in> set es. HasSuffix (de_Name e) ''.json'' \<longrightarrow> de_IsDir e))"
  by (auto simp: retry_allowed_def runFileExists_def split: sum.split)

end
