(* ===== verification/Registry_Spec.thy ===== *)
theory Registry_Spec
  imports Registry_Durable
begin

text \<open>
  What the registry promises as a scheduler, without its data structures: a bounded set of running
  jobs and a first-in first-out list of waiting ones. The interleaving semantics of \<open>Registry_Steps\<close>
  refines it: every step of the goroutines is a step of the scheduler or leaves it unchanged.
\<close>

subsection \<open>The abstract scheduler\<close>

record Sched =
  sd_cap :: nat
  sd_run :: "nat set"
  sd_wait :: "nat list"
  sd_open :: bool

inductive sched_step :: "Sched \<Rightarrow> Sched \<Rightarrow> bool" where
  admit: "a \<notin> sd_run c \<Longrightarrow> a \<notin> set (sd_wait c) \<Longrightarrow> card (sd_run c) < sd_cap c \<Longrightarrow> (sd_open c \<Longrightarrow> sd_wait c = []) \<Longrightarrow>
    sched_step c (c\<lparr>sd_run := insert a (sd_run c)\<rparr>)"
| park: "a \<notin> sd_run c \<Longrightarrow> a \<notin> set (sd_wait c) \<Longrightarrow> card (sd_run c) = sd_cap c \<Longrightarrow>
    sched_step c (c\<lparr>sd_wait := sd_wait c @ [a]\<rparr>)"
| release: "a \<in> sd_run c \<Longrightarrow> \<not> sd_open c \<or> sd_wait c = [] \<Longrightarrow>
    sched_step c (c\<lparr>sd_run := sd_run c - {a}\<rparr>)"
| hand_on: "a \<in> sd_run c \<Longrightarrow> sd_open c \<Longrightarrow> sd_wait c = b # q \<Longrightarrow>
    sched_step c (c\<lparr>sd_run := insert b (sd_run c - {a}), sd_wait := q\<rparr>)"
| withdraw: "a \<in> set (sd_wait c) \<Longrightarrow> sched_step c (c\<lparr>sd_wait := remove1 a (sd_wait c)\<rparr>)"
| shut: "sched_step c (c\<lparr>sd_open := False\<rparr>)"

definition sched_init :: "nat \<Rightarrow> Sched" where
  "sched_init cap = \<lparr>sd_cap = cap, sd_run = {}, sd_wait = [], sd_open = True\<rparr>"

text \<open>What the abstract scheduler guarantees.\<close>

definition sched_ok :: "Sched \<Rightarrow> bool" where
  "sched_ok c \<longleftrightarrow> finite (sd_run c) \<and> card (sd_run c) \<le> sd_cap c \<and> distinct (sd_wait c) \<and> sd_run c \<inter> set (sd_wait c) = {}
     \<and> (sd_open c \<and> sd_wait c \<noteq> [] \<longrightarrow> card (sd_run c) = sd_cap c)"

lemma sched_ok_init [simp]: "sched_ok (sched_init cap)"
  by (simp add: sched_ok_def sched_init_def)

lemma sched_ok_step: "sched_step c d \<Longrightarrow> sched_ok c \<Longrightarrow> sched_ok d"
proof (induction rule: sched_step.induct)
  case (hand_on a c b q)
  have "card (sd_run c - {a}) = card (sd_run c) - 1" "0 < card (sd_run c)"
    using hand_on by (auto simp: sched_ok_def card_gt_0_iff)
  with hand_on show ?case by (auto simp: sched_ok_def)
next
  case (release a c)
  have "card (sd_run c - {a}) \<le> card (sd_run c)" using release by (auto simp: sched_ok_def card_Diff1_le)
  with release show ?case by (auto simp: sched_ok_def)
next
  case (withdraw a c)
  then show ?case using set_remove1_subset [of a "sd_wait c"] by (auto simp: sched_ok_def)
qed (auto simp: sched_ok_def)

subsection \<open>The abstraction\<close>

definition slots_of :: "Sys \<Rightarrow> bool list" where
  "slots_of s = map (\<lambda>t. holds (th_pc t)) (sy_thr s)"

definition running :: "bool list \<Rightarrow> nat set" where
  "running bs = {a. a < length bs \<and> bs ! a}"

definition abs_sched :: "Sys \<Rightarrow> Sched" where
  "abs_sched s = \<lparr>sd_cap = rg_cap (sy_reg s), sd_run = running (slots_of s), sd_wait = rg_queue (sy_reg s),
     sd_open = (\<not> rg_closed (sy_reg s))\<rparr>"

lemma finite_running [simp]: "finite (running bs)"
  by (simp add: running_def)

lemma card_running: "card (running bs) = count_if id bs"
proof (induction bs rule: rev_induct)
  case (snoc b bs)
  have "running (bs @ [b]) = running bs \<union> (if b then {length bs} else {})"
    by (auto simp: running_def nth_append)
  with snoc show ?case by (auto simp: running_def)
qed (simp add: running_def)

lemma running_update: "a < length bs \<Longrightarrow> running (bs[a := b]) = (if b then insert a (running bs) else running bs - {a})"
  by (auto simp: running_def nth_list_update)

lemma running_snoc: "running (bs @ [b]) = (if b then insert (length bs) (running bs) else running bs)"
  by (auto simp: running_def nth_append)

lemma running_fresh [simp]: "length bs \<notin> running bs"
  by (simp add: running_def)

lemma slots_of_simps [simp]:
  "length (slots_of s) = length (sy_thr s)" "a < length (sy_thr s) \<Longrightarrow> slots_of s ! a = holds (pc_of s a)"
  by (simp_all add: slots_of_def)

lemma slots_of_upd [simp]:
  "slots_of (upd_thr a f s) = (slots_of s)[a := holds (th_pc (f (sy_thr s ! a)))]"
  "slots_of (upd_reg g s) = slots_of s" "slots_of (upd_flush ok g s) = slots_of s"
  "slots_of (s\<lparr>sy_reg := r\<rparr>) = slots_of s" "slots_of (s\<lparr>sy_dirty := d\<rparr>) = slots_of s"
  "slots_of (s\<lparr>sy_cancels := c\<rparr>) = slots_of s" "slots_of (s\<lparr>sy_pruned := pr\<rparr>) = slots_of s"
  "slots_of (s\<lparr>sy_panic := pa\<rparr>) = slots_of s"
  "slots_of (s\<lparr>sy_thr := ts\<rparr>) = map (\<lambda>t. holds (th_pc t)) ts"
  by (simp_all add: slots_of_def map_update)

lemma slots_same [simp]: "b = holds (pc_of s a) \<Longrightarrow> valid s a \<Longrightarrow> (slots_of s)[a := b] = slots_of s"
  using list_update_id [of "slots_of s" a] by simp

lemma running_slots: "a \<in> running (slots_of s) \<longleftrightarrow> valid s a \<and> holds (pc_of s a)"
  by (auto simp: running_def)

text \<open>The registry's own accounting of its slots is the number of running jobs.\<close>

lemma slots_card: "sys_inv s \<Longrightarrow> rg_slots (sy_reg s) = card (running (slots_of s)) \<and> rg_slots (sy_reg s) \<le> rg_cap (sy_reg s)"
  by (simp add: sys_inv_def slots_ok_def card_running slots_of_def count_if_def comp_def)

subsection \<open>The simulation\<close>

text \<open>Most steps do not concern the scheduler.\<close>

definition quiet :: "Sys \<Rightarrow> Sys \<Rightarrow> bool" where
  "quiet s t \<longleftrightarrow> slots_of t = slots_of s \<and> rg_queue (sy_reg t) = rg_queue (sy_reg s)
     \<and> rg_cap (sy_reg t) = rg_cap (sy_reg s) \<and> rg_closed (sy_reg t) = rg_closed (sy_reg s)"

lemma quiet_abs: "quiet s t \<Longrightarrow> abs_sched t = abs_sched s"
  by (simp add: quiet_def abs_sched_def)

definition sim :: "Sys \<Rightarrow> Sys \<Rightarrow> bool" where
  "sim s t \<longleftrightarrow> abs_sched t = abs_sched s \<or> sched_step (abs_sched s) (abs_sched t)"

lemma quiet_sim: "quiet s t \<Longrightarrow> sim s t"
  by (simp add: sim_def quiet_abs)

lemma sim_adds:
  assumes inv: "sys_inv s" and ad: "adds p j s t"
  shows "sim s t"
proof -
  let ?a = "length (sy_thr s)"
  have t: "slots_of t = slots_of s @ [holds p]" "rg_queue (sy_reg t) = rg_queue (sy_reg s) @ (if p = InQueue then [?a] else [])"
    "rg_cap (sy_reg t) = rg_cap (sy_reg s)" "rg_closed (sy_reg t) = rg_closed (sy_reg s)"
    using ad by (simp_all add: adds_def slots_of_def new_thread_def)
  have wait: "?a \<notin> set (rg_queue (sy_reg s))"
    using inv by (auto simp: sys_inv_def queue_ok_def)
  have run: "?a \<notin> running (slots_of s)" by (simp add: running_slots)
  note card = slots_card [OF inv]
  consider "p = Starting" | "p = InQueue" | "p = Dropped" using ad by (auto simp: adds_def)
  then show ?thesis
  proof cases
    case 1
    have "rg_slots (sy_reg s) < rg_cap (sy_reg s)" using ad 1 by (simp add: adds_def)
    moreover have "rg_closed (sy_reg s) \<or> rg_queue (sy_reg s) = []"
      using inv calculation by (auto simp: sys_inv_def work_conserving_def)
    ultimately have "sched_step (abs_sched s) ((abs_sched s)\<lparr>sd_run := insert ?a (sd_run (abs_sched s))\<rparr>)"
      using card run wait by (intro admit) (auto simp: abs_sched_def)
    moreover have "abs_sched t = (abs_sched s)\<lparr>sd_run := insert ?a (sd_run (abs_sched s))\<rparr>"
      by (simp add: abs_sched_def t 1 running_snoc holds_def)
    ultimately show ?thesis by (simp add: sim_def)
  next
    case 2
    have "rg_slots (sy_reg s) = rg_cap (sy_reg s)" using ad 2 by (simp add: adds_def)
    then have "sched_step (abs_sched s) ((abs_sched s)\<lparr>sd_wait := sd_wait (abs_sched s) @ [?a]\<rparr>)"
      using card run wait by (intro park) (auto simp: abs_sched_def)
    moreover have "abs_sched t = (abs_sched s)\<lparr>sd_wait := sd_wait (abs_sched s) @ [?a]\<rparr>"
      by (simp add: abs_sched_def t 2 running_snoc holds_def)
    ultimately show ?thesis by (simp add: sim_def)
  next
    case 3
    then show ?thesis by (simp add: sim_def abs_sched_def t running_snoc holds_def)
  qed
qed

lemma sim_submit:
  assumes "sys_inv s" and "Submit spec uuid now ok (sy_reg s) = (res, r)"
  shows "case res of
     Inr (a, admitted) \<Rightarrow> sim s (s\<lparr>sy_reg := r, sy_dirty := d,
        sy_thr := sy_thr s @ [new_thread (if admitted then Starting else InQueue)]\<rparr>)
   | Inl e \<Rightarrow> sim s (s\<lparr>sy_reg := r, sy_dirty := d, sy_thr := sy_thr s @ [new_thread Dropped]\<rparr>)"
  using Submit_adds [OF assms, of d] sim_adds [OF assms(1)] by (auto split: sum.splits prod.splits)

lemma sim_finish:
  assumes inv: "sys_inv s" and va: "valid s a" and pca: "pc_of s a = Finishing st code msg"
    and fin: "finish_locked st code msg now ok a (sy_reg s) = (nx, r)"
  shows "sim s ((case nx of None \<Rightarrow> (\<lambda>s. s) | Some b \<Rightarrow> goto b Promoted)
               (goto a (Finished nx) (upd_flush ok (\<lambda>_. r) s)))"
proof -
  let ?r = "sy_reg s"
  have parts: "locals_ok s" "queue_ok s" "slots_ok s" using inv by (simp_all add: sys_inv_def)
  have status: "job_status (jobs_of s ! a) \<in> {JobRunning, JobAborted}"
    using locals_okD [OF parts(1) va] pca by (simp add: job_ok_def live_def)
  have run: "a \<in> running (slots_of s)" using va pca by (simp add: running_slots holds_def)
  have pos: "0 < rg_slots ?r" and cap: "rg_slots ?r \<le> rg_cap ?r"
    using slots_card [OF inv] run by (auto simp: card_gt_0_iff)
  show ?thesis
  proof (cases "rg_closed ?r \<or> rg_queue ?r = []")
    case True
    then have nx: "nx = None" and r: "r = flushed ok now ((upd_job a (set_terminal st code msg now) ?r)\<lparr>rg_slots := rg_slots ?r - 1\<rparr>)"
      using finish_locked_alone [OF status True, of st code msg now ok] fin by simp_all
    have "sched_step (abs_sched s) ((abs_sched s)\<lparr>sd_run := sd_run (abs_sched s) - {a}\<rparr>)"
      using True run by (intro release) (auto simp: abs_sched_def)
    moreover have "abs_sched (goto a (Finished None) (upd_flush ok (\<lambda>_. r) s)) = (abs_sched s)\<lparr>sd_run := sd_run (abs_sched s) - {a}\<rparr>"
      using va by (simp add: abs_sched_def r running_update holds_def)
    ultimately show ?thesis by (simp add: nx sim_def)
  next
    case False
    then obtain b q where q: "rg_queue ?r = b # q" by (auto simp: neq_Nil_conv)
    have vb: "valid s b" and pcb: "pc_of s b = InQueue" using parts(2) q by (auto simp: queue_ok_def)
    have ab: "a \<noteq> b" using pca pcb by auto
    have nx: "nx = Some b" and r: "r = flushed ok now (startingUnlocked now b
        ((upd_job a (set_terminal st code msg now) ?r)\<lparr>rg_queue := q, rg_slots := rg_slots ?r\<rparr>))"
      using finish_locked_promotes [OF status _ q pos cap, of st code msg now ok] False fin by simp_all
    have "sched_step (abs_sched s) ((abs_sched s)\<lparr>sd_run := insert b (sd_run (abs_sched s) - {a}), sd_wait := q\<rparr>)"
      using False run q by (intro hand_on) (auto simp: abs_sched_def)
    moreover have "abs_sched (goto b Promoted (goto a (Finished (Some b)) (upd_flush ok (\<lambda>_. r) s)))
        = (abs_sched s)\<lparr>sd_run := insert b (sd_run (abs_sched s) - {a}), sd_wait := q\<rparr>"
      using va vb ab by (simp add: abs_sched_def r startingUnlocked_def running_update holds_def)
    ultimately show ?thesis by (simp add: nx sim_def)
  qed
qed

lemma sim_cancel:
  assumes inv: "sys_inv s" and can: "Cancel jid now ok (sy_reg s) = (res, act, dbl, r)"
  shows "sim s (do_cancel_after act ((cancelled_pc jid s)\<lparr>sy_reg := r, sy_panic := (sy_panic s \<or> dbl), sy_dirty := d\<rparr>))"
proof -
  have parts: "map_ok s" "locals_ok s" "queue_ok s" using inv by (simp_all add: sys_inv_def)
  have after: "abs_sched (do_cancel_after act u) = abs_sched u" for u
    by (cases act) (simp_all add: do_cancel_after_def abs_sched_def)
  consider (other) "\<And>a. map_of (rg_jobs (sy_reg s)) jid = Some a \<Longrightarrow> job_status (jobs_of s ! a) \<notin> {JobQueued, JobRunning}"
    | (queued) a where "map_of (rg_jobs (sy_reg s)) jid = Some a" "job_status (jobs_of s ! a) = JobQueued"
    | (running) a where "map_of (rg_jobs (sy_reg s)) jid = Some a" "job_status (jobs_of s ! a) = JobRunning"
    by blast
  then show ?thesis
  proof cases
    case other
    then have "cancelled_pc jid s = s" by (auto simp: cancelled_pc_def split: option.split)
    with Cancel_unchanged [OF can other] show ?thesis unfolding sim_def after by (simp add: abs_sched_def)
  next
    case (queued a)
    note a = map_okD [OF parts(1) queued(1)] and c = Cancel_queued [OF can queued]
    have pca: "pc_of s a = InQueue" using queued_pc [OF locals_okD [OF parts(2) a(1)] queued(2) a(2)] .
    have q: "a \<in> set (rg_queue (sy_reg s))" "remove1 a (rg_queue (sy_reg s)) = filter (\<lambda>b. b \<noteq> a) (rg_queue (sy_reg s))"
      using parts(3) pca a(1) by (auto simp: queue_ok_def distinct_remove1_removeAll removeAll_filter_not_eq intro!: filter_cong)
    have "sched_step (abs_sched s) ((abs_sched s)\<lparr>sd_wait := remove1 a (sd_wait (abs_sched s))\<rparr>)"
      using q by (intro withdraw) (simp add: abs_sched_def)
    moreover have "cancelled_pc jid s = goto a Cancelled s" using queued by (simp add: cancelled_pc_def)
    then have "abs_sched ((cancelled_pc jid s)\<lparr>sy_reg := r, sy_panic := (sy_panic s \<or> dbl), sy_dirty := d\<rparr>)
        = (abs_sched s)\<lparr>sd_wait := remove1 a (sd_wait (abs_sched s))\<rparr>"
      using c q a(1) pca by (simp add: abs_sched_def removeFromQueueUnlocked_def holds_def)
    ultimately show ?thesis unfolding sim_def after by simp
  next
    case (running a)
    note a = map_okD [OF parts(1) running(1)]
    have "jb_cancel (jobs_of s ! a)"
      using locals_okD [OF parts(2) a(1)] running(2) a(2) by (cases "pc_of s a") (auto simp: job_ok_def live_def isTerminal_def)
    note c = Cancel_running [OF can running this]
    have "cancelled_pc jid s = s" using running by (simp add: cancelled_pc_def)
    then show ?thesis using c unfolding sim_def after by (simp add: abs_sched_def)
  qed
qed

lemma step_sim: "step s t \<Longrightarrow> sys_inv s \<Longrightarrow> sim s t"
proof (induction rule: step.induct)
  case (submit_ok spec uuid now ok s a admitted r)
  then show ?case using sim_submit [of s spec uuid now ok "Inr (a, admitted)" r] by simp
next
  case (submit_fail spec uuid now ok s e r)
  then show ?case using sim_submit [of s spec uuid now ok "Inl e" r "sy_dirty s"] by simp
next
  case (session_event s a sid found now ok resolved r)
  then have "r = snd (correlate_session sid found now ok a (sy_reg s))" by simp
  with session_event show ?case
    by (intro quiet_sim) (auto simp: quiet_def correlate_next_def correlate_exit_def correlate_session_snd)
next
  case (poll s a sid found now ok resolved r)
  then have "r = snd (correlate_poll found now ok a (sy_reg s))" by simp
  with poll show ?case
    by (intro quiet_sim) (auto simp: quiet_def correlate_next_def correlate_exit_def correlate_poll_snd)
next
  case (finish_cs s a st code msg now ok nx r)
  then show ?case by (blast intro: sim_finish)
next
  case (finish_end s a nx snap ok pruned dbl r)
  have ho: "handover_ok s" using finish_end.prems by (simp add: sys_inv_def)
  note post = finish_post_eq [OF finish_end(3)]
  have "valid s b \<and> pc_of s b = Promoted \<and> a \<noteq> b" if "nx = Some b" for b
    using handoverD(1,2) [OF ho finish_end(1)] finish_end(2) that by auto
  with finish_end(1,2) post show ?case
    by (intro quiet_sim) (cases nx; simp add: quiet_def holds_def)
next
  case (cancel jobID now ok s res act dbl r)
  then show ?case by (blast intro: sim_cancel)
next
  case (close_registry now ok s as r)
  have "sched_step (abs_sched s) ((abs_sched s)\<lparr>sd_open := False\<rparr>)" by (rule shut)
  moreover have "abs_sched (s\<lparr>sy_reg := r, sy_dirty := \<not> ok, sy_cancels := sy_cancels s @ as\<rparr>) = (abs_sched s)\<lparr>sd_open := False\<rparr>"
    using close_registry(1) by (auto simp: Close_def Let_def abs_sched_def split: if_splits)
  ultimately show ?case unfolding sim_def by simp
qed (rule quiet_sim, auto simp: quiet_def holds_def step_defs split: if_splits)+

lemma abs_init: "abs_sched (init_sys cap pid started store) = sched_init (rg_cap (sy_reg (init_sys cap pid started store)))"
  by (simp add: abs_sched_def sched_init_def init_sys_def NewRegistry_def Let_def slots_of_def running_def)

lemma step_cap: "step s t \<Longrightarrow> sys_inv s \<Longrightarrow> rg_cap (sy_reg t) = rg_cap (sy_reg s)"
  using step_sim [of s t] by (auto simp: sim_def abs_sched_def elim: sched_step.cases)

lemma sched_ok_reach: "sched_step\<^sup>*\<^sup>* (sched_init cap) c \<Longrightarrow> sched_ok c"
  by (induction rule: rtranclp_induct) (auto intro: sched_ok_step)

text \<open>C11: The registry refines the scheduler. In every reachable state of the goroutines, the jobs
  that hold a slot and the queue are a state the abstract scheduler can reach with the same cap; and
  whatever step any goroutine takes next (a launch, a wait that ends, a retry, a correlation, a
  cancellation, a failed submission) either leaves that state alone or is one scheduler step: a job admitted
  only while a slot is free and nobody waits, appended to the queue only when all slots are taken,
  a slot handed to the head of the queue, a waiting job withdrawn.\<close>

theorem registry_refines_scheduler:
  assumes "reachable s"
  shows "sched_step\<^sup>*\<^sup>* (sched_init (rg_cap (sy_reg s))) (abs_sched s) \<and> sched_ok (abs_sched s)
    \<and> (\<forall>t. step s t \<longrightarrow> abs_sched t = abs_sched s \<or> sched_step (abs_sched s) (abs_sched t))"
proof -
  have "sched_step\<^sup>*\<^sup>* (sched_init (rg_cap (sy_reg s))) (abs_sched s)"
    using assms
  proof (induction rule: reachable.induct)
    case (init store cap pid started)
    then show ?case by (simp add: abs_init)
  next
    case (more s t)
    note inv = reachable_inv [OF more(1)]
    from more(3) step_sim [OF more(2) inv] show ?case
      by (auto simp: sim_def step_cap [OF more(2) inv] intro: rtranclp.rtrancl_into_rtrancl)
  qed
  then show ?thesis
    using sched_ok_reach step_sim [of s] reachable_inv [OF assms] by (auto simp: sim_def)
qed

lemma registry_refines_scheduler_witness:
  "sched_step\<^sup>*\<^sup>* (sched_init 1) (abs_sched demo2) \<and> sd_wait (abs_sched demo2) = [1]"
proof -
  have "rg_cap (sy_reg demo2) = 1" "rg_queue (sy_reg demo2) = [1]" by (simp_all add: demo_regs demo1_def demo2_def)
  with registry_refines_scheduler [OF demo_reachable2] show ?thesis by (simp add: abs_sched_def)
qed

subsection \<open>The registered records\<close>

text \<open>C12: Registered records are well typed. In every reachable state, the record found under an id has that id, its status
  is one of the five words of the vocabulary, it is \<^verbatim>\<open>queued\<close> exactly when the job is in the queue, \<^verbatim>\<open>running\<close> only while
  the job holds a slot and can be cancelled, and its done channel is closed only under a terminal status.\<close>

theorem registered_well_typed:
  assumes "reachable s" and "map_of (rg_jobs (sy_reg s)) jid = Some a"
  shows "jr_JobID (jb_Record (jobs_of s ! a)) = jid
    \<and> job_status (jobs_of s ! a) \<in> {JobQueued, JobRunning, JobCompleted, JobFailed, JobAborted}
    \<and> (job_status (jobs_of s ! a) = JobQueued \<longleftrightarrow> a \<in> set (rg_queue (sy_reg s)))
    \<and> (job_status (jobs_of s ! a) = JobRunning \<longrightarrow> a \<in> sd_run (abs_sched s) \<and> jb_cancel (jobs_of s ! a))
    \<and> (jb_done (jobs_of s ! a) \<longrightarrow> isTerminal (job_status (jobs_of s ! a)))"
proof -
  note inv = reachable_inv [OF assms(1)]
  have parts: "map_ok s" "locals_ok s" "queue_ok s" using inv by (simp_all add: sys_inv_def)
  note a = map_okD [OF parts(1) assms(2)] and ok = locals_okD [OF parts(2) map_okD(1) [OF parts(1) assms(2)]]
  have in_queue: "a \<in> set (rg_queue (sy_reg s)) \<longleftrightarrow> pc_of s a = InQueue"
    using parts(3) a(1) by (simp add: queue_ok_def)
  have queued: "pc_of s a = InQueue \<Longrightarrow> job_status (jobs_of s ! a) = JobQueued"
    using ok by (auto simp: job_ok_def)
  have "jb_done (jobs_of s ! a) \<Longrightarrow> isTerminal (job_status (jobs_of s ! a))"
    using ok a(2) by (cases "pc_of s a") (auto simp: job_ok_def live_def isTerminal_def)
  then show ?thesis
    using registered_status [OF assms] a in_queue queued
    by (auto simp: abs_sched_def running_slots isTerminal_def)
qed

lemma registered_well_typed_witness:
  "job_status (jobs_of demo2 ! 1) = JobQueued"
proof -
  have q: "rg_queue (sy_reg demo2) = [1]" by (simp add: demo_regs demo1_def demo2_def)
  have "map_of (rg_jobs (sy_reg demo2)) ''j2'' = Some 1" by (simp add: demo_regs demo1_def demo2_def)
  from registered_well_typed [OF demo_reachable2 this] q show ?thesis by simp
qed

end
