(* ===== verification/Reconcile.thy ===== *)
theory Reconcile
  imports Registry
begin

text \<open>
  \<^verbatim>\<open>internal/jobs/reconcile.go\<close>: the sweep a starting server runs over the shared table. First the
  loop itself as a function, then any number of servers sweeping the same table at once while others
  write to it, as a transition system.
\<close>

subsection \<open>The loop\<close>

text \<open>
  \<open>env\<close> is what the loop's iteration finds outside the program: the operating system's answers to
  \<^verbatim>\<open>kill(pid, 0)\<close>, whether the claim's statement succeeds, and the clock.
\<close>

record Env =
  env_kill :: "int \<Rightarrow> KillResult"
  env_ok :: bool
  env_now :: Time

definition skip_row :: "(int \<Rightarrow> KillResult) \<Rightarrow> JobRecord \<Rightarrow> ownerInfo \<Rightarrow> bool" where
  "skip_row kill rc own \<longleftrightarrow> isTerminal (jr_Status rc) \<or> pidAlive kill (own_Pid own)"

definition wants_prune :: "JobRecord \<Rightarrow> bool" where
  "wants_prune rc \<longleftrightarrow> jr_Mode rc = ModeWrite \<and> jr_WorktreePath rc \<noteq> []"

definition reconcile_claim :: "int \<Rightarrow> string \<Rightarrow> Env \<Rightarrow> string \<Rightarrow> Table \<Rightarrow> bool \<times> Table" where
  "reconcile_claim ownerPid ownerStartedAt e jobID t =
     (let (claimed, t') = ClaimTerminal (env_ok e) jobID JobFailed ErrServerRestarted ownerPid ownerStartedAt (env_now e) t
      in (claimed = Some True, t'))"

text \<open>One iteration: the records pruned and the table.\<close>

definition reconcile_one :: "int \<Rightarrow> string \<Rightarrow> Env \<Rightarrow> JobRecord \<times> ownerInfo \<Rightarrow> Table \<Rightarrow> JobRecord list \<times> Table" where
  "reconcile_one ownerPid ownerStartedAt e rw t =
     (case rw of (rc, own) \<Rightarrow>
        if skip_row (env_kill e) rc own then ([], t)
        else case reconcile_claim ownerPid ownerStartedAt e (jr_JobID rc) t of
               (won, t') \<Rightarrow>
                 if \<not> won then ([], t')
                 else if wants_prune rc then (if pidAlive (env_kill e) (jr_PID rc) then ([], t') else ([rc], t'))
                 else ([], t'))"

fun reconcile_rows :: "int \<Rightarrow> string \<Rightarrow> (nat \<Rightarrow> Env) \<Rightarrow> nat \<Rightarrow> (JobRecord \<times> ownerInfo) list \<Rightarrow> Table \<Rightarrow> JobRecord list \<times> Table" where
  "reconcile_rows me ms env i [] t = ([], t)"
| "reconcile_rows me ms env i (rw # rws) t =
     (case reconcile_one me ms (env i) rw t of
        (p, t1) \<Rightarrow> (case reconcile_rows me ms env (Suc i) rws t1 of (ps, t2) \<Rightarrow> (p @ ps, t2)))"

text \<open>The number of rows seen (\<open>None\<close>: the read failed), the records whose worktree was pruned, the table.\<close>

definition Reconcile :: "int \<Rightarrow> string \<Rightarrow> bool \<Rightarrow> (nat \<Rightarrow> Env) \<Rightarrow> Table \<Rightarrow> nat option \<times> JobRecord list \<times> Table" where
  "Reconcile ownerPid ownerStartedAt readOk env t =
     (case AllJobs readOk t of
        None \<Rightarrow> (None, [], t)
      | Some (recs, owners) \<Rightarrow>
          (case reconcile_rows ownerPid ownerStartedAt env 0 (zip recs owners) t of
             (pruned, t') \<Rightarrow> (Some (length recs), pruned, t')))"

subsection \<open>What one iteration does to a row\<close>

lemma claim_get:
  assumes "wf_table t"
  shows "tbl_get (snd (reconcile_claim me ms e jid t)) jid' =
     (if env_ok e \<and> jid' = jid then map_option (after_claim JobFailed ErrServerRestarted me ms (env_now e)) (tbl_get t jid')
      else tbl_get t jid')"
  using tbl.get_claim [OF assms]
  by (cases "env_ok e") (simp_all add: reconcile_claim_def case_prod_beta, simp add: ClaimTerminal_def)

lemma claim_wf: "wf_table t \<Longrightarrow> wf_table (snd (reconcile_claim me ms e jid t))"
  by (simp add: reconcile_claim_def case_prod_beta wf_ClaimTerminal)

lemma claim_won:
  assumes "wf_table t"
  shows "fst (reconcile_claim me ms e jid t) \<longleftrightarrow>
     env_ok e \<and> (\<exists>row. tbl_get t jid = Some row \<and> \<not> IsTerminal (row_status row))"
  using tbl.claim_wins [OF assms]
  by (cases "env_ok e") (simp_all add: reconcile_claim_def case_prod_beta, simp add: ClaimTerminal_def)

lemma after_claim_terminal [simp]: "IsTerminal (row_status (after_claim JobFailed c me ms now row))"
  by (simp add: after_claim_def status_defs)

lemma after_claim_id [simp]: "row_id (after_claim st c me ms now row) = row_id row"
  by (simp add: after_claim_def)

lemma after_claim_idem: "after_claim JobFailed c' me' ms' now' (after_claim JobFailed c me ms now row) = after_claim JobFailed c me ms now row"
  using after_claim_terminal [of c me ms now row] by (simp add: after_claim_def [of JobFailed c'])

lemma one_cases:
  "reconcile_one me ms e (rc, own) t =
     (if skip_row (env_kill e) rc own then ([], t)
      else (if fst (reconcile_claim me ms e (jr_JobID rc) t) \<and> wants_prune rc \<and> \<not> pidAlive (env_kill e) (jr_PID rc) then [rc] else [],
            snd (reconcile_claim me ms e (jr_JobID rc) t)))"
  by (auto simp: reconcile_one_def split: prod.split)

lemma one_wf: "wf_table t \<Longrightarrow> wf_table (snd (reconcile_one me ms e rw t))"
  by (cases rw) (simp add: one_cases claim_wf)

lemma one_get:
  assumes "wf_table t"
  shows "tbl_get (snd (reconcile_one me ms e (rc, own) t)) jid =
     (if \<not> skip_row (env_kill e) rc own \<and> env_ok e \<and> jid = jr_JobID rc
      then map_option (after_claim JobFailed ErrServerRestarted me ms (env_now e)) (tbl_get t jid)
      else tbl_get t jid)"
  using claim_get [OF assms] by (auto simp: one_cases)

lemma one_pruned:
  assumes "wf_table t" and "rc' \<in> set (fst (reconcile_one me ms e (rc, own) t))"
  shows "rc' = rc \<and> \<not> skip_row (env_kill e) rc own \<and> wants_prune rc \<and> \<not> pidAlive (env_kill e) (jr_PID rc)
    \<and> (\<exists>row. tbl_get t (jr_JobID rc) = Some row \<and> \<not> IsTerminal (row_status row))"
  using assms claim_won [OF assms(1)] by (auto simp: one_cases split: if_splits)

subsection \<open>What the loop does\<close>

abbreviation rw_id :: "JobRecord \<times> ownerInfo \<Rightarrow> string" where "rw_id rw \<equiv> jr_JobID (fst rw)"

lemma rows_Cons:
  "reconcile_rows me ms env i (rw # rws) t =
     (fst (reconcile_one me ms (env i) rw t) @ fst (reconcile_rows me ms env (Suc i) rws (snd (reconcile_one me ms (env i) rw t))),
      snd (reconcile_rows me ms env (Suc i) rws (snd (reconcile_one me ms (env i) rw t))))"
  by (simp split: prod.split)

declare reconcile_rows.simps(2) [simp del]

lemma rows_wf: "wf_table t \<Longrightarrow> wf_table (snd (reconcile_rows me ms env i rws t))"
  by (induction rws arbitrary: i t) (auto simp: rows_Cons one_wf)

text \<open>A row whose entry is skipped or absent is untouched.\<close>

lemma rows_skip:
  "wf_table t \<Longrightarrow> (\<And>rc own k. (rc, own) \<in> set rws \<Longrightarrow> jr_JobID rc = jid \<Longrightarrow> skip_row (env_kill (env k)) rc own) \<Longrightarrow>
   tbl_get (snd (reconcile_rows me ms env i rws t)) jid = tbl_get t jid"
proof (induction rws arbitrary: i t)
  case (Cons rw rws)
  obtain rc own where rw: "rw = (rc, own)" by (cases rw)
  have "tbl_get (snd (reconcile_one me ms (env i) rw t)) jid = tbl_get t jid"
    using Cons.prems(2) [of rc own i] one_get [OF Cons.prems(1)] by (auto simp: rw)
  with Cons.IH [of "snd (reconcile_one me ms (env i) rw t)" "Suc i"] Cons.prems show ?case
    by (simp add: rows_Cons one_wf)
qed simp

text \<open>A terminal row is never changed, and its worktree never pruned.\<close>

lemma rows_terminal:
  "wf_table t \<Longrightarrow> tbl_get t jid = Some row \<Longrightarrow> IsTerminal (row_status row) \<Longrightarrow>
   tbl_get (snd (reconcile_rows me ms env i rws t)) jid = Some row
   \<and> jid \<notin> jr_JobID ` set (fst (reconcile_rows me ms env i rws t))"
proof (induction rws arbitrary: i t)
  case (Cons rw rws)
  obtain rc own where rw: "rw = (rc, own)" by (cases rw)
  have get: "tbl_get (snd (reconcile_one me ms (env i) rw t)) jid = Some row"
    using one_get [OF Cons.prems(1)] Cons.prems(2,3) by (auto simp: rw after_claim_def)
  moreover have "jid \<notin> jr_JobID ` set (fst (reconcile_one me ms (env i) rw t))"
    using one_pruned [OF Cons.prems(1)] Cons.prems(2,3) by (fastforce simp: rw)
  ultimately show ?case
    using Cons.IH [OF one_wf [OF Cons.prems(1)] get Cons.prems(3)] by (auto simp: rows_Cons)
qed simp

text \<open>A row whose owner is dead is claimed.\<close>

lemma rows_claim:
  "wf_table t \<Longrightarrow> (rc, own) \<in> set rws \<Longrightarrow> distinct (map rw_id rws) \<Longrightarrow>
   (\<And>k. \<not> skip_row (env_kill (env k)) rc own \<and> env_ok (env k)) \<Longrightarrow>
   \<exists>now. tbl_get (snd (reconcile_rows me ms env i rws t)) (jr_JobID rc) =
      map_option (after_claim JobFailed ErrServerRestarted me ms now) (tbl_get t (jr_JobID rc))"
proof (induction rws arbitrary: i t)
  case (Cons rw rws)
  let ?t1 = "snd (reconcile_one me ms (env i) rw t)"
  obtain rc' own' where rw: "rw = (rc', own')" by (cases rw)
  show ?case
  proof (cases "rw = (rc, own)")
    case True
    have "jr_JobID rc \<notin> rw_id ` set rws" using Cons.prems(3) True by simp
    then have "tbl_get (snd (reconcile_rows me ms env (Suc i) rws ?t1)) (jr_JobID rc) = tbl_get ?t1 (jr_JobID rc)"
      by (intro rows_skip) (use Cons.prems(1) in \<open>auto simp: one_wf image_iff\<close>)
    with one_get [OF Cons.prems(1), of me ms "env i" rc own] Cons.prems(4) [of i] True show ?thesis
      by (auto simp: rows_Cons)
  next
    case False
    then have mem: "(rc, own) \<in> set rws" using Cons.prems(2) by simp
    then have "jr_JobID rc \<in> rw_id ` set rws" by force
    moreover have "jr_JobID rc' \<notin> rw_id ` set rws" using Cons.prems(3) by (simp add: rw)
    ultimately have "jr_JobID rc \<noteq> jr_JobID rc'" by metis
    then have "tbl_get ?t1 (jr_JobID rc) = tbl_get t (jr_JobID rc)"
      using one_get [OF Cons.prems(1), of me ms "env i" rc' own'] by (simp add: rw)
    moreover have "\<exists>now. tbl_get (snd (reconcile_rows me ms env (Suc i) rws ?t1)) (jr_JobID rc) =
        map_option (after_claim JobFailed ErrServerRestarted me ms now) (tbl_get ?t1 (jr_JobID rc))"
      using Cons.IH [OF one_wf [OF Cons.prems(1)] mem] Cons.prems(3,4) by simp
    ultimately show ?thesis by (simp add: rows_Cons)
  qed
qed simp

lemma pruned_entry:
  "wf_table t \<Longrightarrow> rc \<in> set (fst (reconcile_rows me ms env i rws t)) \<Longrightarrow>
   \<exists>own k. (rc, own) \<in> set rws \<and> wants_prune rc \<and> \<not> isTerminal (jr_Status rc)
      \<and> \<not> pidAlive (env_kill (env k)) (own_Pid own) \<and> \<not> pidAlive (env_kill (env k)) (jr_PID rc)"
proof (induction rws arbitrary: i t)
  case (Cons rw rws)
  obtain rc' own' where rw: "rw = (rc', own')" by (cases rw)
  from Cons.prems(2) consider "rc \<in> set (fst (reconcile_one me ms (env i) rw t))"
    | "rc \<in> set (fst (reconcile_rows me ms env (Suc i) rws (snd (reconcile_one me ms (env i) rw t))))"
    by (auto simp: rows_Cons)
  then show ?case
  proof cases
    case 1
    then show ?thesis using one_pruned [OF Cons.prems(1), of rc me ms "env i" rc' own'] rw
      by (intro exI [of _ own'] exI [of _ i]) (auto simp: skip_row_def)
  next
    case 2
    then show ?thesis using Cons.IH [OF one_wf [OF Cons.prems(1)] 2] by auto
  qed
qed simp

text \<open>The entries the loop reads are the rows of the table.\<close>

definition entries :: "Table \<Rightarrow> (JobRecord \<times> ownerInfo) list" where
  "entries t = map (\<lambda>r. (row_rec r, \<lparr>own_Pid = row_ownerPid r\<rparr>)) t"

lemma Reconcile_eq:
  "Reconcile me ms True env t =
     (Some (length t), fst (reconcile_rows me ms env 0 (entries t) t), snd (reconcile_rows me ms env 0 (entries t) t))"
  by (simp add: Reconcile_def AllJobs_def entries_def zip_map_map zip_same_conv_map case_prod_beta comp_def)

lemma entries_distinct: "wf_table t \<Longrightarrow> distinct (map rw_id (entries t))"
  by (simp add: entries_def wf_table_def comp_def)

lemma entries_row: "wf_table t \<Longrightarrow> (rc, own) \<in> set (entries t) \<Longrightarrow> tbl_get t (jr_JobID rc) = Some row \<Longrightarrow>
   rc = row_rec row \<and> own_Pid own = row_ownerPid row"
  using tbl_get_mem [of t] by (fastforce simp: entries_def)

subsection \<open>Properties of the sweep\<close>

definition demo_row :: "string \<Rightarrow> JobStatus \<Rightarrow> int \<Rightarrow> int \<Rightarrow> Row" where
  "demo_row jid st owner pid = \<lparr>row_rec = zero_JobRecord\<lparr>jr_JobID := jid, jr_Mode := ModeWrite, jr_WorktreePath := ''/wt'',
      jr_PID := pid, jr_Status := st\<rparr>, row_ownerPid = owner, row_ownerStartedAt = [], row_updatedAt = 0, row_runSnapshot = []\<rparr>"

text \<open>Process 7 and process 50 exist, nothing else does.\<close>

definition demo_env :: "nat \<Rightarrow> Env" where
  "demo_env i = \<lparr>env_kill = (\<lambda>p. if p = 7 then KillOK else if p = 50 then KillEPERM else KillOther), env_ok = True, env_now = 9\<rparr>"

definition demo_tbl :: Table where
  "demo_tbl = [demo_row ''live'' JobRunning 7 8, demo_row ''dead'' JobRunning 3 4, demo_row ''orphan'' JobRunning 3 50]"

lemma demo_tbl_wf: "wf_table demo_tbl"
  by (simp add: demo_tbl_def demo_row_def wf_table_def zero_JobRecord_def)

lemma demo_tbl_get:
  "tbl_get demo_tbl ''live'' = Some (demo_row ''live'' JobRunning 7 8)"
  "tbl_get demo_tbl ''orphan'' = Some (demo_row ''orphan'' JobRunning 3 50)"
  by (simp_all add: demo_tbl_def demo_row_def tbl_get_def zero_JobRecord_def)

text \<open>the sweep is safe for concurrent servers. A row that is terminal or whose owner is alive
  throughout the sweep reads back unchanged and its worktree is not pruned; a non-terminal row whose
  owner is dead becomes failed with \<^verbatim>\<open>SERVER_RESTARTED\<close>, owned by the sweeping server, with every other
  field kept; every row is seen.\<close>

theorem Reconcile_spec:
  assumes wf: "wf_table t" and row: "tbl_get t jid = Some row"
    and same: "\<And>k. pidAlive (env_kill (env k)) (row_ownerPid row) = alive" and ok: "\<And>k. env_ok (env k)"
  shows "case Reconcile me ms True env t of (seen, pruned, t') \<Rightarrow>
     seen = Some (length t) \<and> wf_table t'
     \<and> (if isTerminal (row_status row) \<or> alive
        then tbl_get t' jid = Some row \<and> jid \<notin> jr_JobID ` set pruned
        else \<exists>now. tbl_get t' jid = Some (row\<lparr>row_rec := (row_rec row)\<lparr>jr_Status := JobFailed, jr_ErrorCode := ErrServerRestarted\<rparr>,
               row_ownerPid := me, row_ownerStartedAt := ms, row_updatedAt := now\<rparr>))"
proof -
  have id: "row_id row = jid" and mem: "row \<in> set t" using tbl_get_Some [OF row] by auto
  let ?own = "\<lparr>own_Pid = row_ownerPid row\<rparr>"
  have entry: "(row_rec row, ?own) \<in> set (entries t)" using mem by (auto simp: entries_def)
  have skip: "skip_row (env_kill (env k)) (row_rec row) ?own \<longleftrightarrow> isTerminal (row_status row) \<or> alive" for k
    by (simp add: skip_row_def same)
  note wf' = rows_wf [OF wf, of me ms env 0 "entries t"]
  show ?thesis
  proof (cases "isTerminal (row_status row) \<or> alive")
    case True
    have sk: "skip_row (env_kill (env k)) rc own" if "(rc, own) \<in> set (entries t)" "jr_JobID rc = jid" for rc own k
      using entries_row [OF wf that(1), of row] that(2) row True by (simp add: skip_row_def same)
    have "tbl_get (snd (reconcile_rows me ms env 0 (entries t) t)) jid = Some row"
      using rows_skip [OF wf, of "entries t" jid env] sk row by metis
    moreover have "jid \<notin> jr_JobID ` set (fst (reconcile_rows me ms env 0 (entries t) t))"
      using pruned_entry [OF wf, of _ me ms env 0 "entries t"] sk by (fastforce simp: skip_row_def)
    ultimately show ?thesis using True wf' by (simp add: Reconcile_eq case_prod_beta)
  next
    case False
    then have "\<exists>now. tbl_get (snd (reconcile_rows me ms env 0 (entries t) t)) jid =
        map_option (after_claim JobFailed ErrServerRestarted me ms now) (Some row)"
      using rows_claim [OF wf entry entries_distinct [OF wf], of env] skip ok id row by simp
    with False wf' show ?thesis by (auto simp: Reconcile_eq case_prod_beta after_claim_def isTerminal_IsTerminal)
  qed
qed

theorem Reconcile_spec_witness:
  "case Reconcile 100 ''s'' True demo_env demo_tbl of (seen, pruned, t') \<Rightarrow>
     seen = Some 3 \<and> tbl_get t' ''live'' = Some (demo_row ''live'' JobRunning 7 8)"
  using Reconcile_spec [OF demo_tbl_wf demo_tbl_get(1), where env = demo_env and alive = True and me = 100 and ms = "''s''"]
  by (simp add: demo_env_def demo_row_def pidAlive_def case_prod_beta) (simp add: demo_tbl_def)



subsection \<open>Many servers sweeping at once\<close>

text \<open>
  Every server's loop is at some row of the list it read, or has won a claim and is about to decide
  on the prune. Between two steps other servers may write their own jobs; what a registry writes never
  re-opens a terminal row (\<open>terminal_is_final\<close>).
\<close>

record Sweeper =
  sw_rows :: "(JobRecord \<times> ownerInfo) list"
  sw_pending :: "JobRecord option"

record Sweeps =
  ss_table :: Table
  ss_sweepers :: "int \<Rightarrow> Sweeper"
  ss_claims :: "string list"
  ss_prunes :: "string list"

definition set_sweeper :: "int \<Rightarrow> Sweeper \<Rightarrow> Sweeps \<Rightarrow> Sweeps" where
  "set_sweeper k w s = s\<lparr>ss_sweepers := (ss_sweepers s)(k := w)\<rparr>"

inductive sweep_step :: "Sweeps \<Rightarrow> Sweeps \<Rightarrow> bool" where
  load: "sw_rows (ss_sweepers s k) = [] \<Longrightarrow> sw_pending (ss_sweepers s k) = None \<Longrightarrow>
     sweep_step s (set_sweeper k \<lparr>sw_rows = entries (ss_table s), sw_pending = None\<rparr> s)"
| skip: "sw_rows (ss_sweepers s k) = (rc, own) # rest \<Longrightarrow> sw_pending (ss_sweepers s k) = None \<Longrightarrow>
     skip_row (env_kill (e :: Env)) rc own \<Longrightarrow>
     sweep_step s (set_sweeper k \<lparr>sw_rows = rest, sw_pending = None\<rparr> s)"
| claim: "sw_rows (ss_sweepers s k) = (rc, own) # rest \<Longrightarrow> sw_pending (ss_sweepers s k) = None \<Longrightarrow>
     \<not> skip_row (env_kill e) rc own \<Longrightarrow> reconcile_claim k ms e (jr_JobID rc) (ss_table s) = (won, t') \<Longrightarrow>
     sweep_step s (set_sweeper k \<lparr>sw_rows = rest, sw_pending = (if won \<and> wants_prune rc then Some rc else None)\<rparr>
        (s\<lparr>ss_table := t', ss_claims := ss_claims s @ (if won then [jr_JobID rc] else [])\<rparr>))"
| prune: "sw_pending (ss_sweepers s k) = Some rc \<Longrightarrow> \<not> pidAlive (env_kill (e :: Env)) (jr_PID rc) \<Longrightarrow>
     sweep_step s (set_sweeper k ((ss_sweepers s k)\<lparr>sw_pending := None\<rparr>) (s\<lparr>ss_prunes := ss_prunes s @ [jr_JobID rc]\<rparr>))"
| leave: "sw_pending (ss_sweepers s k) = Some rc \<Longrightarrow> pidAlive (env_kill (e :: Env)) (jr_PID rc) \<Longrightarrow>
     sweep_step s (set_sweeper k ((ss_sweepers s k)\<lparr>sw_pending := None\<rparr>) s)"
| serve: "(\<And>rc row. rc \<in> set recs \<Longrightarrow> tbl_get (ss_table s) (jr_JobID rc) = Some row \<Longrightarrow> IsTerminal (row_status row) \<Longrightarrow>
         row_ownerPid row = p \<or> row_ownerPid row = 0 \<Longrightarrow> IsTerminal (jr_Status rc)) \<Longrightarrow>
     sweep_step s (s\<lparr>ss_table := snd (UpsertJobs ok recs p ps now (ss_table s))\<rparr>)"

definition sweeps_init :: "Table \<Rightarrow> Sweeps" where
  "sweeps_init t = \<lparr>ss_table = t, ss_sweepers = (\<lambda>_. \<lparr>sw_rows = [], sw_pending = None\<rparr>), ss_claims = [], ss_prunes = []\<rparr>"

inductive sweeping :: "Sweeps \<Rightarrow> bool" where
  start: "wf_table t \<Longrightarrow> sweeping (sweeps_init t)"
| more: "sweeping s \<Longrightarrow> sweep_step s s' \<Longrightarrow> sweeping s'"

interpretation sw: transition_system "\<lambda>s. \<exists>t. wf_table t \<and> s = sweeps_init t" sweep_step sweeping
proof (unfold_locales, goal_cases)
  case (1 P s)
  from 1(3) show ?case by (induction rule: sweeping.induct) (use 1(1,2) in blast)+
qed

definition settled :: "Table \<Rightarrow> string \<Rightarrow> bool" where
  "settled t jid \<longleftrightarrow> (\<exists>row. tbl_get t jid = Some row \<and> IsTerminal (row_status row))"

definition claims_ok :: "Sweeps \<Rightarrow> bool" where
  "claims_ok s \<longleftrightarrow> wf_table (ss_table s) \<and> distinct (ss_claims s) \<and> (\<forall>jid \<in> set (ss_claims s). settled (ss_table s) jid)"

definition prunes_ok :: "Sweeps \<Rightarrow> bool" where
  "prunes_ok s \<longleftrightarrow> distinct (ss_prunes s) \<and> set (ss_prunes s) \<subseteq> set (ss_claims s)
     \<and> (\<forall>k rc. sw_pending (ss_sweepers s k) = Some rc \<longrightarrow> jr_JobID rc \<in> set (ss_claims s) - set (ss_prunes s))
     \<and> (\<forall>k k' rc rc'. sw_pending (ss_sweepers s k) = Some rc \<and> sw_pending (ss_sweepers s k') = Some rc' \<and> jr_JobID rc = jr_JobID rc' \<longrightarrow> k = k')"

lemma settled_upsert:
  assumes "wf_table t" and "settled t jid" and "row_id new = jid \<Longrightarrow>
     (\<And>row. tbl_get t jid = Some row \<Longrightarrow> row_ownerPid row = row_ownerPid new \<or> row_ownerPid row = 0 \<Longrightarrow> IsTerminal (row_status new))"
  shows "settled (upsert_row new t) jid"
  using assms tbl.get_upsert [OF assms(1), of new jid]
  by (auto simp: settled_def after_upsert_def split: if_splits)

text \<open>A batch that does not re-open a terminal row does not re-open it half-way either.\<close>

lemma settled_upserts:
  assumes "wf_table t" and "settled t jid"
    and "\<And>rc row. rc \<in> set recs \<Longrightarrow> jr_JobID rc = jid \<Longrightarrow> tbl_get t jid = Some row \<Longrightarrow>
      row_ownerPid row = p \<or> row_ownerPid row = 0 \<Longrightarrow> IsTerminal (jr_Status rc)"
  shows "settled (fold upsert_row (map (\<lambda>r. row_of r p ps now) recs) t) jid"
  using assms
proof (induction recs arbitrary: t)
  case (Cons rc recs)
  let ?t = "upsert_row (row_of rc p ps now) t"
  have set: "settled ?t jid"
    using Cons.prems by (intro settled_upsert) auto
  show ?case
  proof (simp, rule Cons.IH)
    fix rc' row'
    assume rc': "rc' \<in> set recs" "jr_JobID rc' = jid" and row': "tbl_get ?t jid = Some row'"
      "row_ownerPid row' = p \<or> row_ownerPid row' = 0"
    obtain row where row: "tbl_get t jid = Some row" using Cons.prems(2) by (auto simp: settled_def)
    have "row_ownerPid row = p \<or> row_ownerPid row = 0"
      using row'(1,2) row tbl.get_upsert [OF Cons.prems(1), of "row_of rc p ps now" jid]
      by (auto simp: after_upsert_def split: if_splits)
    with Cons.prems(3) [of rc' row] rc' row show "IsTerminal (jr_Status rc')" by simp
  qed (use set Cons.prems(1) in \<open>simp_all add: tbl.wf_upsert\<close>)
qed simp

lemma inv_claims: "sweep_step s s' \<Longrightarrow> claims_ok s \<Longrightarrow> claims_ok s'"
proof (induction rule: sweep_step.induct)
  case (claim s k rc own rest e ms won t')
  have wf: "wf_table (ss_table s)" using claim.prems by (simp add: claims_ok_def)
  have t': "t' = snd (reconcile_claim k ms e (jr_JobID rc) (ss_table s))"
    and won: "won = fst (reconcile_claim k ms e (jr_JobID rc) (ss_table s))" using claim(4) by simp_all
  have keep: "settled t' jid" if "settled (ss_table s) jid" for jid
    using that claim_get [OF wf, of k ms e "jr_JobID rc" jid] by (auto simp: settled_def t')
  moreover have "settled t' (jr_JobID rc) \<and> jr_JobID rc \<notin> set (ss_claims s)" if w: won
  proof -
    obtain row where "env_ok e" and row: "tbl_get (ss_table s) (jr_JobID rc) = Some row" "\<not> IsTerminal (row_status row)"
      using claim_won [OF wf, of k ms e "jr_JobID rc"] w won by auto
    then have "settled t' (jr_JobID rc)"
      using claim_get [OF wf, of k ms e "jr_JobID rc" "jr_JobID rc"] by (simp add: settled_def t')
    moreover have "\<not> settled (ss_table s) (jr_JobID rc)" using row by (simp add: settled_def)
    ultimately show ?thesis using claim.prems by (auto simp: claims_ok_def)
  qed
  ultimately show ?case
    using claim.prems claim_wf [OF wf, of k ms e "jr_JobID rc"] by (auto simp: claims_ok_def set_sweeper_def t')
next
  case (serve recs s p ok ps now)
  have wf: "wf_table (ss_table s)" using serve.prems by (simp add: claims_ok_def)
  have "settled (snd (UpsertJobs ok recs p ps now (ss_table s))) jid" if jid: "jid \<in> set (ss_claims s)" for jid
  proof (cases ok)
    case True
    have set: "settled (ss_table s) jid" using serve.prems jid by (simp add: claims_ok_def)
    then obtain row0 where row0: "tbl_get (ss_table s) jid = Some row0" "IsTerminal (row_status row0)" by (auto simp: settled_def)
    have "settled (fold upsert_row (map (\<lambda>r. row_of r p ps now) recs) (ss_table s)) jid"
      by (rule settled_upserts [OF wf set]) (use serve.hyps row0 in auto)
    with True show ?thesis by (simp add: UpsertJobs_def UpsertJobs_rows)
  qed (use serve.prems jid in \<open>simp add: claims_ok_def UpsertJobs_def\<close>)
  then show ?case using serve.prems wf by (simp add: claims_ok_def wf_UpsertJobs)
qed (auto simp: claims_ok_def set_sweeper_def)

text \<open>The ids a sweeper is about to decide on, as a partial map.\<close>

definition pend :: "Sweeps \<Rightarrow> int \<Rightarrow> string option" where
  "pend s k = map_option jr_JobID (sw_pending (ss_sweepers s k))"

lemma prunes_ok_pend: "prunes_ok s \<longleftrightarrow> distinct (ss_prunes s) \<and> set (ss_prunes s) \<subseteq> set (ss_claims s)
     \<and> ran (pend s) \<subseteq> set (ss_claims s) - set (ss_prunes s) \<and> inj_on (pend s) (dom (pend s))"
proof -
  have "(\<forall>k k' rc rc'. sw_pending (ss_sweepers s k) = Some rc \<and> sw_pending (ss_sweepers s k') = Some rc' \<and> jr_JobID rc = jr_JobID rc' \<longrightarrow> k = k')
     \<longleftrightarrow> inj_on (pend s) (dom (pend s))"
    by (auto simp: inj_on_def pend_def dom_def)
  moreover have "(\<forall>k rc. sw_pending (ss_sweepers s k) = Some rc \<longrightarrow> jr_JobID rc \<in> set (ss_claims s) - set (ss_prunes s))
     \<longleftrightarrow> ran (pend s) \<subseteq> set (ss_claims s) - set (ss_prunes s)"
    by (auto simp: ran_def pend_def)
  ultimately show ?thesis by (simp add: prunes_ok_def)
qed

lemma pend_set: "pend (set_sweeper k w s) = (pend s)(k := map_option jr_JobID (sw_pending w))"
  by (auto simp: pend_def set_sweeper_def)

lemma pend_reg [simp]: "pend (s\<lparr>ss_table := t\<rparr>) = pend s" "pend (s\<lparr>ss_claims := c\<rparr>) = pend s" "pend (s\<lparr>ss_prunes := p\<rparr>) = pend s"
  by (simp_all add: pend_def fun_eq_iff)

lemma pend_clear:
  "inj_on f (dom f) \<Longrightarrow> inj_on (f(k := None)) (dom (f(k := None)))" "ran (f(k := None)) \<subseteq> ran f"
  by (auto simp: inj_on_def dom_def ran_def)

lemma pend_clear_ran: "inj_on f (dom f) \<Longrightarrow> f k = Some x \<Longrightarrow> x \<notin> ran (f(k := None))"
  by (auto simp: inj_on_def dom_def ran_def)

lemma pend_add: "inj_on f (dom f) \<Longrightarrow> x \<notin> ran f \<Longrightarrow> inj_on (f(k := Some x)) (dom (f(k := Some x)))"
  by (auto simp: inj_on_def dom_def ran_def)

lemma ran_add: "ran (f(k := Some x)) \<subseteq> insert x (ran f)"
  by (auto simp: ran_def)

lemma set_sweeper_fields [simp]:
  "ss_claims (set_sweeper k w s) = ss_claims s" "ss_prunes (set_sweeper k w s) = ss_prunes s"
  by (simp_all add: set_sweeper_def)

lemma prunes_clear:
  assumes "prunes_ok s" and "sw_pending w = None"
  shows "prunes_ok (set_sweeper k w s)"
  using assms pend_clear(1) [of "pend s" k] subset_trans [OF pend_clear(2) [of "pend s" k]]
  by (simp add: prunes_ok_pend pend_set)

lemma inv_prunes: "sweep_step s s' \<Longrightarrow> claims_ok s \<Longrightarrow> prunes_ok s \<Longrightarrow> prunes_ok s'"
proof (induction rule: sweep_step.induct)
  case (claim s k rc own rest e ms won t')
  let ?s1 = "s\<lparr>ss_table := t', ss_claims := ss_claims s @ (if won then [jr_JobID rc] else [])\<rparr>"
  have s1: "prunes_ok ?s1" using claim.prems(2) by (auto simp: prunes_ok_pend)
  show ?case
  proof (cases "won \<and> wants_prune rc")
    case True
    have "\<not> settled (ss_table s) (jr_JobID rc)"
      using claim_won [of "ss_table s" k ms e "jr_JobID rc"] claim.prems(1) claim(4) True
      by (auto simp: claims_ok_def settled_def)
    then have "jr_JobID rc \<notin> set (ss_claims s)" using claim.prems(1) by (auto simp: claims_ok_def)
    then have "jr_JobID rc \<notin> ran (pend s)" "jr_JobID rc \<notin> set (ss_prunes s)"
      using claim.prems(2) by (auto simp: prunes_ok_pend)
    with claim.prems(2) True pend_add [of "pend s" "jr_JobID rc" k] ran_add [of "pend s" k "jr_JobID rc"] show ?thesis
      by (fastforce simp: prunes_ok_pend pend_set)
  next
    case False
    with s1 show ?thesis by (intro prunes_clear) auto
  qed
next
  case (prune s k rc e)
  have pk: "pend s k = Some (jr_JobID rc)" using prune(1) by (simp add: pend_def)
  have parts: "distinct (ss_prunes s)" "set (ss_prunes s) \<subseteq> set (ss_claims s)"
    "ran (pend s) \<subseteq> set (ss_claims s) - set (ss_prunes s)" "inj_on (pend s) (dom (pend s))"
    using prune.prems(2) by (simp_all add: prunes_ok_pend)
  have "jr_JobID rc \<in> ran (pend s)" using pk by (rule ranI)
  then have mem: "jr_JobID rc \<in> set (ss_claims s)" "jr_JobID rc \<notin> set (ss_prunes s)" using parts(3) by auto
  have "ran ((pend s)(k := None)) \<subseteq> set (ss_claims s) - set (ss_prunes s @ [jr_JobID rc])"
    using pend_clear(2) [of "pend s" k] pend_clear_ran [OF parts(4) pk] parts(3) by auto
  then show ?case
    using parts(1,2) mem pend_clear(1) [OF parts(4)] by (simp add: prunes_ok_pend pend_set)
qed (simp_all add: prunes_clear, simp add: prunes_ok_pend)

lemma sweeping_ok: "sweeping s \<Longrightarrow> claims_ok s \<and> prunes_ok s"
proof (rule sw.invariantI [of "\<lambda>s. claims_ok s \<and> prunes_ok s"])
  show "claims_ok s \<and> prunes_ok s" if "\<exists>t. wf_table t \<and> s = sweeps_init t" for s
    using that by (auto simp: claims_ok_def prunes_ok_def sweeps_init_def)
qed (use inv_claims inv_prunes in blast)+

text \<open>A server with pid 100 sweeps a table with one dead job, claims it and prunes its worktree.\<close>

definition sweep0 :: Sweeps where "sweep0 = sweeps_init [demo_row ''dead'' JobRunning 3 4]"
definition sweep1 :: Sweeps where
  "sweep1 = set_sweeper 100 \<lparr>sw_rows = entries (ss_table sweep0), sw_pending = None\<rparr> sweep0"
definition sweep2 :: Sweeps where
  "sweep2 = set_sweeper 100 \<lparr>sw_rows = [], sw_pending = Some (row_rec (demo_row ''dead'' JobRunning 3 4))\<rparr>
     (sweep1\<lparr>ss_table := snd (reconcile_claim 100 ''s'' (demo_env 0) ''dead'' (ss_table sweep1)), ss_claims := [''dead'']\<rparr>)"
definition sweep3 :: Sweeps where
  "sweep3 = set_sweeper 100 ((ss_sweepers sweep2 100)\<lparr>sw_pending := None\<rparr>) (sweep2\<lparr>ss_prunes := [''dead'']\<rparr>)"

lemma sweep_reach: "sweeping sweep3"
proof -
  let ?rc = "row_rec (demo_row ''dead'' JobRunning 3 4)"
  have "sweeping sweep0" unfolding sweep0_def by (rule sweeping.start) (simp add: wf_table_def)
  moreover have "sweep_step sweep0 sweep1"
    unfolding sweep1_def by (rule sweep_step.load) (simp_all add: sweep0_def sweeps_init_def)
  moreover have won: "reconcile_claim 100 ''s'' (demo_env 0) ''dead'' (ss_table sweep1) =
      (True, snd (reconcile_claim 100 ''s'' (demo_env 0) ''dead'' (ss_table sweep1)))"
    by (simp add: reconcile_claim_def ClaimTerminal_def sweep1_def set_sweeper_def sweep0_def sweeps_init_def demo_env_def
        claim_matches_def demo_row_def zero_JobRecord_def status_defs)
  have rw: "jr_JobID ?rc = ''dead''" "wants_prune ?rc" "jr_PID ?rc = 4"
    by (simp_all add: demo_row_def wants_prune_def zero_JobRecord_def)
  have "sweep_step sweep1 sweep2"
    using sweep_step.claim [of sweep1 100 ?rc "\<lparr>own_Pid = 3\<rparr>" "[]" "demo_env 0" "''s''" True] won rw
    by (simp add: sweep2_def) (simp add: sweep1_def set_sweeper_def sweep0_def sweeps_init_def entries_def demo_row_def skip_row_def
        demo_env_def pidAlive_def zero_JobRecord_def)
  moreover have "sweep_step sweep2 sweep3"
    using sweep_step.prune [of sweep2 100 ?rc "demo_env 0"] rw
    by (simp add: sweep3_def) (simp add: sweep2_def set_sweeper_def sweep1_def sweep0_def sweeps_init_def demo_env_def pidAlive_def)
  ultimately show ?thesis by (blast intro: sweeping.more)
qed

text \<open>C19: two starting servers never both prune the same job. However many servers sweep the shared
  table at once, and whatever the others write meanwhile, a job is claimed at most once and its
  worktree pruned at most once, by a server that won the claim; a claimed job stays terminal.\<close>

theorem prune_at_most_once:
  assumes "sweeping s"
  shows "distinct (ss_claims s) \<and> distinct (ss_prunes s) \<and> set (ss_prunes s) \<subseteq> set (ss_claims s)
    \<and> (\<forall>jid \<in> set (ss_claims s). \<exists>row. tbl_get (ss_table s) jid = Some row \<and> IsTerminal (row_status row))"
  using sweeping_ok [OF assms] by (auto simp: claims_ok_def prunes_ok_def settled_def)

theorem prune_at_most_once_witness:
  "ss_prunes sweep3 = [''dead''] \<and> (\<exists>row. tbl_get (ss_table sweep3) ''dead'' = Some row \<and> IsTerminal (row_status row))"
proof -
  have "ss_prunes sweep3 = [''dead'']" "ss_claims sweep3 = [''dead'']"
    by (simp_all add: sweep3_def sweep2_def)
  with prune_at_most_once [OF sweep_reach] show ?thesis by simp
qed

end
