(* ===== verification/Run_Store.thy ===== *)
theory Run_Store
  imports Live_Status
begin

text \<open>
  \<^verbatim>\<open>internal/runstore\<close>: reading pi's run files and the views derived from them. The file system
  is the record \<open>FS\<close> of observations; decoding bytes into the structs of \<open>Model\<close>, which
  \<^verbatim>\<open>encoding/json\<close> does by reflection on the struct tags, is the parameter \<open>dec\<close> (into a
  \<open>Run\<close>) or \<open>unm\<close> (into \<open>any\<close>). Nothing is assumed about them.
\<close>

datatype RunErr = ErrRunNotFound | ErrRead FsError | ErrDecode

subsection \<open>Reading one run file (runstore.go, lookup.go)\<close>

definition decodeRunFile :: "FS \<Rightarrow> (string \<Rightarrow> Run option) \<Rightarrow> string \<Rightarrow> RunErr + Run" where
  "decodeRunFile fs dec path =
     (case fs_ReadFile fs path of
        Inl e \<Rightarrow> Inl (ErrRead e)
      | Inr b \<Rightarrow> (case dec b of None \<Rightarrow> Inl ErrDecode | Some r \<Rightarrow> Inr r))"

definition ReadRun :: "FS \<Rightarrow> (string \<Rightarrow> Run option) \<Rightarrow> string \<Rightarrow> RunErr + Run" where
  "ReadRun fs dec path =
     (case decodeRunFile fs dec path of
        Inr r \<Rightarrow> Inr r
      | Inl err \<Rightarrow>
          (case decodeRunFile fs dec (path @ ''.bak'') of
             Inr r2 \<Rightarrow> Inr r2
           | Inl err2 \<Rightarrow> Inl err))"

definition hasJSONSuffix :: "string \<Rightarrow> bool" where
  "hasJSONSuffix name \<longleftrightarrow>
     HasSuffix name ''.json'' \<and> \<not> HasSuffix name ''.bak'' \<and> \<not> HasSuffix name ''.tmp''"

fun scan_session :: "FS \<Rightarrow> (string \<Rightarrow> Run option) \<Rightarrow> string \<Rightarrow> string \<Rightarrow> DirEntry list \<Rightarrow> string option" where
  "scan_session fs dec runsDir sid [] = None"
| "scan_session fs dec runsDir sid (e # es) =
     (if de_IsDir e \<or> \<not> hasJSONSuffix (de_Name e) then scan_session fs dec runsDir sid es
      else case ReadRun fs dec (Join [runsDir, de_Name e]) of
             Inl _ \<Rightarrow> scan_session fs dec runsDir sid es
           | Inr r \<Rightarrow>
               if run_SessionID r = sid \<and> sid \<noteq> [] then Some (run_RunID r)
               else scan_session fs dec runsDir sid es)"

definition RunIDForSession :: "FS \<Rightarrow> (string \<Rightarrow> Run option) \<Rightarrow> string \<Rightarrow> string \<Rightarrow> string option" where
  "RunIDForSession fs dec runsDir sid =
     (case fs_ReadDir fs runsDir of
        Inl _ \<Rightarrow> None
      | Inr entries \<Rightarrow> scan_session fs dec runsDir sid entries)"

definition Load :: "FS \<Rightarrow> (string \<Rightarrow> Run option) \<Rightarrow> string \<Rightarrow> string \<Rightarrow> RunErr + Run" where
  "Load fs dec runsDir runID =
     (let path = Join [runsDir, runID @ ''.json''] in
      if fs_Stat fs path = Inl ErrNotExist then Inl ErrRunNotFound
      else ReadRun fs dec path)"

definition RunsDir :: "string \<Rightarrow> string" where
  "RunsDir cwd = Join [cwd, RunsDirRel]"

subsection \<open>Derived views (histogram.go, result.go, intermediate.go, events.go)\<close>

fun hist_add :: "string \<Rightarrow> (string \<times> nat) list \<Rightarrow> (string \<times> nat) list" where
  "hist_add m [] = [(m, 1)]"
| "hist_add m ((k, n) # h) = (if k = m then (k, Suc n) # h else (k, n) # hist_add m h)"

definition ModelHistogram :: "Run \<Rightarrow> (string \<times> nat) list" where
  "ModelHistogram r =
     fold (\<lambda>a h. if ag_Model a = [] then h else hist_add (ag_Model a) h) (run_Agents r) []"

definition Metadata :: "Run \<Rightarrow> StatusMetadata" where
  "Metadata r = \<lparr>sm_ByModel = ModelHistogram r, sm_AgentCount = length (run_Agents r),
     sm_TokenUsage = run_TokenUsage r, sm_DurationMs = run_DurationMs r\<rparr>"

definition RawToAny :: "(string \<Rightarrow> any option) \<Rightarrow> string \<Rightarrow> any" where
  "RawToAny unm raw =
     (if length raw = 0 then ANil else case unm raw of None \<Rightarrow> ANil | Some v \<Rightarrow> v)"

text \<open>The loop \<^verbatim>\<open>for cut > 0 && (s[cut]&0xC0) == 0x80 { cut-- }\<close>.\<close>

fun back_cut :: "string \<Rightarrow> nat \<Rightarrow> nat" where
  "back_cut s 0 = 0"
| "back_cut s (Suc k) = (if cont_byte (s ! Suc k) then back_cut s k else Suc k)"

definition truncatePreview :: "string \<Rightarrow> int \<Rightarrow> string" where
  "truncatePreview s n =
     (if n \<le> 0 then []
      else if int (length s) \<le> n then s
      else take (back_cut s (nat n)) s)"

text \<open>The map \<^verbatim>\<open>byCallIndex\<close>: a later agent with the same call index replaces an earlier one.\<close>

definition byCallIndex :: "Agent list \<Rightarrow> int \<Rightarrow> Agent option" where
  "byCallIndex as = fold (\<lambda>a m. m(ag_CallIndex a \<mapsto> a)) as Map.empty"

definition intermediate_row :: "(string \<Rightarrow> any option) \<Rightarrow> int \<Rightarrow> Agent \<Rightarrow> JournalEntry \<Rightarrow> IntermediateResult" where
  "intermediate_row unm maxBytes ag j =
     (let big = maxBytes > 0 \<and> int (length (je_Result j)) > maxBytes in
      \<lparr>ir_Label = ag_Label ag, ir_Model = ag_Model ag, ir_Phase = ag_Phase ag,
       ir_Result = (if big then ANil else RawToAny unm (je_Result j)),
       ir_Preview = (if big then truncatePreview (je_Result j) maxBytes else []),
       ir_Truncated = big\<rparr>)"

fun intermediate_loop ::
    "(string \<Rightarrow> any option) \<Rightarrow> int \<Rightarrow> (int \<Rightarrow> Agent option) \<Rightarrow> JournalEntry list \<Rightarrow> IntermediateResult list" where
  "intermediate_loop unm maxBytes by [] = []"
| "intermediate_loop unm maxBytes by (j # js) =
     (case by (je_Index j) of
        None \<Rightarrow> intermediate_loop unm maxBytes by js
      | Some ag \<Rightarrow> intermediate_row unm maxBytes ag j # intermediate_loop unm maxBytes by js)"

definition Intermediates :: "(string \<Rightarrow> any option) \<Rightarrow> Run \<Rightarrow> int \<Rightarrow> IntermediateResult list" where
  "Intermediates unm r maxBytes =
     intermediate_loop unm maxBytes (byCallIndex (run_Agents r)) (run_Journal r)"

definition event_row :: "(string \<Rightarrow> any option) \<Rightarrow> bool \<Rightarrow> int \<Rightarrow> Agent \<Rightarrow> JournalEntry \<Rightarrow> StatusEvent" where
  "event_row unm includeResults maxBytes ag j =
     (let failed = (ag_Status ag = ''error'');
          big = maxBytes > 0 \<and> int (length (je_Result j)) > maxBytes in
      \<lparr>se_Label = ag_Label ag, se_Model = ag_Model ag, se_Phase = ag_Phase ag,
       se_Status = (if failed then ''error'' else ''ok''),
       se_Error = (if failed then (case ag_Error ag of None \<Rightarrow> [] | Some e \<Rightarrow> e) else []),
       se_Result = (if includeResults \<and> \<not> big then RawToAny unm (je_Result j) else ANil),
       se_Preview = (if includeResults \<and> big then truncatePreview (je_Result j) maxBytes else []),
       se_Truncated = (includeResults \<and> big)\<rparr>)"

fun events_loop ::
    "(string \<Rightarrow> any option) \<Rightarrow> bool \<Rightarrow> int \<Rightarrow> (int \<Rightarrow> Agent option) \<Rightarrow> JournalEntry list \<Rightarrow> StatusEvent list" where
  "events_loop unm inc maxBytes by [] = []"
| "events_loop unm inc maxBytes by (j # js) =
     (case by (je_Index j) of
        None \<Rightarrow> events_loop unm inc maxBytes by js
      | Some ag \<Rightarrow> event_row unm inc maxBytes ag j # events_loop unm inc maxBytes by js)"

definition EventsSince :: "(string \<Rightarrow> any option) \<Rightarrow> Run \<Rightarrow> int \<Rightarrow> bool \<Rightarrow> int \<Rightarrow> StatusEvent list" where
  "EventsSince unm r from0 inc maxBytes =
     (let n = int (length (run_Journal r));
          from1 = (if from0 < 0 then 0 else from0);
          from = (if from1 > n then n else from1) in
      events_loop unm inc maxBytes (byCallIndex (run_Agents r)) (drop (nat from) (run_Journal r)))"

subsection \<open>Listing (list.go)\<close>

definition updatedAt :: "Run \<Rightarrow> Time" where
  "updatedAt r = (case run_UpdatedAt r of Some t \<Rightarrow> t | None \<Rightarrow> 0)"

definition toListItem :: "Run \<Rightarrow> ListItem" where
  "toListItem r = \<lparr>lm_RunID = run_RunID r, lm_WorkflowName = run_WorkflowName r,
     lm_Status = run_Status r, lm_AgentCount = length (run_Agents r),
     lm_ByModel = ModelHistogram r,
     lm_Cost = map_option tu_Cost (run_TokenUsage r),
     lm_DurationMs = run_DurationMs r, lm_CompletedAt = run_CompletedAt r\<rparr>"

type_synonym scored = "ListItem \<times> Time"

fun scan_rows :: "FS \<Rightarrow> (string \<Rightarrow> Run option) \<Rightarrow> string \<Rightarrow> DirEntry list \<Rightarrow> scored list" where
  "scan_rows fs dec dir [] = []"
| "scan_rows fs dec dir (e # es) =
     (if de_IsDir e \<or> \<not> hasJSONSuffix (de_Name e) then scan_rows fs dec dir es
      else case ReadRun fs dec (Join [dir, de_Name e]) of
             Inl _ \<Rightarrow> scan_rows fs dec dir es
           | Inr r \<Rightarrow> (toListItem r, updatedAt r) # scan_rows fs dec dir es)"

definition newer :: "scored \<Rightarrow> scored \<Rightarrow> bool" where
  "newer a b =
     (if snd a = snd b then lm_RunID (fst a) > lm_RunID (fst b) else snd a > snd b)"

definition ListRuns :: "FS \<Rightarrow> (string \<Rightarrow> Run option) \<Rightarrow> string \<Rightarrow> int \<Rightarrow> FsError + ListItem list" where
  "ListRuns fs dec dir limit =
     (case fs_ReadDir fs dir of
        Inl ErrNotExist \<Rightarrow> Inr []
      | Inl e \<Rightarrow> Inl e
      | Inr entries \<Rightarrow>
          (let rows = SliceStable newer (scan_rows fs dec dir entries);
               rows' = (if limit > 0 \<and> int (length rows) > limit then take (nat limit) rows else rows)
           in Inr (map fst rows')))"

definition ListItems :: "FS \<Rightarrow> (string \<Rightarrow> Run option) \<Rightarrow> string \<Rightarrow> int \<Rightarrow> FsError + ListItem list" where
  "ListItems fs dec cwd limit = ListRuns fs dec (RunsDir cwd) limit"

subsection \<open>The authoring file (authoring.go)\<close>

definition AuthoringPath :: "string \<Rightarrow> string \<Rightarrow> string" where
  "AuthoringPath runsDir jobID = Join [runsDir, jobID @ ''.authoring'']"

text \<open>\<open>parse\<close> is \<^verbatim>\<open>time.Parse(time.RFC3339Nano, _)\<close>, of which only success matters.\<close>

definition ReadAuthoring ::
    "FS \<Rightarrow> (string \<Rightarrow> AuthoringInfo option) \<Rightarrow> (string \<Rightarrow> Time option) \<Rightarrow> string \<Rightarrow> string \<Rightarrow> AuthoringInfo option" where
  "ReadAuthoring fs dec parse runsDir jobID =
     (if jobID = [] then None
      else case fs_ReadFile fs (AuthoringPath runsDir jobID) of
             Inl _ \<Rightarrow> None
           | Inr b \<Rightarrow>
               (case dec b of
                  None \<Rightarrow> None
                | Some info \<Rightarrow>
                    if ai_UpdatedAt info = [] then None
                    else if parse (ai_UpdatedAt info) = None then None
                    else Some info))"

subsection \<open>Reference view of a runs directory\<close>

text \<open>The runs a directory scan can decode, in directory order.\<close>

definition readable_runs :: "FS \<Rightarrow> (string \<Rightarrow> Run option) \<Rightarrow> string \<Rightarrow> DirEntry list \<Rightarrow> Run list" where
  "readable_runs fs dec dir es =
     concat (map (\<lambda>e. if de_IsDir e \<or> \<not> hasJSONSuffix (de_Name e) then []
                      else case ReadRun fs dec (Join [dir, de_Name e]) of Inl _ \<Rightarrow> [] | Inr r \<Rightarrow> [r]) es)"

lemma readable_runs_Nil [simp]: "readable_runs fs dec dir [] = []"
  by (simp add: readable_runs_def)

lemma readable_runs_Cons [simp]:
  "readable_runs fs dec dir (e # es) =
     (if de_IsDir e \<or> \<not> hasJSONSuffix (de_Name e) then []
      else case ReadRun fs dec (Join [dir, de_Name e]) of Inl _ \<Rightarrow> [] | Inr r \<Rightarrow> [r])
     @ readable_runs fs dec dir es"
  by (simp add: readable_runs_def)

lemma scan_rows_readable:
  "scan_rows fs dec dir es = map (\<lambda>r. (toListItem r, updatedAt r)) (readable_runs fs dec dir es)"
  by (induction es) (auto split: sum.split)

lemma scan_session_readable:
  "scan_session fs dec dir sid es =
     (if sid = [] then None
      else map_option run_RunID (find (\<lambda>r. run_SessionID r = sid) (readable_runs fs dec dir es)))"
  by (induction es) (auto split: sum.split)

subsection \<open>Cutting at rune boundaries\<close>

lemma back_cut_le: "back_cut s n \<le> n"
  by (induction n) auto

lemma back_cut_start: "back_cut s n = 0 \<or> \<not> cont_byte (s ! back_cut s n)"
  by (induction n) auto

lemma back_cut_skipped: "back_cut s n < k \<Longrightarrow> k \<le> n \<Longrightarrow> cont_byte (s ! k)"
  by (induction n) (auto simp: le_Suc_eq split: if_splits)

lemma rune_enc_nth: "rune_enc r \<Longrightarrow> p < length r \<Longrightarrow> cont_byte (r ! p) \<longleftrightarrow> p \<noteq> 0"
  by (cases r; cases p) (auto simp: rune_enc_def)

lemma rune_starts:
  assumes "\<forall>r \<in> set rs. rune_enc r" and "p < length (concat rs)"
  shows "\<not> cont_byte (concat rs ! p) \<longleftrightarrow> (\<exists>k < length rs. p = length (concat (take k rs)))"
  using assms
proof (induction rs arbitrary: p)
  case Nil
  then show ?case by simp
next
  case (Cons r rs)
  show ?case
  proof (cases "p < length r")
    case True
    have "p = 0 \<longleftrightarrow> (\<exists>k < length (r # rs). p = length (concat (take k (r # rs))))"
    proof
      assume "p = 0"
      then show "\<exists>k < length (r # rs). p = length (concat (take k (r # rs)))"
        by (intro exI [of _ 0]) simp
    next
      assume "\<exists>k < length (r # rs). p = length (concat (take k (r # rs)))"
      then obtain k where "p = length (concat (take k (r # rs)))" by blast
      with True show "p = 0" by (cases k) auto
    qed
    with True Cons.prems(1) show ?thesis by (simp add: nth_append rune_enc_nth)
  next
    case False
    define q where "q = p - length r"
    with False have p: "p = length r + q" by simp
    have "(\<exists>k < length (r # rs). p = length (concat (take k (r # rs)))) \<longleftrightarrow>
          (\<exists>k < length rs. q = length (concat (take k rs)))" (is "?L \<longleftrightarrow> ?R")
    proof
      assume ?L
      then obtain k where k: "k < length (r # rs)" "p = length (concat (take k (r # rs)))" by blast
      then show ?R using Cons.prems(1) p by (cases k) (auto simp: rune_enc_def)
    next
      assume ?R
      then obtain k where "k < length rs" "q = length (concat (take k rs))" by blast
      then show ?L using p by (intro exI [of _ "Suc k"]) simp
    qed
    moreover have "\<not> cont_byte (concat rs ! q) \<longleftrightarrow> (\<exists>k < length rs. q = length (concat (take k rs)))"
      using Cons p by (intro Cons.IH) auto
    ultimately show ?thesis using p by (simp add: nth_append)
  qed
qed

lemma concat_take_append: "concat rs = concat (take k rs) @ concat (drop k rs)"
  by (metis append_take_drop_id concat_append)

text \<open>a preview never splits a rune and wastes no room. On any text made of rune encodings,
  truncation to \<open>n\<close> bytes keeps exactly the longest run of whole leading runes that fits.\<close>

theorem truncatePreview_runes:
  assumes runes: "\<forall>r \<in> set rs. rune_enc r" and pos: "0 < n"
  shows "\<exists>k \<le> length rs. truncatePreview (concat rs) n = concat (take k rs)
    \<and> int (length (concat (take k rs))) \<le> n
    \<and> (k < length rs \<longrightarrow> n < int (length (concat (take (Suc k) rs))))"
proof (cases "int (length (concat rs)) \<le> n")
  case True
  then show ?thesis
    using pos by (intro exI [of _ "length rs"]) (simp add: truncatePreview_def)
next
  case False
  let ?s = "concat rs" and ?c = "back_cut (concat rs) (nat n)"
  have lt: "nat n < length ?s" and c_le: "?c \<le> nat n"
    using False pos back_cut_le by auto
  have "rs \<noteq> []" using False pos by auto
  have "\<exists>k < length rs. ?c = length (concat (take k rs))"
  proof (cases "?c = 0")
    case True
    with \<open>rs \<noteq> []\<close> show ?thesis by (intro exI [of _ 0]) simp
  next
    case False
    then show ?thesis
      using rune_starts [OF runes, of ?c] back_cut_start [of ?s "nat n"] c_le lt by simp
  qed
  then obtain k where k: "k < length rs" "?c = length (concat (take k rs))" by blast
  have "n < int (length (concat (take (Suc k) rs)))"
  proof (rule ccontr)
    let ?d = "length (concat (take (Suc k) rs))"
    assume "\<not> ?thesis"
    then have d: "?d \<le> nat n" by linarith
    then have "Suc k < length rs"
      using lt k(1) by (metis Suc_leI leD le_neq_implies_less take_all order.refl)
    with d lt have "\<not> cont_byte (?s ! ?d)"
      using rune_starts [OF runes, of ?d] by auto
    moreover have "?c < ?d"
      using k runes by (auto simp: take_Suc_conv_app_nth rune_enc_def)
    ultimately show False using back_cut_skipped d by blast
  qed
  moreover have "truncatePreview ?s n = concat (take k rs)"
    using False pos k(2) concat_take_append [of rs k] by (simp add: truncatePreview_def)
  ultimately show ?thesis
    using k c_le pos by (intro exI [of _ k]) auto
qed

text \<open>Two two-byte runes, cut at three bytes: the first rune alone is kept.\<close>

theorem truncatePreview_runes_witness:
  "\<exists>k \<le> length [bytes [195, 169], bytes [195, 168]].
     truncatePreview (concat [bytes [195, 169], bytes [195, 168]]) 3
       = concat (take k [bytes [195, 169], bytes [195, 168]])
     \<and> int (length (concat (take k [bytes [195, 169], bytes [195, 168]]))) \<le> 3
     \<and> (k < length [bytes [195, 169], bytes [195, 168]] \<longrightarrow>
          3 < int (length (concat (take (Suc k) [bytes [195, 169], bytes [195, 168]]))))"
  by (rule truncatePreview_runes) (simp_all add: rune_enc_def bytes_def)

subsection \<open>Listing\<close>

interpretation runs: weak_order newer
  by unfold_locales (auto simp: newer_def split: if_splits)

text \<open>a listing is complete, newest first and capped. Whatever the directory holds, the rows
  are the first \<open>limit\<close> (all of them for a non-positive limit) of a rearrangement of the decodable
  run files' rows in which no row is followed by a newer one, ties going to the larger run id;
  rows that tie in both keep directory order. A missing directory is an empty list, any other read
  failure is passed on.\<close>

theorem ListRuns_spec:
  "(case fs_ReadDir fs dir of
      Inl e \<Rightarrow> ListRuns fs dec dir limit = (if e = ErrNotExist then Inr [] else Inl e)
    | Inr es \<Rightarrow>
        (\<exists>rows. ListRuns fs dec dir limit = Inr (map fst (if limit > 0 then take (nat limit) rows else rows))
          \<and> mset rows = mset (map (\<lambda>r. (toListItem r, updatedAt r)) (readable_runs fs dec dir es))
          \<and> sorted_wrt (\<lambda>a b. \<not> newer b a) rows
          \<and> (\<forall>z. filter (runs.tied z) rows
                 = filter (runs.tied z) (map (\<lambda>r. (toListItem r, updatedAt r)) (readable_runs fs dec dir es)))))"
proof (cases "fs_ReadDir fs dir")
  case (Inl e)
  then show ?thesis by (cases e) (simp_all add: ListRuns_def)
next
  case (Inr es)
  let ?rows = "SliceStable newer (scan_rows fs dec dir es)"
  have "ListRuns fs dec dir limit = Inr (map fst (if limit > 0 then take (nat limit) ?rows else ?rows))"
    using Inr by (auto simp: ListRuns_def Let_def)
  then show ?thesis
    using Inr runs.sorted_SliceStable [of "scan_rows fs dec dir es"] runs.stable_SliceStable
    by (auto simp: scan_rows_readable intro!: exI [of _ ?rows])
qed

subsection \<open>Correlation by session\<close>

text \<open>correlating a session finds the run of the first decodable run file that carries it and
  nothing else; an empty session id matches no run, and a directory that cannot be read yields no
  run rather than an error.\<close>

theorem RunIDForSession_spec:
  "RunIDForSession fs dec dir sid =
     (case fs_ReadDir fs dir of
        Inl _ \<Rightarrow> None
      | Inr es \<Rightarrow>
          if sid = [] then None
          else map_option run_RunID (find (\<lambda>r. run_SessionID r = sid) (readable_runs fs dec dir es)))"
  by (simp add: RunIDForSession_def scan_session_readable split: sum.split)

subsection \<open>Reading with the backup\<close>

text \<open>a run file is recovered from its backup exactly when the primary is unreadable or corrupt
  and the backup decodes; when both fail the primary's error is reported.\<close>

theorem ReadRun_recovers:
  "ReadRun fs dec path =
     (if isl (decodeRunFile fs dec path) \<and> \<not> isl (decodeRunFile fs dec (path @ ''.bak''))
      then decodeRunFile fs dec (path @ ''.bak'') else decodeRunFile fs dec path)"
  by (simp add: ReadRun_def isl_def split: sum.split)

subsection \<open>The histogram\<close>

lemma map_of_hist_add:
  "map_of (hist_add m h) k =
     (if k = m then Some (case map_of h m of None \<Rightarrow> 1 | Some n \<Rightarrow> Suc n) else map_of h k)"
proof (induction h)
  case (Cons p h)
  then show ?case by (cases p) (auto split: option.split)
qed simp

lemma keys_hist_add: "set (map fst (hist_add m h)) = insert m (set (map fst h))"
proof (induction h)
  case (Cons p h)
  then show ?case by (cases p) (simp add: insert_commute)
qed simp

lemma distinct_hist_add: "distinct (map fst h) \<Longrightarrow> distinct (map fst (hist_add m h))"
proof (induction h)
  case (Cons p h)
  then show ?case using keys_hist_add [of m h] by (cases p) auto
qed simp

lemma hist_fold:
  "map_of (fold (\<lambda>a h. if ag_Model a = [] then h else hist_add (ag_Model a) h) as h) k =
     (if k = [] \<or> count_if (\<lambda>a. ag_Model a = k) as = 0 then map_of h k
      else Some ((case map_of h k of None \<Rightarrow> 0 | Some n \<Rightarrow> n) + count_if (\<lambda>a. ag_Model a = k) as))"
  by (induction as arbitrary: h) (auto simp: map_of_hist_add split: option.split)

lemma distinct_hist_fold:
  "distinct (map fst h) \<Longrightarrow>
   distinct (map fst (fold (\<lambda>a h. if ag_Model a = [] then h else hist_add (ag_Model a) h) as h))"
  by (induction as arbitrary: h) (auto simp: distinct_hist_add)

text \<open>the model histogram counts every agent with a non-empty model once and has no bucket for
  the empty model, none with count zero and no duplicate bucket.\<close>

theorem ModelHistogram_counts:
  "distinct (map fst (ModelHistogram r))
   \<and> map_of (ModelHistogram r) m =
       (let n = length (filter (\<lambda>a. ag_Model a = m) (run_Agents r))
        in if m = [] \<or> n = 0 then None else Some n)"
  by (auto simp: ModelHistogram_def hist_fold distinct_hist_fold count_if_def Let_def)

subsection \<open>Events and intermediate results\<close>

lemma events_loop_append [simp]:
  "events_loop unm inc mb by (xs @ ys) = events_loop unm inc mb by xs @ events_loop unm inc mb by ys"
  by (induction xs) (auto split: option.split)

lemma events_loop_conv:
  "events_loop unm inc mb by js =
     concat (map (\<lambda>j. case by (je_Index j) of None \<Rightarrow> [] | Some ag \<Rightarrow> [event_row unm inc mb ag j]) js)"
  by (induction js) (auto split: option.split)

lemma EventsSince_nat:
  "from \<le> length (run_Journal r) \<Longrightarrow>
   EventsSince unm r (int from) inc mb =
     events_loop unm inc mb (byCallIndex (run_Agents r)) (drop from (run_Journal r))"
  by (simp add: EventsSince_def Let_def)

lemma byCallIndex_fold:
  "fold (\<lambda>a m. m(ag_CallIndex a \<mapsto> a)) as m i =
     (case find (\<lambda>a. ag_CallIndex a = i) (rev as) of None \<Rightarrow> m i | Some a \<Rightarrow> Some a)"
proof (induction as arbitrary: m)
  case (Cons a as)
  then show ?case by (simp add: find_append split: option.split)
qed simp

text \<open>The join is by call index: the last agent with that index, never by position or id.\<close>

lemma byCallIndex_last: "byCallIndex as i = find (\<lambda>a. ag_CallIndex a = i) (rev as)"
  by (simp add: byCallIndex_def byCallIndex_fold split: option.split)

lemma intermediate_events:
  "map (\<lambda>e. (ir_Label e, ir_Model e, ir_Phase e, ir_Result e, ir_Preview e, ir_Truncated e))
     (intermediate_loop unm mb by js)
   = map (\<lambda>e. (se_Label e, se_Model e, se_Phase e, se_Result e, se_Preview e, se_Truncated e))
     (events_loop unm True mb by js)"
  by (induction js) (auto simp: intermediate_row_def event_row_def Let_def split: option.split)

text \<open>the dashboard's intermediate list and a full replay of the delta protocol show the same
  rows: one per journal entry with a matching agent, in completion order, with the same label,
  model, phase, result, preview and truncation flag.\<close>

theorem Intermediates_eq_full_replay:
  "map (\<lambda>e. (ir_Label e, ir_Model e, ir_Phase e, ir_Result e, ir_Preview e, ir_Truncated e))
     (Intermediates unm r mb)
   = map (\<lambda>e. (se_Label e, se_Model e, se_Phase e, se_Result e, se_Preview e, se_Truncated e))
     (EventsSince unm r 0 True mb)"
  by (simp add: Intermediates_def EventsSince_def Let_def intermediate_events)

end
