(* ===== verification/Mcp_Handlers.thy ===== *)
theory Mcp_Handlers
  imports Run_Store Registry_Durable
begin

text \<open>
  \<^verbatim>\<open>internal/mcpserver\<close>: input validation (\<^verbatim>\<open>validate.go\<close>) and the handlers of \<^verbatim>\<open>pi_workflow\<close>,
  \<^verbatim>\<open>pi_list\<close> and \<^verbatim>\<open>pi_cancel\<close>. A handler returns the tool's output or an error; the jobs service it
  calls (\<^verbatim>\<open>ports.go\<close>) is an interface, stated as a locale and interpreted on the registry.
\<close>

datatype McpErr =
    TaskRequired | ModeRequired | InvalidMode string
  | CwdRequired | CwdDotDot string | CwdNotAbs string | CwdMissing string FsError | CwdNotDir string | CwdSymlink string FsError
  | JobIdRequired | UnknownJobId string | NeedJobOrRun | SubmitFailed string | ListFailed FsError

subsection \<open>Validation\<close>

definition validateMode :: "string \<Rightarrow> McpErr + JobMode" where
  "validateMode m =
     (if m = ModeRead then Inr ModeRead
      else if m = ModeWrite then Inr ModeWrite
      else if m = [] then Inl ModeRequired
      else Inl (InvalidMode m))"

definition validateCWD :: "FS \<Rightarrow> string \<Rightarrow> McpErr + string" where
  "validateCWD fs p =
     (if TrimSpace p = [] then Inl CwdRequired
      else if ''..'' \<in> set (Split slash p) then Inl (CwdDotDot p)
      else if \<not> IsAbs p then Inl (CwdNotAbs p)
      else case fs_Stat fs p of
             Inl e \<Rightarrow> Inl (CwdMissing p e)
           | Inr info \<Rightarrow>
               if \<not> fi_IsDir info then Inl (CwdNotDir p)
               else case fs_EvalSymlinks fs p of
                      Inl e \<Rightarrow> Inl (CwdSymlink p e)
                    | Inr resolved \<Rightarrow> Inr resolved)"

subsection \<open>Handlers\<close>

record JobSpec =
  js_Task :: string
  js_Mode :: JobMode
  js_CWD :: string
  js_Context :: string

text \<open>\<open>submit\<close> is the jobs service's \<^verbatim>\<open>Submit\<close> on its state \<open>'r\<close>.\<close>

definition handleWorkflow ::
    "FS \<Rightarrow> (JobSpec \<Rightarrow> 'r \<Rightarrow> (string + JobRecord) \<times> 'r) \<Rightarrow> WorkflowInput \<Rightarrow> 'r \<Rightarrow> (McpErr + WorkflowOutput) \<times> 'r" where
  "handleWorkflow fs submit inp r =
     (if TrimSpace (wi_Task inp) = [] then (Inl TaskRequired, r)
      else case validateMode (wi_Mode inp) of
             Inl e \<Rightarrow> (Inl e, r)
           | Inr mode \<Rightarrow>
               (case validateCWD fs (wi_CWD inp) of
                  Inl e \<Rightarrow> (Inl e, r)
                | Inr cwd \<Rightarrow>
                    (case submit \<lparr>js_Task = wi_Task inp, js_Mode = mode, js_CWD = cwd, js_Context = wi_Context inp\<rparr> r of
                       (Inl e, r') \<Rightarrow> (Inl (SubmitFailed e), r')
                     | (Inr rc, r') \<Rightarrow>
                         (Inr \<lparr>wo_JobID = jr_JobID rc, wo_Status = jr_Status rc, wo_Mode = jr_Mode rc, wo_CWD = jr_CWD rc,
                               wo_WorktreePath = (if jr_Mode rc = ModeWrite then jr_WorktreePath rc else []),
                               wo_StartedAt = jr_StartedAt rc\<rparr>, r'))))"

definition defaultListLimit :: int where "defaultListLimit = 20"

definition handleList :: "FS \<Rightarrow> (string \<Rightarrow> Run option) \<Rightarrow> ListInput \<Rightarrow> McpErr + ListItem list" where
  "handleList fs dec inp =
     (case validateCWD fs (li_CWD inp) of
        Inl e \<Rightarrow> Inl e
      | Inr cwd \<Rightarrow>
          (let limit = (if li_Limit inp \<le> 0 then defaultListLimit else li_Limit inp) in
           case ListItems fs dec cwd limit of
             Inl e \<Rightarrow> Inl (ListFailed e)
           | Inr items \<Rightarrow> Inr items))"

definition handleCancel :: "(string \<Rightarrow> 'r \<Rightarrow> JobRecord option \<times> 'r) \<Rightarrow> string \<Rightarrow> 'r \<Rightarrow> (McpErr + CancelOutput) \<times> 'r" where
  "handleCancel cancel jobID r =
     (if TrimSpace jobID = [] then (Inl JobIdRequired, r)
      else case cancel jobID r of
             (None, r') \<Rightarrow> (Inl (UnknownJobId jobID), r')
           | (Some rc, r') \<Rightarrow> (Inr \<lparr>co_JobID = jr_JobID rc, co_Status = jr_Status rc\<rparr>, r'))"

subsection \<open>The jobs service\<close>

text \<open>What the handlers rely on: cancelling a known job ends it, tells the truth about it, is
  idempotent and touches no other job.\<close>

locale jobs_service =
  fixes inv :: "'r \<Rightarrow> bool"
    and lookup :: "string \<Rightarrow> 'r \<Rightarrow> JobRecord option"
    and cancel :: "string \<Rightarrow> 'r \<Rightarrow> JobRecord option \<times> 'r"
  assumes cancel_unknown: "inv r \<Longrightarrow> lookup jid r = None \<Longrightarrow> cancel jid r = (None, r)"
    and cancel_known: "inv r \<Longrightarrow> lookup jid r = Some rc \<Longrightarrow>
      \<exists>rc' r'. cancel jid r = (Some rc', r') \<and> lookup jid r' = Some rc' \<and> isTerminal (jr_Status rc') \<and> jr_JobID rc' = jid"
    and cancel_terminal: "inv r \<Longrightarrow> lookup jid r = Some rc \<Longrightarrow> isTerminal (jr_Status rc) \<Longrightarrow> cancel jid r = (Some rc, r)"
    and cancel_other: "inv r \<Longrightarrow> jid' \<noteq> jid \<Longrightarrow> lookup jid' (snd (cancel jid r)) = lookup jid' r"
    and cancel_inv: "inv r \<Longrightarrow> inv (snd (cancel jid r))"
begin

lemma handler_ends_job:
  assumes "inv r" and "TrimSpace jid \<noteq> []" and "lookup jid r = Some rc"
  shows "\<exists>out r'. handleCancel cancel jid r = (Inr out, r') \<and> co_JobID out = jid \<and> isTerminal (co_Status out)
    \<and> (\<exists>rc'. lookup jid r' = Some rc' \<and> jr_Status rc' = co_Status out)"
  using cancel_known [OF assms(1,3)] assms(2) by (auto simp: handleCancel_def)

lemma handler_idempotent:
  assumes "inv r" and "handleCancel cancel jid r = (Inr out, r')"
  shows "handleCancel cancel jid r' = (Inr out, r')"
proof -
  obtain rc where trim: "TrimSpace jid \<noteq> []" and c: "cancel jid r = (Some rc, r')"
    and out: "out = \<lparr>co_JobID = jr_JobID rc, co_Status = jr_Status rc\<rparr>"
    using assms(2) by (auto simp: handleCancel_def split: if_splits prod.splits option.splits)
  have "lookup jid r \<noteq> None" using cancel_unknown [OF assms(1), of jid] c by auto
  then have l: "lookup jid r' = Some rc" "isTerminal (jr_Status rc)" using cancel_known [OF assms(1)] c by fastforce+
  have "inv r'" using cancel_inv [OF assms(1), of jid] c by simp
  then show ?thesis using cancel_terminal [OF _ l] trim out by (simp add: handleCancel_def)
qed

lemma handler_other: "inv r \<Longrightarrow> jid' \<noteq> jid \<Longrightarrow> lookup jid' (snd (handleCancel cancel jid r)) = lookup jid' r"
  using cancel_other [of r jid' jid] by (auto simp: handleCancel_def split: prod.split option.split)

end

text \<open>The registry provides it in every state it can reach.\<close>

definition reg_inv :: "Registry \<Rightarrow> bool" where
  "reg_inv r \<longleftrightarrow> (\<exists>s. reachable s \<and> sy_reg s = r)"

definition registry_cancel :: "Time \<Rightarrow> bool \<Rightarrow> string \<Rightarrow> Registry \<Rightarrow> JobRecord option \<times> Registry" where
  "registry_cancel now ok jobID r = (case Cancel jobID now ok r of (res, act, dbl, r') \<Rightarrow> (res, r'))"

lemma Cancel_jobs: "Cancel jid now ok r = (res, act, dbl, r') \<Longrightarrow> rg_jobs r' = rg_jobs r"
  using Cancel_flush by fastforce

lemma Cancel_other_mem:
  "Cancel jid now ok r = (res, act, dbl, r') \<Longrightarrow> map_of (rg_jobs r) jid = Some a \<Longrightarrow> b \<noteq> a \<Longrightarrow> rg_mem r' ! b = rg_mem r ! b"
  by (auto simp: Cancel_def Let_def removeFromQueueUnlocked_def split: if_splits)

lemma registered_ids:
  assumes "reachable s" and "map_of (rg_jobs (sy_reg s)) jid = Some a"
  shows "jr_JobID (jb_Record (jobs_of s ! a)) = jid"
  using map_okD(3) [OF reachable_parts(5) [OF assms(1)] assms(2)] .

interpretation reg_svc: jobs_service reg_inv Lookup "registry_cancel now ok" for now ok
proof (unfold_locales, goal_cases)
  case (1 r jid)
  then have "map_of (rg_jobs r) jid = None" by (simp add: Lookup_def)
  then show ?case by (simp add: registry_cancel_def Cancel_def)
next
  case (2 r jid rc)
  then obtain s a where s: "reachable s" "sy_reg s = r" and a: "map_of (rg_jobs r) jid = Some a" "rc = jb_Record (rg_mem r ! a)"
    by (auto simp: reg_inv_def Lookup_def)
  obtain res act dbl r' where c: "Cancel jid now ok r = (res, act, dbl, r')" by (metis prod_cases4)
  have br: "if isTerminal (job_status (rg_mem r ! a)) then res = Some (jb_Record (rg_mem r ! a)) \<and> act = NoAction \<and> r' = r
      else res = Some (jb_Record (rg_mem r' ! a)) \<and> job_status (rg_mem r' ! a) = JobAborted"
    using Cancel_branches [OF s(1), of jid now ok res act dbl r'] c a s(2) by (auto split: if_splits)
  have jobs: "map_of (rg_jobs r') jid = Some a" using Cancel_jobs [OF c] a(1) by simp
  have t: "reachable (do_cancel_after act ((cancelled_pc jid s)\<lparr>sy_reg := r', sy_panic := (sy_panic s \<or> dbl), sy_dirty := cancel_dirty jid ok s\<rparr>))"
    using reachable.more [OF s(1) step.cancel] c s(2) by simp
  have "jr_JobID (jb_Record (rg_mem r' ! a)) = jid"
    using registered_ids [OF t, of jid a] jobs by simp
  with br jobs c show ?case by (auto simp: registry_cancel_def Lookup_def split: if_splits)
next
  case (3 r jid rc)
  then show ?case by (auto simp: registry_cancel_def Lookup_def Cancel_def)
next
  case (4 r jid' jid)
  then obtain s where s: "reachable s" "sy_reg s = r" by (auto simp: reg_inv_def)
  obtain res act dbl r' where c: "Cancel jid now ok r = (res, act, dbl, r')" by (metis prod_cases4)
  show ?case
  proof (cases "map_of (rg_jobs r) jid")
    case None
    then show ?thesis by (simp add: registry_cancel_def Cancel_def)
  next
    case (Some a)
    have "b \<noteq> a" if "map_of (rg_jobs r) jid' = Some b" for b
      using registered_ids [OF s(1)] Some that s(2) 4(2) by metis
    then show ?thesis
      using Cancel_jobs [OF c] Cancel_other_mem [OF c Some] c
      by (cases "map_of (rg_jobs r) jid'") (simp_all add: registry_cancel_def Lookup_def)
  qed
next
  case (5 r jid)
  then obtain s where s: "reachable s" "sy_reg s = r" by (auto simp: reg_inv_def)
  obtain res act dbl r' where c: "Cancel jid now ok r = (res, act, dbl, r')" by (metis prod_cases4)
  have "reachable (do_cancel_after act ((cancelled_pc jid s)\<lparr>sy_reg := r', sy_panic := (sy_panic s \<or> dbl), sy_dirty := cancel_dirty jid ok s\<rparr>))"
    using reachable.more [OF s(1) step.cancel] c s(2) by simp
  then show ?case using c by (auto simp: registry_cancel_def reg_inv_def)
qed

subsection \<open>Properties\<close>

text \<open>C29: \<^verbatim>\<open>pi_cancel\<close> on the registry. For a registered job of any reachable registry the tool
  answers with that job's id and a terminal status, which is the status the registry holds from then
  on; repeating the call gives the same answer and changes nothing; no other job is affected.\<close>

theorem handleCancel_ends_job:
  assumes "reachable s" and "TrimSpace jid \<noteq> []" and "Lookup jid (sy_reg s) = Some rc"
  shows "\<exists>out r'. handleCancel (registry_cancel now ok) jid (sy_reg s) = (Inr out, r')
    \<and> co_JobID out = jid \<and> isTerminal (co_Status out) \<and> (\<exists>rc'. Lookup jid r' = Some rc' \<and> jr_Status rc' = co_Status out)
    \<and> handleCancel (registry_cancel now ok) jid r' = (Inr out, r')
    \<and> (\<forall>jid'. jid' = jid \<or> Lookup jid' r' = Lookup jid' (sy_reg s))"
proof -
  have inv: "reg_inv (sy_reg s)" using assms(1) by (auto simp: reg_inv_def)
  obtain out r' where h: "handleCancel (registry_cancel now ok) jid (sy_reg s) = (Inr out, r')"
    and o: "co_JobID out = jid" "isTerminal (co_Status out)" "\<exists>rc'. Lookup jid r' = Some rc' \<and> jr_Status rc' = co_Status out"
    using reg_svc.handler_ends_job [OF inv assms(2,3)] by blast
  have "Lookup jid' r' = Lookup jid' (sy_reg s)" if "jid' \<noteq> jid" for jid'
    using reg_svc.handler_other [OF inv that, of now ok] h by simp
  with h o reg_svc.handler_idempotent [OF inv h] show ?thesis by blast
qed

lemma trim_plain: "find (\<lambda>r. r \<noteq> [] \<and> HasPrefix s r) rs = None \<Longrightarrow> trim_front rs s = s"
  by (simp add: trim_front.simps)

lemma TrimSpace_j2: "TrimSpace ''j2'' = ''j2''"
  by (simp add: TrimSpace_def trim_plain space_runes_def bytes_def HasPrefix_def char_of_def bit_iff_odd)

theorem handleCancel_ends_job_witness:
  "\<exists>out r'. handleCancel (registry_cancel 6 True) ''j2'' (sy_reg demo2) = (Inr out, r') \<and> isTerminal (co_Status out)"
proof -
  have "\<exists>rc. Lookup ''j2'' (sy_reg demo2) = Some rc" by (simp add: Lookup_def demo2_def demo1_def demo_regs)
  then obtain rc where "Lookup ''j2'' (sy_reg demo2) = Some rc" by blast
  from handleCancel_ends_job [OF demo_reachable2 _ this, of 6 True] show ?thesis by (auto simp: TrimSpace_j2)
qed

text \<open>a working directory is accepted only if it is safe, and then resolved. \<^verbatim>\<open>validateCWD\<close>
  succeeds exactly on a non-blank absolute path without a \<^verbatim>\<open>..\<close> segment that names an existing
  directory whose symbolic links resolve, and returns the resolved path.\<close>

theorem validateCWD_exact:
  "validateCWD fs p = Inr q \<longleftrightarrow>
     TrimSpace p \<noteq> [] \<and> ''..'' \<notin> set (Split slash p) \<and> IsAbs p
     \<and> (\<exists>info. fs_Stat fs p = Inr info \<and> fi_IsDir info) \<and> fs_EvalSymlinks fs p = Inr q"
  by (auto simp: validateCWD_def split: sum.split)

text \<open>\<^verbatim>\<open>pi_workflow\<close> submits nothing it has not validated. The jobs service is called exactly when
  the task is not blank, the mode is read or write and the directory is accepted, and then with the
  resolved directory; otherwise the service's state is untouched and the error names the first
  check that failed. The output shows the submitted job, with the worktree for a write job only.\<close>

theorem handleWorkflow_validates:
  "handleWorkflow fs submit inp r =
     (if TrimSpace (wi_Task inp) = [] then (Inl TaskRequired, r)
      else if wi_Mode inp = [] then (Inl ModeRequired, r)
      else if wi_Mode inp \<notin> {ModeRead, ModeWrite} then (Inl (InvalidMode (wi_Mode inp)), r)
      else case validateCWD fs (wi_CWD inp) of
        Inl e \<Rightarrow> (Inl e, r)
      | Inr cwd \<Rightarrow>
          (let res = submit \<lparr>js_Task = wi_Task inp, js_Mode = wi_Mode inp, js_CWD = cwd, js_Context = wi_Context inp\<rparr> r in
           (case fst res of
              Inl e \<Rightarrow> Inl (SubmitFailed e)
            | Inr rc \<Rightarrow> Inr \<lparr>wo_JobID = jr_JobID rc, wo_Status = jr_Status rc, wo_Mode = jr_Mode rc, wo_CWD = jr_CWD rc,
                wo_WorktreePath = (if jr_Mode rc = ModeWrite then jr_WorktreePath rc else []), wo_StartedAt = jr_StartedAt rc\<rparr>, snd res)))"
  by (auto simp: handleWorkflow_def validateMode_def Let_def mode_defs split: sum.split prod.split)

end
