(* ===== verification/Mcp_Delta.thy ===== *)
theory Mcp_Delta
  imports Run_Store
begin

text \<open>
  \<^verbatim>\<open>internal/mcpserver/delta.go\<close>: the per-session memory behind \<^verbatim>\<open>pi_status\<close>: how much of a
  run's journal a caller has seen, and for which activity epoch it was warned. A poll is one locked
  call; the theorems are about arbitrary interleavings of polls for many jobs.
\<close>

text \<open>\<^verbatim>\<open>resolved\<close> of \<^verbatim>\<open>handler_status.go\<close>: where a run file lives and which job owns it.\<close>

record resolved =
  rs_runsDir :: string
  rs_runID :: string
  rs_jobID :: string
  rs_mode :: JobMode
  rs_pid :: int
  rs_hasJob :: bool
  rs_worktree :: string
  rs_branch :: string
  rs_jobStatus :: JobStatus
  rs_startedAt :: Time
  rs_errorMessage :: string
  rs_errorCode :: string

record deltaTracker =
  dt_delivered :: "string \<rightharpoonup> int"
  dt_warned :: "string \<rightharpoonup> Time"

definition newDeltaTracker :: deltaTracker where
  "newDeltaTracker = \<lparr>dt_delivered = Map.empty, dt_warned = Map.empty\<rparr>"

text \<open>\<^verbatim>\<open>take\<close>; reading a missing key of a Go map gives zero.\<close>

definition take_delta :: "string \<Rightarrow> int \<Rightarrow> bool \<Rightarrow> deltaTracker \<Rightarrow> int \<times> deltaTracker" where
  "take_delta key journalLen fromStart d =
     (let from = (case dt_delivered d key of None \<Rightarrow> 0 | Some n \<Rightarrow> n) in
      (if fromStart \<or> from > journalLen then 0 else from,
       d\<lparr>dt_delivered := (dt_delivered d)(key \<mapsto> journalLen)\<rparr>))"

definition shouldWarn :: "string \<Rightarrow> Time \<Rightarrow> deltaTracker \<Rightarrow> bool \<times> deltaTracker" where
  "shouldWarn key lastActivity d =
     (if (case dt_warned d key of Some prev \<Rightarrow> \<not> lastActivity > prev | None \<Rightarrow> False) then (False, d)
      else (True, d\<lparr>dt_warned := (dt_warned d)(key \<mapsto> lastActivity)\<rparr>))"

definition deltaKey :: "resolved \<Rightarrow> string" where
  "deltaKey tgt = (if rs_jobID tgt \<noteq> [] then rs_jobID tgt else rs_runsDir tgt @ ''/'' @ rs_runID tgt)"

subsection \<open>Delivery\<close>

text \<open>One poll of a job whose journal reads \<open>j\<close>, and what it delivers; a sequence of polls.\<close>

definition deliver :: "string \<times> 'a list \<times> bool \<Rightarrow> deltaTracker \<Rightarrow> 'a list \<times> deltaTracker" where
  "deliver p d = (case p of (key, j, fromStart) \<Rightarrow>
     (case take_delta key (int (length j)) fromStart d of (from, d') \<Rightarrow> (drop (nat from) j, d')))"

fun deliver_all :: "(string \<times> 'a list \<times> bool) list \<Rightarrow> deltaTracker \<Rightarrow> (string \<times> 'a list) list" where
  "deliver_all [] d = []"
| "deliver_all (p # ps) d = (fst p, fst (deliver p d)) # deliver_all ps (snd (deliver p d))"

text \<open>What a caller polling \<open>key\<close> has received, and the journals it was polling.\<close>

definition received :: "string \<Rightarrow> (string \<times> 'a list) list \<Rightarrow> 'a list" where
  "received key ds = concat (map snd (filter (\<lambda>p. fst p = key) ds))"

definition journals :: "string \<Rightarrow> (string \<times> 'a list \<times> bool) list \<Rightarrow> 'a list list" where
  "journals key ps = map (\<lambda>p. fst (snd p)) (filter (\<lambda>p. fst p = key) ps)"

definition seen :: "string \<Rightarrow> deltaTracker \<Rightarrow> int" where
  "seen key d = (case dt_delivered d key of None \<Rightarrow> 0 | Some n \<Rightarrow> n)"

lemma seen_deliver: "seen key (snd (deliver (k, j, b) d)) = (if k = key then int (length j) else seen key d)"
  by (simp add: deliver_def take_delta_def seen_def Let_def)

lemma fst_deliver: "fst (deliver (k, j, b) d) = drop (nat (if b \<or> seen k d > int (length j) then 0 else seen k d)) j"
  by (simp add: deliver_def take_delta_def seen_def Let_def)

lemma received_Cons: "received key (p # ds) = (if fst p = key then snd p else []) @ received key ds"
  by (simp add: received_def)

lemma journals_Cons: "journals key (p # ps) = (if fst p = key then [fst (snd p)] else []) @ journals key ps"
  by (simp add: journals_def)

lemma received_append_only:
  "sorted_wrt prefix (j0 # journals key ps) \<Longrightarrow> seen key d = int (length j0) \<Longrightarrow>
   (\<forall>(k, j, b) \<in> set ps. k = key \<longrightarrow> \<not> b) \<Longrightarrow>
   j0 @ received key (deliver_all ps d) = last (j0 # journals key ps)"
proof (induction ps arbitrary: d j0)
  case Nil
  then show ?case by (simp add: received_def journals_def)
next
  case (Cons p ps)
  obtain k j b where p: "p = (k, j, b)" by (cases p)
  show ?case
  proof (cases "k = key")
    case True
    have pre: "prefix j0 j" and srt: "sorted_wrt prefix (j # journals key ps)"
      using Cons.prems(1) True by (simp_all add: p journals_Cons)
    have nb: "\<not> b" using Cons.prems(3) True by (simp add: p)
    have "length j0 \<le> length j" using pre by (rule prefix_length_le)
    then have "j0 @ fst (deliver p d) = j"
      using Cons.prems(2) pre nb True by (auto simp: p fst_deliver prefix_def)
    moreover have "j @ received key (deliver_all ps (snd (deliver p d))) = last (j # journals key ps)"
      by (rule Cons.IH [OF srt]) (use Cons.prems(3) True in \<open>auto simp: p seen_deliver\<close>)
    moreover have "j0 @ received key (deliver_all (p # ps) d) =
        (j0 @ fst (deliver p d)) @ received key (deliver_all ps (snd (deliver p d)))"
      using True by (simp add: p received_Cons)
    ultimately show ?thesis using True by (simp only: p journals_Cons) simp
  next
    case False
    have "j0 @ received key (deliver_all ps (snd (deliver p d))) = last (j0 # journals key ps)"
      by (rule Cons.IH) (use Cons.prems False in \<open>auto simp: p seen_deliver journals_Cons\<close>)
    then show ?thesis using False by (simp add: p received_Cons journals_Cons)
  qed
qed

text \<open>every journal entry is delivered exactly once, in order. Take any interleaving of polls of
  any jobs in a fresh session. If a job's journal only grew between its polls and none of them asked
  for a replay, the concatenation of what its polls delivered is exactly the journal as last read.\<close>

theorem delivery_exactly_once:
  assumes "journals key ps \<noteq> []" and "sorted_wrt prefix (journals key ps)" and "\<forall>(k, j, b) \<in> set ps. k = key \<longrightarrow> \<not> b"
  shows "received key (deliver_all ps newDeltaTracker) = last (journals key ps)"
proof -
  have "sorted_wrt prefix ([] # journals key ps)" using assms(2) by simp
  then have "[] @ received key (deliver_all ps newDeltaTracker) = last ([] # journals key ps)"
    using assms(3) by (intro received_append_only) (simp_all add: seen_def newDeltaTracker_def)
  with assms(1) show ?thesis by simp
qed

theorem delivery_exactly_once_witness:
  "received ''a'' (deliver_all [(''a'', [1, 2::nat], False), (''b'', [9], True), (''a'', [1, 2, 3], False)] newDeltaTracker) = [1, 2, 3]"
  by (subst delivery_exactly_once) (simp_all add: journals_def)

text \<open>silence never happens. A poll after the journal shrank (a retry rewrote the run), and any
  poll that asks for it, delivers the whole journal; any poll delivers a suffix of it that holds
  everything beyond what this session was given.\<close>

theorem redelivery:
  assumes "b \<or> seen key d > int (length j)"
  shows "fst (deliver (key, j, b) d) = j \<and> seen key (snd (deliver (key, j, b) d)) = int (length j)"
  using assms by (auto simp: fst_deliver seen_deliver)

theorem redelivery_witness:
  "fst (deliver (''a'', [7 :: nat], False) (snd (deliver (''a'', [1, 2, 3], False) newDeltaTracker))) = [7]"
  by (rule conjunct1 [OF redelivery]) (simp add: seen_deliver)

subsection \<open>Warnings\<close>

fun warn_all :: "(string \<times> Time) list \<Rightarrow> deltaTracker \<Rightarrow> (string \<times> Time) list" where
  "warn_all [] d = []"
| "warn_all ((k, t) # ws) d = (if fst (shouldWarn k t d) then [(k, t)] else []) @ warn_all ws (snd (shouldWarn k t d))"

definition epochs :: "string \<Rightarrow> (string \<times> Time) list \<Rightarrow> Time list" where
  "epochs key ws = map snd (filter (\<lambda>w. fst w = key) ws)"

lemma epochs_Cons: "epochs key ((k, t) # ws) = (if k = key then [t] else []) @ epochs key ws"
  by (simp add: epochs_def)

lemma epochs_Nil [simp]: "epochs key [] = []"
  by (simp add: epochs_def)

lemma epochs_append: "epochs key (ws @ ws') = epochs key ws @ epochs key ws'"
  by (simp add: epochs_def)

lemma shouldWarn_key:
  "dt_warned (snd (shouldWarn k t d)) key = (if k = key \<and> fst (shouldWarn k t d) then Some t else dt_warned d key)"
  "fst (shouldWarn k t d) \<Longrightarrow> dt_warned d k = Some prev \<Longrightarrow> prev < t"
  by (auto simp: shouldWarn_def split: option.splits if_splits)

lemma warn_bound:
  "sorted_wrt (<) (epochs key (warn_all ws d))
   \<and> (\<forall>prev. dt_warned d key = Some prev \<longrightarrow> (\<forall>t \<in> set (epochs key (warn_all ws d)). prev < t))"
proof (induction ws arbitrary: d)
  case (Cons w ws)
  obtain k t where w: "w = (k, t)" by (cases w)
  let ?d = "snd (shouldWarn k t d)"
  note IH = Cons.IH [of ?d]
  show ?case
  proof (cases "k = key \<and> fst (shouldWarn k t d)")
    case True
    then have "dt_warned ?d key = Some t" by (auto simp: shouldWarn_key)
    then have rest: "\<forall>u \<in> set (epochs key (warn_all ws ?d)). t < u" using IH by blast
    have "prev < t" if "dt_warned d key = Some prev" for prev using shouldWarn_key(2) [of k t d prev] True that by auto
    then show ?thesis using True rest IH by (auto simp: w epochs_Cons epochs_append intro: less_trans)
  next
    case False
    then have "dt_warned ?d key = dt_warned d key"
      and "epochs key (warn_all (w # ws) d) = epochs key (warn_all ws ?d)"
      by (auto simp: w shouldWarn_key epochs_append epochs_Cons)
    with IH show ?thesis by simp
  qed
qed (simp add: epochs_def)

lemma warn_first: "dt_warned d key = None \<Longrightarrow> ts = epochs key ws \<Longrightarrow> ts \<noteq> [] \<Longrightarrow> hd ts \<in> set (epochs key (warn_all ws d))"
proof (induction ws arbitrary: d ts)
  case (Cons w ws)
  obtain k t where w: "w = (k, t)" by (cases w)
  show ?case
  proof (cases "k = key")
    case True
    with Cons.prems show ?thesis by (simp add: w epochs_def shouldWarn_def)
  next
    case False
    have "dt_warned (snd (shouldWarn k t d)) key = None" using Cons.prems(1) False by (simp add: shouldWarn_def)
    from Cons.IH [OF this, of ts] Cons.prems(2,3) False show ?thesis by (simp add: w epochs_def)
  qed
qed (simp add: epochs_def)

text \<open>each quiet stretch warns once. In any sequence of inactivity observations of any jobs, a
  job's warnings carry strictly increasing activity epochs (so an epoch never warns twice), and the
  first observation of a job in a session always warns.\<close>

theorem warns_once_per_epoch:
  "sorted_wrt (<) (epochs key (warn_all ws newDeltaTracker))
   \<and> (epochs key ws = [] \<or> hd (epochs key ws) \<in> set (epochs key (warn_all ws newDeltaTracker)))"
  using warn_bound [of key ws newDeltaTracker] warn_first [of newDeltaTracker key "epochs key ws" ws]
  by (simp add: newDeltaTracker_def) blast

end
