(* ===== verification/Mcp_Coerce.thy ===== *)
theory Mcp_Coerce
  imports Run_Store
begin

text \<open>
  \<^verbatim>\<open>internal/mcpserver/coerce.go\<close>: the best-effort coercion of a run's result into an object with a
  \<^verbatim>\<open>summary\<close>. The JSON codec is the record \<open>Json\<close> of its observable results on the types this
  file uses; a write to a nil map panics, as in Go.
\<close>

text \<open>
  \<^verbatim>\<open>json.Unmarshal\<close> into a \<^verbatim>\<open>map[string]json.RawMessage\<close>: an error, a nil map (the document \<^verbatim>\<open>null\<close>
  succeeds without storing), or a map, as the list of its entries in the order a \<^verbatim>\<open>range\<close> visits them.
  \<open>jc_str\<close> decodes into a string (\<open>None\<close>: error), \<open>jc_any\<close> into \<^verbatim>\<open>any\<close>; the \<open>jc_put\<close> fields are
  \<^verbatim>\<open>json.Marshal\<close> on a string, a list of strings and a map of raw values (total on these types,
  so \<^verbatim>\<open>mustJSON\<close> never falls back to \<^verbatim>\<open>null\<close>).
\<close>

datatype ObjResult = ObjErr | ObjNil | ObjMap "(string \<times> string) list"

record Json =
  jc_obj :: "string \<Rightarrow> ObjResult"
  jc_str :: "string \<Rightarrow> string option"
  jc_any :: "string \<Rightarrow> any option"
  jc_put_str :: "string \<Rightarrow> string"
  jc_put_list :: "string list \<Rightarrow> string"
  jc_put_map :: "(string \<times> string) list \<Rightarrow> string"

definition synth_keys :: "string list" where
  "synth_keys = [''overall'', ''summary_text'', ''conclusion'', ''result'']"

fun synth_pick :: "Json \<Rightarrow> (string \<times> string) list \<Rightarrow> string list \<Rightarrow> string option" where
  "synth_pick jc obj [] = None"
| "synth_pick jc obj (k # ks) =
     (case map_of obj k of
        None \<Rightarrow> synth_pick jc obj ks
      | Some v \<Rightarrow>
          (case jc_str jc v of
             Some s \<Rightarrow> if s \<noteq> [] then Some s else synth_pick jc obj ks
           | None \<Rightarrow> synth_pick jc obj ks))"

definition synthSummary :: "Json \<Rightarrow> (string \<times> string) list \<Rightarrow> string" where
  "synthSummary jc obj =
     (case synth_pick jc obj synth_keys of
        Some s \<Rightarrow> s
      | None \<Rightarrow> ''result with keys '' @ jc_put_list jc (map fst obj))"

text \<open>The coerced document and the warn flag; \<open>None\<close> is a panic.\<close>

definition coerceResult :: "Json \<Rightarrow> string \<Rightarrow> string \<Rightarrow> (string \<times> bool) option" where
  \<open>coerceResult jc raw mcpStatus =
     (if length raw = 0 then
        (if mcpStatus = ''completed'' then Some (''{"summary":""}'', True) else Some ([], False))
      else case jc_obj jc raw of
             ObjMap obj \<Rightarrow>
               if map_of obj ''summary'' \<noteq> None then Some (raw, False)
               else Some (jc_put_map jc (obj @ [(''summary'', jc_put_str jc (synthSummary jc obj))]), False)
           | ObjNil \<Rightarrow> None
           | ObjErr \<Rightarrow>
               (case jc_str jc raw of
                  Some s \<Rightarrow> Some (jc_put_map jc [(''summary'', jc_put_str jc s)], False)
                | None \<Rightarrow> Some (jc_put_map jc [(''summary'', jc_put_str jc raw), (''value'', raw)], False)))\<close>

text \<open>when the coercion crashes. It panics exactly on a non-empty document that decodes to a nil map,
  that is on \<^verbatim>\<open>null\<close>: the decode succeeds, no key is found and the summary is stored into a nil map.
  In every other case it returns a document.\<close>

theorem coerceResult_panics_iff:
  "coerceResult jc raw st = None \<longleftrightarrow> raw \<noteq> [] \<and> jc_obj jc raw = ObjNil"
  by (auto simp: coerceResult_def split: ObjResult.split option.split)

end
