(* ===== verification/Go_Float.thy ===== *)
theory Go_Float
  imports Go_Lib Complex_Main
begin

text \<open>
  IEEE binary64 arithmetic as the code meets it: rounding of a non-negative rational below \<open>2 ^ 53\<close> to the nearest number with
  a significand of 53 bits, ties to even. A float is the rational it stands for. \<open>f64_scale\<close> is the binary scale of the last place: as
  many doublings as bring the number to 53 bits, at most 1074, the scale of the subnormal numbers.
\<close>

fun f64_scale :: "nat \<Rightarrow> rat \<Rightarrow> nat" where
  "f64_scale 0 x = 0"
| "f64_scale (Suc n) x = (if 2 ^ 52 \<le> x then 0 else Suc (f64_scale n (2 * x)))"

definition round_even :: "rat \<Rightarrow> int" where
  "round_even y = (let n = \<lfloor>y\<rfloor>; d = y - of_int n in if d < 1/2 \<or> d = 1/2 \<and> even n then n else n + 1)"

definition f64 :: "rat \<Rightarrow> rat" where
  "f64 x = (if x = 0 then 0 else let k = f64_scale 1074 x in of_int (round_even (x * 2 ^ k)) / 2 ^ k)"

text \<open>\<^verbatim>\<open>time.Duration.Seconds\<close>: \<^verbatim>\<open>float64(sec) + float64(nsec)/1e9\<close>, for \<open>0 \<le> d\<close>.\<close>

definition Seconds :: "Duration \<Rightarrow> rat" where
  "Seconds d = f64 (of_int (d div Second) + f64 (of_int (d mod Second) / 10 ^ 9))"

lemma f64_scale_gt: "0 \<le> x \<Longrightarrow> x * 2 ^ j < 2 ^ 52 \<Longrightarrow> j < n \<Longrightarrow> j < f64_scale n x"
proof (induction n arbitrary: x j)
  case (Suc n)
  have "x \<le> x * 2 ^ j" using Suc.prems(1) by (simp add: mult_le_cancel_left1)
  then have "\<not> 2 ^ 52 \<le> x" using Suc.prems(2) by simp
  then show ?case using Suc by (cases j) (simp_all add: mult.assoc mult.commute mult.left_commute)
qed simp

lemma round_even_bounds: "of_int m \<le> y \<Longrightarrow> m \<le> round_even y" "of_int (round_even y) \<le> y + 1/2"
proof -
  show "m \<le> round_even y" if "of_int m \<le> y"
  proof -
    from that have "m \<le> \<lfloor>y\<rfloor>" by (simp add: le_floor_iff)
    then show ?thesis by (auto simp: round_even_def Let_def)
  qed
  show "of_int (round_even y) \<le> y + 1/2"
    using of_int_floor_le [of y] unfolding round_even_def Let_def by (simp; linarith)
qed

lemma f64_ge: "of_int m \<le> x \<Longrightarrow> of_int m \<le> f64 x"
proof -
  assume m: "of_int m \<le> x"
  define k where "k = f64_scale 1074 x"
  have "of_int (m * 2 ^ k) \<le> x * 2 ^ k" using m by (simp add: mult_right_mono)
  from round_even_bounds(1) [OF this] have "of_int (m * 2 ^ k) \<le> (of_int (round_even (x * 2 ^ k)) :: rat)"
    by (simp only: of_int_le_iff)
  then show ?thesis using m by (simp add: f64_def Let_def flip: k_def) (simp add: pos_le_divide_eq)
qed

lemma f64_le:
  assumes "0 \<le> x" and "x * 2 ^ j < 2 ^ 52" and "j < 1074"
  shows "f64 x \<le> x + 1 / 2 ^ (j + 2)"
proof -
  define k where "k = f64_scale 1074 x"
  have "j < k" unfolding k_def using assms by (rule f64_scale_gt)
  then have "(2 ^ (j + 1) :: rat) \<le> 2 ^ k" by (intro power_increasing) simp_all
  then have "1 / 2 ^ k \<le> (1 / 2 ^ (j + 1) :: rat)" by (intro divide_left_mono) simp_all
  moreover have "of_int (round_even (x * 2 ^ k)) / 2 ^ k \<le> x + (1 / 2) / 2 ^ k"
    using round_even_bounds(2) [of "x * 2 ^ k"] by (simp add: pos_divide_le_eq distrib_right)
  ultimately show ?thesis using assms(1) by (simp add: f64_def Let_def flip: k_def)
qed

lemma f64_le_half: "0 \<le> x \<Longrightarrow> f64 x \<le> x + 1 / 2"
proof -
  assume x: "0 \<le> x"
  define k where "k = f64_scale 1074 x"
  have "of_int (round_even (x * 2 ^ k)) / 2 ^ k \<le> x + (1 / 2) / 2 ^ k"
    using round_even_bounds(2) [of "x * 2 ^ k"] by (simp add: pos_divide_le_eq distrib_right)
  moreover have "(1 / 2) / 2 ^ k \<le> (1 / 2 :: rat)" by (simp add: pos_divide_le_eq)
  ultimately have "of_int (round_even (x * 2 ^ k)) / 2 ^ k \<le> x + 1 / 2" by linarith
  then show ?thesis using x by (simp add: f64_def Let_def flip: k_def)
qed

lemma second_eq: "Second = 1000000000"
  by (simp add: Second_def Millisecond_def)

lemma Seconds_nsec:
  "0 \<le> f64 (of_int (d mod Second) / 10 ^ 9)" "f64 (of_int (d mod Second) / 10 ^ 9) \<le> 1 - 1 / 10 ^ 9 + 1 / 2 ^ 54"
proof -
  let ?x = "of_int (d mod Second) / 10 ^ 9 :: rat"
  have r: "0 \<le> d mod Second" "d mod Second \<le> 999999999" by (simp_all add: second_eq)
  then have x: "0 \<le> ?x" "of_int (d mod Second) \<le> (999999999 :: rat)" by simp_all
  show "0 \<le> f64 ?x" using f64_ge [of 0 ?x] x by simp
  have "?x * 2 ^ 52 < 2 ^ 52" using x by simp
  from f64_le [OF x(1) this] x(2) show "f64 ?x \<le> 1 - 1 / 10 ^ 9 + 1 / 2 ^ 54" by simp
qed

end
