(* ===== verification/Mcp_Status.thy ===== *)
theory Mcp_Status
  imports Mcp_Delta Mcp_Coerce Mcp_Handlers Go_Float
begin

text \<open>
  \<^verbatim>\<open>internal/mcpserver/handler_status.go\<close>: the \<^verbatim>\<open>pi_status\<close> tool. What the handler observes while
  it runs is explicit: the answers of the jobs service, of the run store (one per \<^verbatim>\<open>Load\<close>, since a
  retry may find a different file), of the clock and of \<^verbatim>\<open>kill(pid, 0)\<close>. The long poll is a loop over
  a stream of such observations.
\<close>

subsection \<open>Wake predicate\<close>

record snapshot =
  sn_journalLen :: nat
  sn_agentsLen :: nat
  sn_phase :: string
  sn_terminal :: bool

definition snapshotOf :: "Run \<Rightarrow> snapshot" where
  "snapshotOf run =
     \<lparr>sn_journalLen = length (run_Journal run), sn_agentsLen = length (run_Agents run),
      sn_phase = (case run_CurrentPhase run of None \<Rightarrow> [] | Some p \<Rightarrow> p),
      sn_terminal = IsTerminal (MapDisk (run_Status run))\<rparr>"

definition wakeChanged :: "snapshot \<Rightarrow> snapshot \<Rightarrow> bool" where
  "wakeChanged prev cur =
     (if sn_terminal cur then True
      else if sn_journalLen cur > sn_journalLen prev then True
      else if sn_agentsLen cur > sn_agentsLen prev then True
      else if sn_phase cur \<noteq> sn_phase prev then True
      else False)"

subsection \<open>Resolving the target\<close>

record JobsView =
  jv_Lookup :: "string \<Rightarrow> JobRecord option"
  jv_LookupByRun :: "string \<Rightarrow> string \<Rightarrow> JobRecord option"
  jv_WriteInfoFor :: "string \<Rightarrow> WriteInfo option"
  jv_WorktreeActivity :: "string \<Rightarrow> (nat \<times> Time) option"

definition zero_resolved :: resolved where
  "zero_resolved = \<lparr>rs_runsDir = [], rs_runID = [], rs_jobID = [], rs_mode = [], rs_pid = 0, rs_hasJob = False,
     rs_worktree = [], rs_branch = [], rs_jobStatus = [], rs_startedAt = 0, rs_errorMessage = [], rs_errorCode = []\<rparr>"

definition runsDirFor :: "string \<Rightarrow> string" where "runsDirFor cwd = RunsDir cwd"

definition resolveTarget :: "FS \<Rightarrow> JobsView \<Rightarrow> StatusInput \<Rightarrow> McpErr + resolved" where
  "resolveTarget fs jv inp =
     (if si_JobID inp \<noteq> [] then
        (case jv_Lookup jv (si_JobID inp) of
           None \<Rightarrow> Inl (UnknownJobId (si_JobID inp))
         | Some rc \<Rightarrow>
             Inr \<lparr>rs_runsDir = jr_RunsDir rc, rs_runID = jr_RunID rc, rs_jobID = jr_JobID rc, rs_mode = jr_Mode rc,
                  rs_pid = jr_PID rc, rs_hasJob = True, rs_worktree = jr_WorktreePath rc, rs_branch = jr_Branch rc,
                  rs_jobStatus = jr_Status rc, rs_startedAt = jr_StartedAt rc,
                  rs_errorMessage = jr_ErrorMessage rc, rs_errorCode = jr_ErrorCode rc\<rparr>)
      else if si_RunID inp = [] \<or> si_CWD inp = [] then Inl NeedJobOrRun
      else case validateCWD fs (si_CWD inp) of
             Inl e \<Rightarrow> Inl e
           | Inr cwd \<Rightarrow>
               (let r = zero_resolved\<lparr>rs_runsDir := runsDirFor cwd, rs_runID := si_RunID inp\<rparr> in
                case jv_LookupByRun jv (si_RunID inp) cwd of
                  None \<Rightarrow> Inr r
                | Some rc \<Rightarrow>
                    Inr (r\<lparr>rs_jobID := jr_JobID rc, rs_mode := jr_Mode rc, rs_pid := jr_PID rc, rs_hasJob := True,
                           rs_worktree := jr_WorktreePath rc, rs_branch := jr_Branch rc, rs_jobStatus := jr_Status rc,
                           rs_startedAt := jr_StartedAt rc, rs_errorMessage := jr_ErrorMessage rc,
                           rs_errorCode := jr_ErrorCode rc,
                           rs_runsDir := (if jr_RunsDir rc \<noteq> [] then jr_RunsDir rc else rs_runsDir r)\<rparr>)))"

subsection \<open>Building the status\<close>

text \<open>\<^verbatim>\<open>int64(d.Seconds())\<close>: the seconds as a \<^verbatim>\<open>float64\<close>, cut off.\<close>

definition clampSeconds :: "Duration \<Rightarrow> int" where
  "clampSeconds d = (if d < 0 then 0 else \<lfloor>Seconds d\<rfloor>)"

text \<open>The rounding shows only in durations of half a year and more, and then by one second at most.\<close>

lemma clampSeconds_near:
  assumes "0 \<le> d"
  shows "d div Second \<le> clampSeconds d" "clampSeconds d \<le> d div Second + 1"
    and "d < 2 ^ 24 * Second \<Longrightarrow> clampSeconds d = d div Second"
proof -
  define q where "q = f64 (of_int (d mod Second) / 10 ^ 9)"
  define x where "x = of_int (d div Second) + q"
  have q: "0 \<le> q" "q \<le> 1 - 1 / 10 ^ 9 + 1 / 2 ^ 54" unfolding q_def by (rule Seconds_nsec)+
  have c: "clampSeconds d = \<lfloor>f64 x\<rfloor>" using assms by (simp add: clampSeconds_def Seconds_def x_def q_def)
  have s: "0 \<le> d div Second" using assms by (simp add: second_eq)
  have x: "0 \<le> x" "of_int (d div Second) \<le> x" using s q by (simp_all add: x_def)
  show lo: "d div Second \<le> clampSeconds d" unfolding c using f64_ge [OF x(2)] by (simp add: le_floor_iff)
  have "f64 x < of_int (d div Second + 2)" using f64_le_half [OF x(1)] q(2) by (simp add: x_def)
  then show "clampSeconds d \<le> d div Second + 1" unfolding c floor_le_iff by simp
  show "clampSeconds d = d div Second" if "d < 2 ^ 24 * Second"
  proof -
    have "d div Second \<le> 2 ^ 24 - 1" using that by (simp add: second_eq)
    then have "of_int (d div Second) \<le> (of_int (2 ^ 24 - 1) :: rat)" by (simp only: of_int_le_iff)
    then have "x < 2 ^ 24" using q(2) by (simp add: x_def)
    then have "x * 2 ^ 28 < 2 ^ 24 * 2 ^ 28" by (simp only: mult_less_cancel_right_pos zero_less_power zero_less_numeral)
    then have "x * 2 ^ 28 < 2 ^ 52" by (simp only: power_add [symmetric]) simp
    from f64_le [OF x(1) this] have "f64 x < of_int (d div Second + 1)" using q(2) by (simp add: x_def)
    then have "\<lfloor>f64 x\<rfloor> < d div Second + 1" by (simp only: floor_less_iff)
    then show ?thesis using lo unfolding c by simp
  qed
qed

definition progressBlock :: "resolved \<Rightarrow> Time \<Rightarrow> Time option \<Rightarrow> (nat \<times> Time) option \<Rightarrow> Progress option" where
  "progressBlock tgt now runUpdated wt =
     (if \<not> rs_hasJob tgt \<or> IsZero (rs_startedAt tgt) then None
      else let last0 = (case runUpdated of None \<Rightarrow> 0 | Some u \<Rightarrow> u);
               last = (case wt of Some (_, w) \<Rightarrow> if w > last0 then w else last0 | None \<Rightarrow> last0)
           in Some \<lparr>pg_ElapsedSeconds = clampSeconds (Sub now (rs_startedAt tgt)),
                    pg_WorktreeFiles = (case wt of Some (n, _) \<Rightarrow> n | None \<Rightarrow> 0),
                    pg_LastActivitySeconds = (if \<not> IsZero last then Some (clampSeconds (Sub now last)) else None)\<rparr>)"

definition writeBlock :: "resolved \<Rightarrow> Run option \<Rightarrow> WriteInfo" where
  "writeBlock tgt run =
     (let aborted = (rs_jobStatus tgt = JobAborted \<or> (case run of None \<Rightarrow> False | Some r \<Rightarrow> MapDisk (run_Status r) = ''aborted''))
      in \<lparr>wr_Branch = rs_branch tgt, wr_WorktreePath = (if \<not> aborted then rs_worktree tgt else []), wr_DiffStat = [], wr_FilesChanged = []\<rparr>)"

text \<open>\<open>kill\<close> is the injected \<^verbatim>\<open>pidAlive\<close>, \<open>None\<close> when it is nil.\<close>

definition pidIsAlive :: "(int \<Rightarrow> bool) option \<Rightarrow> resolved \<Rightarrow> bool" where
  "pidIsAlive kill tgt =
     (if \<not> rs_hasJob tgt \<or> rs_pid tgt = 0 then True
      else case kill of None \<Rightarrow> True | Some alive \<Rightarrow> alive (rs_pid tgt))"

fun agent_error :: "Agent list \<Rightarrow> string option" where
  "agent_error [] = None"
| "agent_error (a # as) =
     (case ag_Error a of
        Some e \<Rightarrow> if ag_Status a = ''error'' \<and> e \<noteq> [] then Some e else agent_error as
      | None \<Rightarrow> agent_error as)"

definition failureMessage :: "resolved \<Rightarrow> Run option \<Rightarrow> string" where
  "failureMessage tgt run =
     (if rs_errorMessage tgt \<noteq> [] then rs_errorMessage tgt
      else let code = (if rs_errorCode tgt \<noteq> [] then rs_errorCode tgt else ErrUnknown) in
           case run of
             None \<Rightarrow> code
           | Some r \<Rightarrow>
               (case agent_error (run_Agents r) of
                  Some e \<Rightarrow> e
                | None \<Rightarrow> (case run_Logs r of l # _ \<Rightarrow> l | [] \<Rightarrow> code)))"

text \<open>\<^verbatim>\<open>loadWithGrace\<close>: the result of the \<open>i\<close>-th \<^verbatim>\<open>Load\<close> is \<open>ld i\<close>.\<close>

definition graceRetries :: nat where "graceRetries = 4"

definition settled_load :: "RunErr + Run \<Rightarrow> bool" where
  "settled_load x = (case x of Inr _ \<Rightarrow> True | Inl e \<Rightarrow> e = ErrRunNotFound)"

fun grace_loop :: "(nat \<Rightarrow> RunErr + Run) \<Rightarrow> nat \<Rightarrow> nat \<Rightarrow> RunErr + Run" where
  "grace_loop ld i 0 = ld i"
| "grace_loop ld i (Suc n) = (if settled_load (ld (Suc i)) then ld (Suc i) else grace_loop ld (Suc i) n)"

definition loadWithGrace :: "(nat \<Rightarrow> RunErr + Run) \<Rightarrow> resolved \<Rightarrow> RunErr + Run" where
  "loadWithGrace ld tgt =
     (if settled_load (ld 0) \<or> IsTerminal (rs_jobStatus tgt) then ld 0 else grace_loop ld 0 graceRetries)"

definition zero_StatusOutput :: StatusOutput where
  "zero_StatusOutput = \<lparr>so_JobID = [], so_RunID = None, so_Status = [], so_Phase = None, so_BlindWindow = False, so_Events = [],
     so_AgentsDone = 0, so_AgentsTotal = 0, so_Result = ANil, so_Metadata = None, so_Write = None, so_Progress = None,
     so_Authoring = None, so_Error = []\<rparr>"

text \<open>The count loop \<^verbatim>\<open>byCall[run.Journal[i].Index]\<close>.\<close>

definition agents_done :: "Run \<Rightarrow> nat" where
  "agents_done run = length (filter (\<lambda>j. \<exists>a \<in> set (run_Agents run). ag_CallIndex a = je_Index j) (run_Journal run))"

record StatusEnv =
  sv_jobs :: JobsView
  sv_now :: Time
  sv_kill :: "(int \<Rightarrow> bool) option"
  sv_load :: "nat \<Rightarrow> RunErr + Run"
  sv_authoring :: "AuthoringInfo option"
  sv_json :: Json

definition worktreeLast :: "JobsView \<Rightarrow> resolved \<Rightarrow> (nat \<times> Time) option" where
  "worktreeLast jv tgt =
     (if rs_mode tgt \<noteq> ModeWrite \<or> \<not> rs_hasJob tgt then None else jv_WorktreeActivity jv (rs_jobID tgt))"

definition worktree_active :: "Time \<Rightarrow> (nat \<times> Time) option \<Rightarrow> bool" where
  "worktree_active now wt = (case wt of None \<Rightarrow> False | Some (_, w) \<Rightarrow> Abs (Sub now w) \<le> StaleThreshold)"

text \<open>The branch of \<^verbatim>\<open>buildStatus\<close> taken when the run file cannot be loaded.\<close>

definition status_no_run :: "StatusEnv \<Rightarrow> resolved \<Rightarrow> RunErr \<Rightarrow> StatusOutput \<Rightarrow> StatusOutput" where
  "status_no_run sv tgt err out =
     (if err = ErrRunNotFound then
        (if rs_hasJob tgt then
           (if IsTerminal (rs_jobStatus tgt) then
              out\<lparr>so_Status := rs_jobStatus tgt, so_BlindWindow := False,
                  so_Error := (if rs_jobStatus tgt = JobFailed \<or> rs_jobStatus tgt = JobAborted then failureMessage tgt None else so_Error out),
                  so_Write := (if rs_mode tgt = ModeWrite then Some (writeBlock tgt None) else so_Write out)\<rparr>
            else
              out\<lparr>so_Status := ''running'', so_BlindWindow := True, so_Authoring := sv_authoring sv,
                  so_Write := (if rs_mode tgt = ModeWrite then Some (writeBlock tgt None) else so_Write out),
                  so_Progress := progressBlock tgt (sv_now sv) None (worktreeLast (sv_jobs sv) tgt)\<rparr>)
         else out\<lparr>so_Status := ''queued''\<rparr>)
      else out\<lparr>so_Status := ''failed'', so_Error := ErrPersistenceError\<rparr>)"

definition status_write :: "StatusEnv \<Rightarrow> resolved \<Rightarrow> Run \<Rightarrow> WriteInfo option" where
  "status_write sv tgt run =
     (if rs_mode tgt = ModeWrite \<and> rs_hasJob tgt then
        (if IsTerminal (MapDisk (run_Status run)) \<and> MapDisk (run_Status run) \<noteq> ''aborted'' then
           (case jv_WriteInfoFor (sv_jobs sv) (rs_jobID tgt) of
              Some wi \<Rightarrow> Some wi
            | None \<Rightarrow> Some \<lparr>wr_Branch = rs_branch tgt, wr_WorktreePath = rs_worktree tgt, wr_DiffStat = [], wr_FilesChanged = []\<rparr>)
         else Some (writeBlock tgt (Some run)))
      else None)"

text \<open>\<^verbatim>\<open>buildStatus\<close>: the output (\<open>None\<close>: a panic in \<^verbatim>\<open>coerceResult\<close>) and the advanced tracker.\<close>

definition buildStatus :: "StatusEnv \<Rightarrow> resolved \<Rightarrow> StatusInput \<Rightarrow> deltaTracker \<Rightarrow> StatusOutput option \<times> deltaTracker" where
  "buildStatus sv tgt inp d =
     (let out0 = zero_StatusOutput\<lparr>so_JobID := rs_jobID tgt\<rparr>;
          wt = worktreeLast (sv_jobs sv) tgt in
      case loadWithGrace (sv_load sv) tgt of
        Inl err \<Rightarrow> (Some (status_no_run sv tgt err out0), d)
      | Inr run \<Rightarrow>
          (let st = Derive (run_Status run) (run_UpdatedAt run) (sv_now sv) (pidIsAlive (sv_kill sv) tgt) (worktree_active (sv_now sv) wt);
               (from, d') = take_delta (deltaKey tgt) (int (length (run_Journal run))) (si_FromStart inp) d;
               out1 = out0\<lparr>so_RunID := Some (run_RunID run), so_Phase := run_CurrentPhase run, so_Status := st,
                           so_Events := EventsSince (jc_any (sv_json sv)) run from (si_IncludeResults inp) MaxInlineResultBytes,
                           so_AgentsTotal := length (run_Agents run), so_AgentsDone := agents_done run,
                           so_Metadata := Some (Metadata run),
                           so_Error := (if st = ''failed'' \<or> st = ''aborted'' then failureMessage tgt (Some run) else []),
                           so_Write := status_write sv tgt run,
                           so_Progress := (if \<not> IsTerminal st then progressBlock tgt (sv_now sv) (run_UpdatedAt run) wt else None)\<rparr>
           in if st = ''completed'' then
                (case coerceResult (sv_json sv) (run_Result run) st of
                   None \<Rightarrow> (None, d')
                 | Some (res, _) \<Rightarrow> (Some (out1\<lparr>so_Result := RawToAny (jc_any (sv_json sv)) res\<rparr>), d'))
              else (Some out1, d')))"

subsection \<open>The long poll\<close>

text \<open>What one iteration of \<^verbatim>\<open>waitForChange\<close> sees, and whether the context ends while it sleeps.\<close>

record WaitObs =
  ob_now :: Time
  ob_load :: "RunErr + Run"
  ob_wt :: "(nat \<times> Time) option"
  ob_alive :: bool
  ob_ctxDone :: bool

datatype WaitEnd = Appeared | ReachedTerminal | Changed | BecameStalled | Warned | Deadline | CtxDone

definition lastActivity :: "Run \<Rightarrow> (nat \<times> Time) option \<Rightarrow> Time option" where
  "lastActivity run wt =
     (case wt of
        Some (_, w) \<Rightarrow>
          (case run_UpdatedAt run of
             Some u \<Rightarrow> if w > u then Some w else Some u
           | None \<Rightarrow> if w > 0 then Some w else None)
      | None \<Rightarrow> run_UpdatedAt run)"

record WaitState =
  ws_base :: "(snapshot \<times> bool) option"
  ws_sawBlind :: bool
  ws_delta :: deltaTracker

text \<open>The early-inactivity test at the end of the branch for a loaded run.\<close>

definition wait_warn :: "string \<Rightarrow> WaitObs \<Rightarrow> Run \<Rightarrow> WaitState \<Rightarrow> bool \<times> WaitState" where
  "wait_warn key ob run w =
     (case lastActivity run (ob_wt ob) of
        Some la \<Rightarrow>
          if Sub (ob_now ob) la > EarlyInactivityWarn then
            (case shouldWarn key la (ws_delta w) of (b, d) \<Rightarrow> (b, w\<lparr>ws_delta := d\<rparr>))
          else (False, w)
      | None \<Rightarrow> (False, w))"

definition stalled_now :: "WaitObs \<Rightarrow> Run \<Rightarrow> bool" where
  "stalled_now ob run \<longleftrightarrow>
     Derive (run_Status run) (run_UpdatedAt run) (ob_now ob) (ob_alive ob) (worktree_active (ob_now ob) (ob_wt ob)) = ''stalled''"

text \<open>One iteration up to the test of the deadline: a reason to return, or the new state.\<close>

definition wait_check :: "string \<Rightarrow> WaitObs \<Rightarrow> WaitState \<Rightarrow> WaitEnd option \<times> WaitState" where
  "wait_check key ob w =
     (case ob_load ob of
        Inl _ \<Rightarrow> (None, w\<lparr>ws_sawBlind := True\<rparr>)
      | Inr run \<Rightarrow>
          (let cur = snapshotOf run; stalledNow = stalled_now ob run;
               warn = (\<lambda>w. case wait_warn key ob run w of (b, w') \<Rightarrow> (if b then Some Warned else None, w')) in
           case ws_base w of
             None \<Rightarrow>
               if ws_sawBlind w then (Some Appeared, w)
               else if sn_terminal cur then (Some ReachedTerminal, w\<lparr>ws_base := Some (cur, stalledNow)\<rparr>)
               else warn (w\<lparr>ws_base := Some (cur, stalledNow)\<rparr>)
           | Some (base, baseStalled) \<Rightarrow>
               if wakeChanged base cur then (Some Changed, w)
               else if stalledNow \<and> \<not> baseStalled then (Some BecameStalled, w)
               else warn w))"

fun wait_loop :: "string \<Rightarrow> Time \<Rightarrow> (nat \<Rightarrow> WaitObs) \<Rightarrow> nat \<Rightarrow> nat \<Rightarrow> WaitState \<Rightarrow> (WaitEnd \<times> nat \<times> WaitState) option" where
  "wait_loop key deadline obs i 0 w = None"
| "wait_loop key deadline obs i (Suc fuel) w =
     (case wait_check key (obs i) w of
        (Some end_reason, w') \<Rightarrow> Some (end_reason, i, w')
      | (None, w') \<Rightarrow>
          if \<not> ob_now (obs i) < deadline then Some (Deadline, i, w')
          else if ob_ctxDone (obs i) then Some (CtxDone, i, w')
          else wait_loop key deadline obs (Suc i) fuel w')"

definition wait_init :: "deltaTracker \<Rightarrow> WaitState" where
  "wait_init d = \<lparr>ws_base = None, ws_sawBlind = False, ws_delta = d\<rparr>"

definition waitForChange :: "Duration \<Rightarrow> Time \<Rightarrow> resolved \<Rightarrow> (nat \<Rightarrow> WaitObs) \<Rightarrow> nat \<Rightarrow> deltaTracker \<Rightarrow> (WaitEnd \<times> nat \<times> WaitState) option" where
  "waitForChange waitCap started tgt obs fuel d = wait_loop (deltaKey tgt) (started + waitCap) obs 0 fuel (wait_init d)"

end
