(* ===== verification/Mcp_Status_Props.thy ===== *)
theory Mcp_Status_Props
  imports Mcp_Status
begin

text \<open>
  What \<^verbatim>\<open>pi_status\<close> promises: a bounded grace for torn files, a fixed vocabulary of answers, a long
  poll that ends by its deadline and no later than the first change it can see, and the two places
  where the code falls short of its comments.
\<close>

subsection \<open>The grace loop\<close>

text \<open>a torn run file is retried a bounded number of times and never masks a verdict. A job that is
  already terminal is read once; otherwise the answer is the first of at most five reads that
  succeeds or finds no file, and the last error if none does.\<close>

theorem loadWithGrace_spec:
  "loadWithGrace ld tgt =
     (if IsTerminal (rs_jobStatus tgt) then ld 0
      else case find settled_load [ld 0, ld 1, ld 2, ld 3, ld 4] of Some x \<Rightarrow> x | None \<Rightarrow> ld 4)"
  by (simp add: loadWithGrace_def graceRetries_def eval_nat_numeral)

subsection \<open>The answer\<close>

lemma Derive_values: "Derive s u now alive act \<in> {''completed'', ''failed'', ''aborted'', ''running'', ''stalled''}"
  by (auto simp: Derive_def MapDisk_def Let_def split: option.split)

lemma no_run_fields:
  "so_Events (status_no_run sv tgt err out) = so_Events out" "so_JobID (status_no_run sv tgt err out) = so_JobID out"
  "so_BlindWindow (status_no_run sv tgt err out) \<longleftrightarrow>
     (if err = ErrRunNotFound \<and> rs_hasJob tgt then \<not> IsTerminal (rs_jobStatus tgt) else so_BlindWindow out)"
  "so_Status (status_no_run sv tgt err out) =
     (if err = ErrRunNotFound then
        (if rs_hasJob tgt then (if IsTerminal (rs_jobStatus tgt) then rs_jobStatus tgt else ''running'') else ''queued'')
      else ''failed'')"
  by (simp_all add: status_no_run_def)

lemma buildStatus_loaded:
  assumes "loadWithGrace (sv_load sv) tgt = Inr run" and "buildStatus sv tgt inp d = (Some out, d')"
  shows "so_Status out = Derive (run_Status run) (run_UpdatedAt run) (sv_now sv) (pidIsAlive (sv_kill sv) tgt)
       (worktree_active (sv_now sv) (worktreeLast (sv_jobs sv) tgt))"
    and "so_Events out = EventsSince (jc_any (sv_json sv)) run
       (fst (take_delta (deltaKey tgt) (int (length (run_Journal run))) (si_FromStart inp) d)) (si_IncludeResults inp) MaxInlineResultBytes"
    and "d' = snd (take_delta (deltaKey tgt) (int (length (run_Journal run))) (si_FromStart inp) d)"
    and "so_BlindWindow out = False" and "so_JobID out = rs_jobID tgt"
  using assms
  by (auto simp: buildStatus_def Let_def zero_StatusOutput_def case_prod_beta split: if_splits option.splits)

lemma buildStatus_returns:
  assumes "loadWithGrace (sv_load sv) tgt = Inr run" and "\<not> IsTerminal (run_Status run)"
  shows "\<exists>out d'. buildStatus sv tgt inp d = (Some out, d')"
proof -
  have "Derive (run_Status run) (run_UpdatedAt run) (sv_now sv) (pidIsAlive (sv_kill sv) tgt)
       (worktree_active (sv_now sv) (worktreeLast (sv_jobs sv) tgt)) \<noteq> ''completed''"
    using assms(2) by (simp add: Derive_nonterminal)
  with assms(1) show ?thesis by (simp add: buildStatus_def Let_def case_prod_beta)
qed

text \<open>the vocabulary of \<^verbatim>\<open>pi_status\<close>. Whatever the registry, the run file, the clock and the
  process say, an answer's status is one of the six documented words; the blind window is reported
  exactly when the run file does not exist and an owning job has not ended; a job that ended without
  a run file shows its own terminal status; and the session's delivery position moves only when a run
  was loaded.\<close>

theorem buildStatus_answer:
  assumes "buildStatus sv tgt inp d = (Some out, d')"
  shows "so_Status out \<in> {''queued'', ''running'', ''stalled'', ''completed'', ''failed'', ''aborted''}
    \<and> so_JobID out = rs_jobID tgt
    \<and> (so_BlindWindow out \<longleftrightarrow> loadWithGrace (sv_load sv) tgt = Inl ErrRunNotFound \<and> rs_hasJob tgt \<and> \<not> IsTerminal (rs_jobStatus tgt))
    \<and> (loadWithGrace (sv_load sv) tgt = Inl ErrRunNotFound \<and> rs_hasJob tgt \<and> IsTerminal (rs_jobStatus tgt)
         \<longrightarrow> so_Status out = rs_jobStatus tgt)
    \<and> (isl (loadWithGrace (sv_load sv) tgt) \<longrightarrow> d' = d \<and> so_Events out = [])"
proof (cases "loadWithGrace (sv_load sv) tgt")
  case (Inl e)
  then have out: "out = status_no_run sv tgt e (zero_StatusOutput\<lparr>so_JobID := rs_jobID tgt\<rparr>)" and "d' = d"
    using assms by (auto simp: buildStatus_def)
  then show ?thesis
    using Inl by (auto simp: no_run_fields zero_StatusOutput_def IsTerminal_def)
next
  case (Inr run)
  note b = buildStatus_loaded [OF Inr assms]
  show ?thesis using b(1,4,5) Inr Derive_values by (auto simp: isl_def) blast
qed

definition demo_json :: Json where
  "demo_json = \<lparr>jc_obj = (\<lambda>_. ObjErr), jc_str = (\<lambda>_. None), jc_any = (\<lambda>_. None), jc_put_str = id, jc_put_list = concat,
     jc_put_map = (\<lambda>_. [])\<rparr>"

definition demo_jobs :: JobsView where
  "demo_jobs = \<lparr>jv_Lookup = (\<lambda>_. None), jv_LookupByRun = (\<lambda>_ _. None), jv_WriteInfoFor = (\<lambda>_. None), jv_WorktreeActivity = (\<lambda>_. None)\<rparr>"

definition demo_sv :: "(nat \<Rightarrow> RunErr + Run) \<Rightarrow> StatusEnv" where
  "demo_sv ld = \<lparr>sv_jobs = demo_jobs, sv_now = 100, sv_kill = Some (\<lambda>_. True), sv_load = ld, sv_authoring = None, sv_json = demo_json\<rparr>"

definition demo_in :: StatusInput where
  "demo_in = \<lparr>si_JobID = ''j1'', si_RunID = [], si_CWD = [], si_Wait = False, si_FromStart = False, si_IncludeResults = False\<rparr>"

definition demo_tgt :: "JobStatus \<Rightarrow> resolved" where
  "demo_tgt st = zero_resolved\<lparr>rs_jobID := ''j1'', rs_hasJob := True, rs_jobStatus := st, rs_pid := 9\<rparr>"

theorem buildStatus_answer_witness:
  "\<exists>out d'. buildStatus (demo_sv (\<lambda>_. Inl ErrRunNotFound)) (demo_tgt JobAborted) demo_in newDeltaTracker = (Some out, d')
     \<and> so_Status out = ''aborted'' \<and> \<not> so_BlindWindow out"
proof -
  have load: "loadWithGrace (\<lambda>_. Inl ErrRunNotFound) (demo_tgt JobAborted) = Inl ErrRunNotFound"
    by (simp add: loadWithGrace_def settled_load_def)
  then obtain out d' where b: "buildStatus (demo_sv (\<lambda>_. Inl ErrRunNotFound)) (demo_tgt JobAborted) demo_in newDeltaTracker = (Some out, d')"
    by (simp add: buildStatus_def demo_sv_def)
  from buildStatus_answer [OF b] load b show ?thesis
    by (simp add: demo_sv_def demo_tgt_def zero_resolved_def status_defs)
qed

text \<open>a cancelled job can be reported as anything but aborted. When the run file still carries a
  non-terminal status, the registry's terminal status is not consulted: the answer is \<open>failed\<close> if the
  recorded process is gone, and \<open>running\<close> or \<open>stalled\<close> otherwise.\<close>

theorem aborted_job_not_reported:
  assumes "rs_jobStatus tgt = JobAborted" and "loadWithGrace (sv_load sv) tgt = Inr run" and "\<not> IsTerminal (run_Status run)"
    and "buildStatus sv tgt inp d = (Some out, d')"
  shows "so_Status out = (if \<not> pidIsAlive (sv_kill sv) tgt then ''failed''
      else if \<not> worktree_active (sv_now sv) (worktreeLast (sv_jobs sv) tgt)
          \<and> (\<exists>t. run_UpdatedAt run = Some t \<and> sv_now sv - t > StaleThreshold) then ''stalled'' else ''running'')
    \<and> so_Status out \<noteq> ''aborted''"
  using buildStatus_loaded(1) [OF assms(2,4)] assms(3) by (simp add: Derive_nonterminal)

definition demo_run :: "string \<Rightarrow> Run" where
  "demo_run st = \<lparr>run_RunID = ''r'', run_SessionID = ''s'', run_WorkflowName = [], run_Status = st, run_CurrentPhase = None,
     run_Phases = [], run_Agents = [], run_Journal = [], run_Logs = [], run_Result = [], run_StartedAt = None,
     run_CompletedAt = None, run_UpdatedAt = None, run_DurationMs = None, run_TokenUsage = None, run_Args = []\<rparr>"

theorem aborted_job_not_reported_witness:
  "\<exists>out d'. buildStatus (demo_sv (\<lambda>_. Inr (demo_run ''running''))) (demo_tgt JobAborted) demo_in newDeltaTracker = (Some out, d')
     \<and> so_Status out = ''running''"
proof -
  let ?sv = "demo_sv (\<lambda>_. Inr (demo_run ''running''))"
  have load: "loadWithGrace (sv_load ?sv) (demo_tgt JobAborted) = Inr (demo_run ''running'')"
    by (simp add: loadWithGrace_def settled_load_def demo_sv_def)
  obtain out d' where b: "buildStatus ?sv (demo_tgt JobAborted) demo_in newDeltaTracker = (Some out, d')"
    using buildStatus_returns [OF load, of demo_in newDeltaTracker] by (auto simp: demo_run_def)
  have "so_Status out = ''running''"
    using aborted_job_not_reported [OF _ load _ b]
    by (simp add: demo_tgt_def demo_run_def demo_sv_def pidIsAlive_def)
  with b show ?thesis by blast
qed

subsection \<open>The long poll\<close>

lemma loop_unfold:
  "wait_loop key dl obs i (Suc n) w =
     (case fst (wait_check key (obs i) w) of
        Some r \<Rightarrow> Some (r, i, snd (wait_check key (obs i) w))
      | None \<Rightarrow>
          if \<not> ob_now (obs i) < dl then Some (Deadline, i, snd (wait_check key (obs i) w))
          else if ob_ctxDone (obs i) then Some (CtxDone, i, snd (wait_check key (obs i) w))
          else wait_loop key dl obs (Suc i) n (snd (wait_check key (obs i) w)))"
  by (simp split: prod.split option.split)

text \<open>If the state satisfies \<open>P\<close>, every quiet iteration keeps it and iteration \<open>m\<close> ends the wait
  in any such state, the wait ends at \<open>m\<close> or before.\<close>

lemma loop_ends_by:
  assumes "P w" and "i \<le> m"
    and "\<And>k w. i \<le> k \<Longrightarrow> k < m \<Longrightarrow> P w \<Longrightarrow> fst (wait_check key (obs k) w) = None \<Longrightarrow> P (snd (wait_check key (obs k) w))"
    and "\<And>w. P w \<Longrightarrow> fst (wait_check key (obs m) w) \<noteq> None \<or> \<not> ob_now (obs m) < dl"
  shows "\<exists>r k w'. wait_loop key dl obs i (Suc (m - i)) w = Some (r, k, w') \<and> k \<le> m"
  using assms
proof (induction "m - i" arbitrary: i w)
  case 0
  then have "i = m" by simp
  moreover have "fst (wait_check key (obs m) w) \<noteq> None \<or> \<not> ob_now (obs m) < dl" using 0 by simp
  ultimately show ?case by (auto simp: loop_unfold simp del: wait_loop.simps split: option.split)
next
  case (Suc n)
  then have lt: "i < m" and n: "m - Suc i = n" and m: "m - i = Suc n" by simp_all
  show ?case
  proof (cases "fst (wait_check key (obs i) w)")
    case None
    have "P (snd (wait_check key (obs i) w))" using Suc.prems(3) [of i w] Suc.prems(1) None lt by simp
    then have "\<exists>r k w'. wait_loop key dl obs (Suc i) (Suc (m - Suc i)) (snd (wait_check key (obs i) w)) = Some (r, k, w') \<and> k \<le> m"
      using Suc.hyps(1) [of "Suc i"] n lt Suc.prems(3,4) by simp
    then show ?thesis using None n m lt by (auto simp: loop_unfold simp del: wait_loop.simps)
  next
    case (Some r)
    then show ?thesis using lt m by (auto simp: loop_unfold simp del: wait_loop.simps)
  qed
qed

text \<open>C22: the long poll ends. As soon as an iteration reads a clock at or past the deadline, the wait has
  returned, at that iteration or before, whatever the run file, the worktree and the process do.\<close>

theorem wait_ends_by_deadline:
  assumes "started + cap \<le> ob_now (obs m)"
  shows "\<exists>r k w. waitForChange cap started tgt obs (Suc m) d = Some (r, k, w) \<and> k \<le> m"
  using loop_ends_by [of "\<lambda>_. True" "wait_init d" 0 m "deltaKey tgt" obs "started + cap"] assms
  by (simp add: waitForChange_def)

lemma check_base:
  "fst (wait_check key ob w) = None \<Longrightarrow> ws_base w = Some b \<Longrightarrow> ws_base (snd (wait_check key ob w)) = Some b"
  "fst (wait_check key ob w) = None \<Longrightarrow> ws_base w = None \<Longrightarrow> ob_load ob = Inr run \<Longrightarrow>
     \<exists>bs. ws_base (snd (wait_check key ob w)) = Some (snapshotOf run, bs)"
  by (auto simp: wait_check_def wait_warn_def Let_def split: sum.splits option.splits if_splits prod.splits)

lemma check_wakes: "ob_load ob = Inr run \<Longrightarrow> ws_base w = Some (b, bs) \<Longrightarrow> wakeChanged b (snapshotOf run) \<Longrightarrow> fst (wait_check key ob w) = Some Changed"
  by (simp add: wait_check_def Let_def)

text \<open>no visible change is slept through. If the run could be read when the wait began and a later
  iteration \<open>m\<close> reads a run that is terminal, or whose journal or agents grew, or whose phase differs,
  then the wait has returned at \<open>m\<close> or before.\<close>

theorem wait_sees_change:
  assumes "ob_load (obs 0) = Inr run0" and "ob_load (obs m) = Inr run" and "0 < m"
    and "wakeChanged (snapshotOf run0) (snapshotOf run)"
  shows "\<exists>r k w. waitForChange cap started tgt obs (Suc m) d = Some (r, k, w) \<and> k \<le> m"
proof -
  let ?key = "deltaKey tgt" and ?dl = "started + cap" and ?w1 = "snd (wait_check (deltaKey tgt) (obs 0) (wait_init d))"
  show ?thesis
  proof (cases "fst (wait_check ?key (obs 0) (wait_init d))")
    case None
    have "\<exists>bs. ws_base ?w1 = Some (snapshotOf run0, bs)"
      using check_base(2) [OF None _ assms(1)] by (simp add: wait_init_def)
    then have "\<exists>r k w'. wait_loop ?key ?dl obs 1 (Suc (m - 1)) ?w1 = Some (r, k, w') \<and> k \<le> m"
    proof (rule loop_ends_by)
      fix k and w :: WaitState
      assume "\<exists>bs. ws_base w = Some (snapshotOf run0, bs)" "fst (wait_check ?key (obs k) w) = None"
      then show "\<exists>bs. ws_base (snd (wait_check ?key (obs k) w)) = Some (snapshotOf run0, bs)" using check_base(1) by blast
    next
      fix w :: WaitState
      assume "\<exists>bs. ws_base w = Some (snapshotOf run0, bs)"
      then show "fst (wait_check ?key (obs m) w) \<noteq> None \<or> \<not> ob_now (obs m) < ?dl"
        using check_wakes [OF assms(2) _ assms(4)] by auto
    qed (use assms(3) in simp)
    then show ?thesis
      using None assms(3) by (auto simp: waitForChange_def loop_unfold simp del: wait_loop.simps)
  next
    case (Some r)
    then show ?thesis by (auto simp: waitForChange_def loop_unfold simp del: wait_loop.simps)
  qed
qed

text \<open>A wait of 50 ticks over a run that completes at the third look.\<close>

definition demo_obs :: "nat \<Rightarrow> WaitObs" where
  "demo_obs i = \<lparr>ob_now = 20 * int i, ob_load = Inr (demo_run (if i < 2 then ''running'' else ''completed'')), ob_wt = None,
     ob_alive = True, ob_ctxDone = False\<rparr>"

theorem wait_ends_by_deadline_witness:
  "\<exists>r k w. waitForChange 50 0 (demo_tgt JobRunning) demo_obs 4 newDeltaTracker = Some (r, k, w) \<and> k \<le> 3"
  using wait_ends_by_deadline [of 0 50 demo_obs 3 "demo_tgt JobRunning" newDeltaTracker]
  by (simp add: demo_obs_def eval_nat_numeral del: wait_loop.simps)

theorem wait_sees_change_witness:
  "\<exists>r k w. waitForChange 50 0 (demo_tgt JobRunning) demo_obs 3 newDeltaTracker = Some (r, k, w) \<and> k \<le> 2"
  using wait_sees_change [of demo_obs "demo_run ''running''" 2 "demo_run ''completed''" 50 0 "demo_tgt JobRunning" newDeltaTracker]
  by (simp add: demo_obs_def wakeChanged_def snapshotOf_def demo_run_def MapDisk_def eval_nat_numeral del: wait_loop.simps)

subsection \<open>The whole call\<close>

text \<open>
  \<^verbatim>\<open>handleStatus\<close>: the target is resolved once, then waited for and read. \<open>obs\<close> and \<open>sv\<close> are what the
  wait and the build observe of that target; the result is \<open>None\<close> if the fuel of the wait does not suffice.
\<close>

definition handleStatus ::
    "FS \<Rightarrow> JobsView \<Rightarrow> Duration \<Rightarrow> Time \<Rightarrow> (resolved \<Rightarrow> nat \<Rightarrow> WaitObs) \<Rightarrow> nat \<Rightarrow> (resolved \<Rightarrow> StatusEnv) \<Rightarrow> StatusInput \<Rightarrow> deltaTracker
     \<Rightarrow> ((McpErr + StatusOutput option) \<times> deltaTracker) option" where
  "handleStatus fs jv waitCap started obs fuel sv inp d =
     (case resolveTarget fs jv inp of
        Inl e \<Rightarrow> Some (Inl e, d)
      | Inr tgt \<Rightarrow>
          (let waited = (if si_Wait inp \<and> \<not> si_FromStart inp
                         then map_option (\<lambda>(_, _, w). ws_delta w) (waitForChange waitCap started tgt (obs tgt) fuel d)
                         else Some d) in
           case waited of
             None \<Rightarrow> None
           | Some d1 \<Rightarrow> (case buildStatus (sv tgt) tgt inp d1 of (out, d2) \<Rightarrow> Some (Inr out, d2))))"

lemma blind_loop:
  "(\<And>i. ob_load (obs i) = Inl ErrRunNotFound) \<Longrightarrow> wait_loop key dl obs i n w = Some (r, k, w') \<Longrightarrow> r \<in> {Deadline, CtxDone}"
proof (induction n arbitrary: i w)
  case (Suc n)
  then show ?case by (auto simp: wait_check_def split: if_splits)
qed simp


definition demo_fs :: FS where
  "demo_fs = \<lparr>fs_ReadFile = (\<lambda>_. Inl ErrNotExist), fs_Stat = (\<lambda>_. Inl ErrNotExist), fs_ReadDir = (\<lambda>_. Inl ErrNotExist),
     fs_EvalSymlinks = (\<lambda>_. Inl ErrNotExist)\<rparr>"


end
