(* ===== verification/Pi_Stream.thy ===== *)
theory Pi_Stream
  imports Run_Store
begin

text \<open>
  The pi subprocess: its prompt and arguments (\<^verbatim>\<open>internal/runner/prompt.go\<close>, \<^verbatim>\<open>argv.go\<close>), the parser of
  its event stream (\<^verbatim>\<open>internal/parser/parser.go\<close>) and the launcher's observer of the same stream
  (\<^verbatim>\<open>internal/app/launcher.go\<close>). A stream is the bytes the process wrote and how reading ended; decoding
  one line, \<^verbatim>\<open>json.Unmarshal\<close> into the line's struct, is a parameter about which nothing is assumed.
\<close>

subsection \<open>Prompt and arguments\<close>

definition BuildArgv :: "string \<Rightarrow> bool \<Rightarrow> string list" where
  "BuildArgv prompt noContextFiles =
     [PiBinary] @ PiBaseFlags @ [''--model'', OrchestratorModel, ''--thinking'', OrchestratorThinking]
     @ (if noContextFiles then [NoContextFilesFlag] else []) @ [prompt]"

definition stripContextBlock :: "string \<Rightarrow> string" where
  "stripContextBlock s =
     (case Index s ''[CONTEXT:'' of
        None \<Rightarrow> s
      | Some idx \<Rightarrow> TrimRight (take idx s) (nl @ '' ''))"

text \<open>The error is the invalid mode.\<close>

definition RenderPrompt :: "string \<Rightarrow> string \<Rightarrow> string \<Rightarrow> string + string" where
  "RenderPrompt mode task context0 =
     (let fill = (\<lambda>contract.
        let out1 = Replace1 ForcingPromptTemplate ''{{CONTRACT}}'' contract;
            out2 = Replace1 out1 ''{{TASK}}'' task
        in if TrimSpace context0 = [] then stripContextBlock out2 else Replace1 out2 ''{{CONTEXT}}'' context0) in
      if mode = ''read'' then Inr (fill ReadContractSkeleton)
      else if mode = ''write'' then Inr (fill WriteContractSkeleton)
      else Inl mode)"

subsection \<open>The event stream\<close>

record streamEvent =
  ev_Type :: string
  ev_ID :: string
  ev_ToolName :: string
  ev_IsError :: bool
  ev_Result :: "(string \<times> string) list option"

record ParseResult =
  pr_SessionID :: string
  pr_WorkflowFound :: bool
  pr_IsError :: bool
  pr_RawText :: string

datatype ReadErr = CtxErr | ReadFail string

text \<open>The bytes of a stream, and \<^verbatim>\<open>io.EOF\<close> (\<open>None\<close>) or the error that ended it.\<close>

type_synonym Stream = "string \<times> string option"

text \<open>\<^verbatim>\<open>ReadBytes\<close> at newlines, and the two \<^verbatim>\<open>TrimRight\<close>s.\<close>

definition stream_lines :: "string \<Rightarrow> string list" where
  "stream_lines s = map (\<lambda>l. TrimRight l (bytes [13])) (Split (char_of (10 :: nat)) s)"

definition parse_event :: "streamEvent \<Rightarrow> ParseResult \<Rightarrow> ParseResult" where
  "parse_event ev res =
     (if ev_Type ev = ''session'' then
        (if pr_SessionID res = [] then res\<lparr>pr_SessionID := ev_ID ev\<rparr> else res)
      else if ev_Type ev = ''tool_execution_end'' then
        (if ev_ToolName ev = ''workflow'' then
           (let res1 = res\<lparr>pr_WorkflowFound := True, pr_IsError := ev_IsError ev\<rparr> in
            case ev_Result ev of
              Some ((_, txt) # _) \<Rightarrow> res1\<lparr>pr_RawText := txt\<rparr>
            | _ \<Rightarrow> res1)
         else res)
      else res)"

definition parse_line :: "(string \<Rightarrow> streamEvent option) \<Rightarrow> string \<Rightarrow> ParseResult \<Rightarrow> ParseResult" where
  "parse_line dec raw res =
     (if length raw > 0 then (case dec raw of None \<Rightarrow> res | Some ev \<Rightarrow> parse_event ev res) else res)"

definition zero_ParseResult :: ParseResult where
  "zero_ParseResult = \<lparr>pr_SessionID = [], pr_WorkflowFound = False, pr_IsError = False, pr_RawText = []\<rparr>"

text \<open>The loop; \<open>ctxErr i\<close> says whether the context has ended when iteration \<open>i\<close> begins.\<close>

fun parse_loop :: "(string \<Rightarrow> streamEvent option) \<Rightarrow> (nat \<Rightarrow> bool) \<Rightarrow> string option \<Rightarrow> nat \<Rightarrow> string list \<Rightarrow> ParseResult
    \<Rightarrow> ParseResult \<times> ReadErr option" where
  "parse_loop dec ctxErr fin i [] res = (res, map_option ReadFail fin)"
| "parse_loop dec ctxErr fin i (l # ls) res =
     (if ctxErr i then (res, Some CtxErr)
      else if ls = [] then (parse_line dec l res, map_option ReadFail fin)
      else parse_loop dec ctxErr fin (Suc i) ls (parse_line dec l res))"

definition ParseStream :: "(string \<Rightarrow> streamEvent option) \<Rightarrow> (nat \<Rightarrow> bool) \<Rightarrow> Stream \<Rightarrow> ParseResult \<times> ReadErr option" where
  "ParseStream dec ctxErr r = parse_loop dec ctxErr (snd r) 0 (stream_lines (fst r)) zero_ParseResult"

definition Err :: "ParseResult \<Rightarrow> string" where
  "Err r = (if \<not> pr_WorkflowFound r then ErrNoWorkflowRun else [])"

text \<open>\<^verbatim>\<open>composeWaitError\<close>: \<open>None\<close> is success.\<close>

definition composeWaitError :: "ParseResult \<Rightarrow> ReadErr option \<Rightarrow> string option" where
  "composeWaitError res parseErr =
     (case parseErr of
        Some CtxErr \<Rightarrow> Some ''pi stream parse: context canceled''
      | Some (ReadFail m) \<Rightarrow> Some (''pi stream parse: '' @ m)
      | None \<Rightarrow>
          if Err res \<noteq> [] then Some (Err res)
          else if pr_IsError res then
            Some (if pr_RawText res = [] then ''workflow reported an error'' else pr_RawText res)
          else None)"

subsection \<open>The authoring observer\<close>

record authoringLine =
  al_Type :: string
  al_ID :: string
  al_ToolName :: string
  al_Message :: string
  al_Args :: string

text \<open>The decoded \<^verbatim>\<open>message\<close>: its role and, per content block, text and thinking.\<close>

definition assistantText :: "(string \<Rightarrow> (string \<times> (string \<times> string) list) option) \<Rightarrow> string \<Rightarrow> string" where
  "assistantText decm raw =
     (case decm raw of
        None \<Rightarrow> []
      | Some (role, content) \<Rightarrow> if role \<noteq> ''assistant'' then [] else concat (map (\<lambda>(text, thinking). text @ thinking) content))"

text \<open>The loop \<^verbatim>\<open>for cut < len(buf) && (buf[cut]&0xC0) == 0x80 { cut++ }\<close>.\<close>

function skip_cont :: "string \<Rightarrow> nat \<Rightarrow> nat" where
  "skip_cont buf c = (if c < length buf \<and> cont_byte (buf ! c) then skip_cont buf (Suc c) else c)"
  by pat_completeness auto
termination
  by (relation "measure (\<lambda>(buf, c). length buf - c)") auto

declare skip_cont.simps [simp del]

definition appendPreview :: "string \<Rightarrow> string \<Rightarrow> string" where
  "appendPreview buf s =
     (let buf1 = buf @ s in
      if length buf1 \<le> MaxAuthoringPreviewBytes then buf1
      else drop (skip_cont buf1 (length buf1 - MaxAuthoringPreviewBytes)) buf1)"

text \<open>The observer's locals, what it sent to \<^verbatim>\<open>sessionCh\<close> and the snapshots it handed to the writer
  (characters, preview, done).\<close>

record Observer =
  oa_pushed :: bool
  oa_preview :: string
  oa_chars :: nat
  oa_sessions :: "string list"
  oa_snaps :: "(nat \<times> string \<times> bool) list"

definition snap :: "bool \<Rightarrow> bool \<Rightarrow> Observer \<Rightarrow> Observer" where
  "snap persist isDone o0 =
     (if \<not> persist then o0 else o0\<lparr>oa_snaps := oa_snaps o0 @ [(oa_chars o0, oa_preview o0, isDone)]\<rparr>)"

definition add_text :: "string \<Rightarrow> Observer \<Rightarrow> Observer" where
  "add_text txt o0 = o0\<lparr>oa_chars := oa_chars o0 + length txt, oa_preview := appendPreview (oa_preview o0) txt\<rparr>"

definition script_header :: string where
  "script_header = nl @ ''--- workflow script ---'' @ nl"

definition observe_event :: "(string \<Rightarrow> (string \<times> (string \<times> string) list) option) \<Rightarrow> bool \<Rightarrow> authoringLine \<Rightarrow> Observer \<Rightarrow> Observer" where
  "observe_event decm persist ev o0 =
     (if al_Type ev = ''session'' \<and> \<not> oa_pushed o0 \<and> al_ID ev \<noteq> [] then
        o0\<lparr>oa_sessions := oa_sessions o0 @ [al_ID ev], oa_pushed := True\<rparr>
      else if HasPrefix (al_Type ev) ''message'' \<and> length (al_Message ev) > 0 then
        (let txt = assistantText decm (al_Message ev) in
         if txt \<noteq> [] then snap persist False (add_text txt o0) else o0)
      else if al_Type ev = ''tool_execution_start'' \<and> al_ToolName ev = ''workflow'' then
        snap persist True (if length (al_Args ev) > 0 then add_text (script_header @ al_Args ev) o0 else o0)
      else o0)"

definition observe_line :: "(string \<Rightarrow> authoringLine option) \<Rightarrow> (string \<Rightarrow> (string \<times> (string \<times> string) list) option) \<Rightarrow> bool
    \<Rightarrow> string \<Rightarrow> Observer \<Rightarrow> Observer" where
  "observe_line dec decm persist t o0 =
     (if length t > 0 then (case dec t of None \<Rightarrow> o0 | Some ev \<Rightarrow> observe_event decm persist ev o0) else o0)"

definition observer_init :: Observer where
  "observer_init = \<lparr>oa_pushed = False, oa_preview = [], oa_chars = 0, oa_sessions = [], oa_snaps = []\<rparr>"

text \<open>The loop never returns before the stream ends.\<close>

definition observeAuthoring :: "(string \<Rightarrow> authoringLine option) \<Rightarrow> (string \<Rightarrow> (string \<times> (string \<times> string) list) option) \<Rightarrow> bool
    \<Rightarrow> Stream \<Rightarrow> Observer" where
  "observeAuthoring dec decm persist r = fold (observe_line dec decm persist) (stream_lines (fst r)) observer_init"

subsection \<open>What the parser extracts\<close>

definition stream_events :: "(string \<Rightarrow> 'e option) \<Rightarrow> string \<Rightarrow> 'e list" where
  "stream_events dec s = List.map_filter dec (filter (\<lambda>l. l \<noteq> []) (stream_lines s))"

lemma parse_line_fold:
  "fold (parse_line dec) ls res = fold parse_event (List.map_filter dec (filter (\<lambda>l. l \<noteq> []) ls)) res"
  by (induction ls arbitrary: res) (auto simp: parse_line_def List.map_filter_def split: option.split)

lemma parse_loop_fold:
  "(\<And>i. \<not> ctxErr i) \<Longrightarrow> parse_loop dec ctxErr fin i ls res = (fold (parse_line dec) ls res, map_option ReadFail fin)"
  by (induction ls arbitrary: i res) auto

lemma ParseStream_fold:
  "(\<And>i. \<not> ctxErr i) \<Longrightarrow> ParseStream dec ctxErr r = (fold parse_event (stream_events dec (fst r)) zero_ParseResult, map_option ReadFail (snd r))"
  by (simp add: ParseStream_def parse_loop_fold parse_line_fold stream_events_def)

definition is_session :: "streamEvent \<Rightarrow> bool" where
  "is_session ev \<longleftrightarrow> ev_Type ev = ''session'' \<and> ev_ID ev \<noteq> []"

definition is_workflow_end :: "streamEvent \<Rightarrow> bool" where
  "is_workflow_end ev \<longleftrightarrow> ev_Type ev = ''tool_execution_end'' \<and> ev_ToolName ev = ''workflow''"

lemma parse_event_fields:
  "pr_SessionID (parse_event ev res) = (if is_session ev \<and> pr_SessionID res = [] then ev_ID ev else pr_SessionID res)"
  "pr_WorkflowFound (parse_event ev res) = (is_workflow_end ev \<or> pr_WorkflowFound res)"
  "pr_IsError (parse_event ev res) = (if is_workflow_end ev then ev_IsError ev else pr_IsError res)"
  by (auto simp: parse_event_def is_session_def is_workflow_end_def Let_def split: option.split list.split)

lemma fold_session:
  "pr_SessionID (fold parse_event evs res) =
     (if pr_SessionID res \<noteq> [] then pr_SessionID res else case find is_session evs of None \<Rightarrow> [] | Some ev \<Rightarrow> ev_ID ev)"
  by (induction evs arbitrary: res) (auto simp: parse_event_fields is_session_def split: option.split)

lemma fold_found: "pr_WorkflowFound (fold parse_event evs res) \<longleftrightarrow> pr_WorkflowFound res \<or> (\<exists>ev \<in> set evs. is_workflow_end ev)"
  by (induction evs arbitrary: res) (auto simp: parse_event_fields)

lemma fold_error:
  "pr_IsError (fold parse_event evs res) = (case find is_workflow_end (rev evs) of None \<Rightarrow> pr_IsError res | Some ev \<Rightarrow> ev_IsError ev)"
  by (induction evs arbitrary: res) (auto simp: parse_event_fields find_append split: option.split)

text \<open>C32: what the parser reports of a stream. Whatever malformed lines, unknown events or line ends
  the stream contains: the session id is that of the first session event that has one, a workflow is
  found exactly when some line is a workflow's end event, and it counts as failed exactly when the last
  such event says so; and \<^verbatim>\<open>wait\<close> succeeds exactly when the stream was read to its end, a workflow ran and
  its last end event is not an error.\<close>

theorem ParseStream_reports:
  assumes "\<And>i. \<not> ctxErr i"
  shows "let (res, err) = ParseStream dec ctxErr r; evs = stream_events dec (fst r) in
      pr_SessionID res = (case find is_session evs of None \<Rightarrow> [] | Some ev \<Rightarrow> ev_ID ev)
      \<and> (pr_WorkflowFound res \<longleftrightarrow> (\<exists>ev \<in> set evs. is_workflow_end ev))
      \<and> (pr_IsError res \<longleftrightarrow> (\<exists>ev. find is_workflow_end (rev evs) = Some ev \<and> ev_IsError ev))
      \<and> (composeWaitError res err = None \<longleftrightarrow>
           snd r = None \<and> (\<exists>ev. find is_workflow_end (rev evs) = Some ev \<and> \<not> ev_IsError ev))"
proof -
  let ?evs = "stream_events dec (fst r)"
  let ?res = "fold parse_event ?evs zero_ParseResult"
  have found: "pr_WorkflowFound ?res \<longleftrightarrow> (\<exists>ev. find is_workflow_end (rev ?evs) = Some ev)"
    by (auto simp: fold_found zero_ParseResult_def find_None_iff2 find_None_iff simp flip: not_None_eq)
  have err: "pr_IsError ?res \<longleftrightarrow> (\<exists>ev. find is_workflow_end (rev ?evs) = Some ev \<and> ev_IsError ev)"
    by (auto simp: fold_error zero_ParseResult_def split: option.split)
  have "composeWaitError ?res (map_option ReadFail (snd r)) = None \<longleftrightarrow> snd r = None \<and> pr_WorkflowFound ?res \<and> \<not> pr_IsError ?res"
    by (cases "snd r") (auto simp: composeWaitError_def Err_def ErrNoWorkflowRun_def)
  with found err show ?thesis
    by (auto simp: ParseStream_fold [OF assms] fold_session fold_found zero_ParseResult_def)
qed

theorem ParseStream_reports_witness:
  "fst (ParseStream (\<lambda>l. if l = ''s'' then Some \<lparr>ev_Type = ''session'', ev_ID = ''id'', ev_ToolName = [], ev_IsError = False, ev_Result = None\<rparr> else None)
     (\<lambda>_. False) (''x'' @ nl @ ''s'' @ bytes [13] @ nl, None)) = zero_ParseResult\<lparr>pr_SessionID := ''id''\<rparr>"
proof -
  let ?dec = "\<lambda>l. if l = ''s'' then Some \<lparr>ev_Type = ''session'', ev_ID = ''id'', ev_ToolName = [], ev_IsError = False, ev_Result = None\<rparr> else None"
  let ?s = "(''x'' @ nl @ ''s'' @ bytes [13] @ nl, None :: string option)"
  have "stream_events ?dec (fst ?s) = [\<lparr>ev_Type = ''session'', ev_ID = ''id'', ev_ToolName = [], ev_IsError = False, ev_Result = None\<rparr>]"
    by (simp add: stream_events_def stream_lines_def nl_def bytes_def TrimRight_def char_of_def bit_iff_odd List.map_filter_def)
  then show ?thesis
    using ParseStream_reports [of "\<lambda>_. False" ?dec ?s] ParseStream_fold [of "\<lambda>_. False" ?dec ?s]
    by (simp add: parse_event_def zero_ParseResult_def)
qed

subsection \<open>What the observer keeps\<close>

lemma skip_cont_ge: "c \<le> skip_cont buf c"
  by (induction buf c rule: skip_cont.induct) (subst skip_cont.simps, auto)

lemma skip_cont_le: "c \<le> length buf \<Longrightarrow> skip_cont buf c \<le> length buf"
  by (induction buf c rule: skip_cont.induct) (subst skip_cont.simps, auto)

lemma skip_cont_stop: "skip_cont buf c < length buf \<Longrightarrow> \<not> cont_byte (buf ! skip_cont buf c)"
  by (induction buf c rule: skip_cont.induct) (subst skip_cont.simps, subst (asm) skip_cont.simps, auto)

lemma skip_cont_over: "c \<le> k \<Longrightarrow> k < skip_cont buf c \<Longrightarrow> cont_byte (buf ! k)"
proof (induction buf c rule: skip_cont.induct)
  case (1 buf c)
  show ?case
  proof (cases "c < length buf \<and> cont_byte (buf ! c)")
    case True
    then have "skip_cont buf c = skip_cont buf (Suc c)" by (subst skip_cont.simps) simp
    with 1 True show ?thesis by (cases "k = c") auto
  next
    case False
    then have "skip_cont buf c = c" by (subst skip_cont.simps) auto
    with 1 show ?thesis by simp
  qed
qed

text \<open>The most recent text that fits, not beginning inside a rune.\<close>

lemma appendPreview_spec:
  "\<exists>k. appendPreview buf s = drop k (buf @ s) \<and> k \<le> length (buf @ s)
     \<and> length (appendPreview buf s) \<le> MaxAuthoringPreviewBytes
     \<and> (k = 0 \<or> k = length (buf @ s) \<or> \<not> cont_byte ((buf @ s) ! k))
     \<and> (\<forall>i. length (buf @ s) - MaxAuthoringPreviewBytes \<le> i \<and> i < k \<longrightarrow> cont_byte ((buf @ s) ! i))"
proof (cases "length (buf @ s) \<le> MaxAuthoringPreviewBytes")
  case True
  then show ?thesis by (intro exI [of _ 0]) (simp add: appendPreview_def)
next
  case False
  let ?b = "buf @ s" and ?c = "length (buf @ s) - MaxAuthoringPreviewBytes"
  let ?k = "skip_cont ?b ?c"
  have "?k \<le> length ?b" by (rule skip_cont_le) simp
  moreover have "?c \<le> ?k" by (rule skip_cont_ge)
  ultimately show ?thesis
    using False skip_cont_stop [of ?b ?c] skip_cont_over [of ?c _ ?b]
    by (intro exI [of _ ?k]) (auto simp: appendPreview_def Let_def)
qed

text \<open>The text an event contributes.\<close>

definition event_text :: "(string \<Rightarrow> (string \<times> (string \<times> string) list) option) \<Rightarrow> authoringLine \<Rightarrow> string" where
  "event_text decm ev =
     (if HasPrefix (al_Type ev) ''message'' \<and> al_Message ev \<noteq> [] then assistantText decm (al_Message ev)
      else if al_Type ev = ''tool_execution_start'' \<and> al_ToolName ev = ''workflow'' \<and> al_Args ev \<noteq> [] then script_header @ al_Args ev
      else [])"

definition al_session :: "authoringLine \<Rightarrow> bool" where
  "al_session ev \<longleftrightarrow> al_Type ev = ''session'' \<and> al_ID ev \<noteq> []"

lemma snap_fields [simp]:
  "oa_pushed (snap p d o0) = oa_pushed o0" "oa_preview (snap p d o0) = oa_preview o0"
  "oa_chars (snap p d o0) = oa_chars o0" "oa_sessions (snap p d o0) = oa_sessions o0"
  by (simp_all add: snap_def)

lemma add_text_fields [simp]:
  "oa_pushed (add_text t o0) = oa_pushed o0" "oa_preview (add_text t o0) = appendPreview (oa_preview o0) t"
  "oa_chars (add_text t o0) = oa_chars o0 + length t" "oa_sessions (add_text t o0) = oa_sessions o0"
  by (simp_all add: add_text_def)

lemma session_no_text: "al_Type ev = ''session'' \<Longrightarrow> event_text decm ev = []"
  by (simp add: event_text_def HasPrefix_def)

lemma observe_event_fields:
  "oa_chars (observe_event decm p ev o0) = oa_chars o0 + length (event_text decm ev)"
  "oa_preview (observe_event decm p ev o0) = (if event_text decm ev = [] then oa_preview o0 else appendPreview (oa_preview o0) (event_text decm ev))"
  "oa_sessions (observe_event decm p ev o0) = oa_sessions o0 @ (if al_session ev \<and> \<not> oa_pushed o0 then [al_ID ev] else [])"
  "oa_pushed (observe_event decm p ev o0) = (al_session ev \<or> oa_pushed o0)"
proof -
  have "observe_event decm p ev o0 = o0\<lparr>oa_sessions := oa_sessions o0 @ [al_ID ev], oa_pushed := True\<rparr>"
    if "al_session ev" "\<not> oa_pushed o0"
    using that by (simp add: observe_event_def al_session_def)
  moreover have "script_header \<noteq> []" by (simp add: script_header_def)
  ultimately show
    "oa_chars (observe_event decm p ev o0) = oa_chars o0 + length (event_text decm ev)"
    "oa_preview (observe_event decm p ev o0) = (if event_text decm ev = [] then oa_preview o0 else appendPreview (oa_preview o0) (event_text decm ev))"
    "oa_sessions (observe_event decm p ev o0) = oa_sessions o0 @ (if al_session ev \<and> \<not> oa_pushed o0 then [al_ID ev] else [])"
    "oa_pushed (observe_event decm p ev o0) = (al_session ev \<or> oa_pushed o0)"
    by (cases "al_session ev \<and> \<not> oa_pushed o0";
        auto simp: observe_event_def al_session_def event_text_def Let_def HasPrefix_def)+
qed

lemma observe_fold:
  "fold (observe_line dec decm p) ls o0 = fold (observe_event decm p) (List.map_filter dec (filter (\<lambda>l. l \<noteq> []) ls)) o0"
  by (induction ls arbitrary: o0) (auto simp: observe_line_def List.map_filter_def split: option.split)

lemma append_suffix:
  assumes "suffix pre T" and "length pre \<le> MaxAuthoringPreviewBytes"
  shows "suffix (appendPreview pre t) (T @ t) \<and> length (appendPreview pre t) \<le> MaxAuthoringPreviewBytes"
proof -
  obtain k where k: "appendPreview pre t = drop k (pre @ t)" "length (appendPreview pre t) \<le> MaxAuthoringPreviewBytes"
    using appendPreview_spec by blast
  have "suffix (drop k (pre @ t)) (pre @ t)" by (rule suffix_drop)
  moreover have "suffix (pre @ t) (T @ t)" using assms(1) by simp
  ultimately show ?thesis using k by (simp add: suffix_order.order_trans)
qed

lemma observe_events:
  "suffix (oa_preview o0) T \<Longrightarrow> length (oa_preview o0) \<le> MaxAuthoringPreviewBytes \<Longrightarrow> oa_chars o0 = length T \<Longrightarrow>
   (let o1 = fold (observe_event decm p) evs o0; T' = T @ concat (map (event_text decm) evs) in
      suffix (oa_preview o1) T' \<and> length (oa_preview o1) \<le> MaxAuthoringPreviewBytes \<and> oa_chars o1 = length T'
      \<and> oa_sessions o1 = oa_sessions o0 @ (if oa_pushed o0 then [] else case find al_session evs of None \<Rightarrow> [] | Some ev \<Rightarrow> [al_ID ev]))"
proof (induction evs arbitrary: o0 T)
  case (Cons ev evs)
  let ?o = "observe_event decm p ev o0" and ?T = "T @ event_text decm ev"
  have "suffix (oa_preview ?o) ?T \<and> length (oa_preview ?o) \<le> MaxAuthoringPreviewBytes"
    using append_suffix [OF Cons.prems(1,2)] Cons.prems by (simp add: observe_event_fields)
  moreover have "oa_chars ?o = length ?T" using Cons.prems(3) by (simp add: observe_event_fields)
  ultimately show ?case
    using Cons.IH [of ?o ?T] by (auto simp: Let_def observe_event_fields split: option.splits)
qed simp

text \<open>the authoring observer is bounded and truthful. After any stream, the preview is a suffix of
  everything the orchestrator authored, at most 6 KiB long whatever was written; the character
  count is the exact total; and exactly one session id is sent, that of the first session event that
  has one (none if there is none), so the send to a channel of capacity one never blocks the drain.\<close>

theorem observeAuthoring_spec:
  "let o1 = observeAuthoring dec decm persist r; evs = stream_events dec (fst r);
       authored = concat (map (event_text decm) evs) in
     suffix (oa_preview o1) authored \<and> length (oa_preview o1) \<le> MaxAuthoringPreviewBytes \<and> oa_chars o1 = length authored
     \<and> oa_sessions o1 = (case find al_session evs of None \<Rightarrow> [] | Some ev \<Rightarrow> [al_ID ev])"
  using observe_events [of observer_init "[]" decm persist "stream_events dec (fst r)"]
  by (simp add: observeAuthoring_def observe_fold stream_events_def observer_init_def Let_def)

subsection \<open>The prompt\<close>

lemma HasPrefix_short: "length p \<le> length s \<Longrightarrow> HasPrefix (s @ t) p = HasPrefix s p"
  by (simp add: HasPrefix_def)

text \<open>The first occurrence of a marker does not depend on what follows one.\<close>

lemma Index_before: "Index (u @ sub @ v) sub = Index (u @ sub) sub"
proof (induction u)
  case Nil
  show ?case
  proof (cases sub)
    case Nil
    then show ?thesis by (cases v) (simp_all add: HasPrefix_def)
  next
    case (Cons c cs)
    then have "HasPrefix (sub @ v) sub" "HasPrefix sub sub" by (simp_all add: HasPrefix_def)
    with Cons show ?thesis by simp
  qed
next
  case (Cons c u)
  have "HasPrefix (c # u @ sub @ v) sub = HasPrefix (c # u @ sub) sub"
    using HasPrefix_short [of sub "c # u @ sub" v] by simp
  with Cons show ?case by simp
qed

lemma Index_le: "Index (u @ sub @ v) sub = Some i \<Longrightarrow> i \<le> length u"
proof (induction u arbitrary: i)
  case Nil
  then show ?case
  proof (cases sub)
    case Nil
    with \<open>Index ([] @ sub @ v) sub = Some i\<close> show ?thesis by (cases v) (simp_all add: HasPrefix_def)
  next
    case (Cons c cs)
    then have "HasPrefix (sub @ v) sub" by (simp add: HasPrefix_def)
    with Cons Nil show ?thesis by (simp add: HasPrefix_def)
  qed
next
  case (Cons c u)
  show ?case
  proof (cases i)
    case (Suc k)
    then have "Index (u @ sub @ v) sub = Some k" using Cons.prems by (auto split: if_splits)
    with Cons.IH [OF this] Suc show ?thesis by simp
  qed simp
qed

lemma strip_ignores_tail: "stripContextBlock (u @ ''[CONTEXT:'' @ v) = stripContextBlock (u @ ''[CONTEXT:'' @ v')"
proof -
  have "Index (u @ ''[CONTEXT:'' @ v) ''[CONTEXT:'' = Index (u @ ''[CONTEXT:'' @ v') ''[CONTEXT:''"
    by (simp only: Index_before)
  moreover have "Index (u @ ''[CONTEXT:'' @ v) ''[CONTEXT:'' \<noteq> None"
  proof (induction u)
    case (Cons c u)
    then show ?case by simp
  qed (simp add: HasPrefix_def)
  moreover have "take i (u @ ''[CONTEXT:'' @ v) = take i (u @ ''[CONTEXT:'' @ v')" if "Index (u @ ''[CONTEXT:'' @ v) ''[CONTEXT:'' = Some i" for i
    using Index_le [OF that] by simp
  ultimately show ?thesis by (auto simp: stripContextBlock_def)
qed

text \<open>a task that mentions the marker loses its tail. With no context, the prompt is cut at the first
  \<^verbatim>\<open>[CONTEXT:\<close>; the task is inserted before that cut is searched, so everything after an occurrence inside
  the task is dropped: two tasks that differ only there are sent to pi as the same prompt.\<close>

theorem context_marker_truncates_task:
  assumes "TrimSpace context0 = []"
  shows "RenderPrompt mode (a @ ''[CONTEXT:'' @ b) context0 = RenderPrompt mode (a @ ''[CONTEXT:'' @ b') context0"
proof -
  have "stripContextBlock (Replace1 s old (a @ ''[CONTEXT:'' @ b)) = stripContextBlock (Replace1 s old (a @ ''[CONTEXT:'' @ b'))" for s old
  proof (cases "Index s old")
    case (Some i)
    then show ?thesis
      using strip_ignores_tail [of "take i s @ a" "b @ drop (i + length old) s" "b' @ drop (i + length old) s"]
      by (simp add: Replace1_def)
  qed (simp add: Replace1_def)
  with assms show ?thesis by (simp add: RenderPrompt_def Let_def)
qed

theorem context_marker_truncates_task_witness:
  "RenderPrompt ''read'' ''explain [CONTEXT: parsing'' [] = RenderPrompt ''read'' ''explain [CONTEXT: and delete nothing'' []"
  using context_marker_truncates_task [OF TrimSpace_Nil, of "''read''" "''explain ''" "'' parsing''" "'' and delete nothing''"] by simp

end
