(* ===== verification/Launcher.thy ===== *)
theory Launcher
  imports Pi_Stream Registry
begin

text \<open>
  \<^verbatim>\<open>internal/runner/runner.go\<close> and the rest of \<^verbatim>\<open>internal/app/launcher.go\<close>: starting the pi process, the launch of
  a job on top of it, and the hand-over of authoring snapshots to the goroutine that writes them to disk.

  The operating system answers the three calls that can fail (\<open>SpawnOs\<close>); the open descriptors of
  \<^verbatim>\<open>/dev/null\<close> are counted.
\<close>

subsection \<open>runner.Spawn\<close>

record SpawnConfig =
  sc_Prompt :: string
  sc_NoContextFiles :: bool
  sc_CWD :: string
  sc_Stderr :: bool

record SpawnOs =
  so_OpenDevNull :: "string option"
  so_StdoutPipe :: "string option"
  so_Start :: "string list \<Rightarrow> string \<Rightarrow> string + int"

record Process =
  ps_pid :: int
  ps_devnull :: bool

datatype SpawnErr = EmptyCwd | NilStderr | OpenDevNullErr string | StdoutPipeErr string | StartErr string string

definition Spawn :: "SpawnOs \<Rightarrow> SpawnConfig \<Rightarrow> nat \<Rightarrow> (SpawnErr + Process) \<times> nat" where
  "Spawn os cfg fds =
     (if sc_CWD cfg = [] then (Inl EmptyCwd, fds)
      else if \<not> sc_Stderr cfg then (Inl NilStderr, fds)
      else
        (let argv = BuildArgv (sc_Prompt cfg) (sc_NoContextFiles cfg) in
         case so_OpenDevNull os of
           Some e \<Rightarrow> (Inl (OpenDevNullErr e), fds)
         | None \<Rightarrow>
             (let fds1 = Suc fds in
              case so_StdoutPipe os of
                Some e \<Rightarrow> (Inl (StdoutPipeErr e), fds1 - 1)
              | None \<Rightarrow>
                  (case so_Start os argv (sc_CWD cfg) of
                     Inl e \<Rightarrow> (Inl (StartErr (hd argv) e), fds1 - 1)
                   | Inr pid \<Rightarrow> (Inr \<lparr>ps_pid = pid, ps_devnull = True\<rparr>, fds1)))))"

definition Process_Wait :: "Process \<Rightarrow> nat \<Rightarrow> nat" where
  "Process_Wait p fds = (if ps_devnull p then fds - 1 else fds)"

subsection \<open>Launch\<close>

text \<open>\<open>stream pid\<close> is what the process writes; the decoders are those of the parser and of the observer. A launched
  job has its pid, the session ids pushed and the outcome of \<^verbatim>\<open>wait\<close>.\<close>

datatype LaunchErr = BadMode string | SpawnFailed SpawnErr

record Launched_job =
  la_proc :: Process
  la_sessions :: "string list"
  la_snaps :: "(nat \<times> string \<times> bool) list"
  la_wait :: "string option"

definition launch_persist :: "Spec \<Rightarrow> bool" where
  "launch_persist spec \<longleftrightarrow> sp_JobID spec \<noteq> [] \<and> sp_RunsDir spec \<noteq> []"

definition Launch ::
    "(string \<Rightarrow> streamEvent option) \<Rightarrow> (string \<Rightarrow> authoringLine option) \<Rightarrow> (string \<Rightarrow> (string \<times> (string \<times> string) list) option)
     \<Rightarrow> (nat \<Rightarrow> bool) \<Rightarrow> (int \<Rightarrow> Stream) \<Rightarrow> SpawnOs \<Rightarrow> Spec \<Rightarrow> nat \<Rightarrow> (LaunchErr + Launched_job) \<times> nat" where
  "Launch dec dec_al decm ctxErr stream os spec fds =
     (case RenderPrompt (sp_Mode spec) (sp_Task spec) (sp_Context spec) of
        Inl m \<Rightarrow> (Inl (BadMode m), fds)
      | Inr prompt \<Rightarrow>
          (case Spawn os \<lparr>sc_Prompt = prompt, sc_NoContextFiles = False, sc_CWD = sp_CWD spec, sc_Stderr = True\<rparr> fds of
             (Inl e, fds1) \<Rightarrow> (Inl (SpawnFailed e), fds1)
           | (Inr proc, fds1) \<Rightarrow>
               (let r = stream (ps_pid proc); ob = observeAuthoring dec_al decm (launch_persist spec) r in
                (Inr \<lparr>la_proc = proc, la_sessions = oa_sessions ob, la_snaps = oa_snaps ob,
                      la_wait = (case ParseStream dec ctxErr r of (res, err) \<Rightarrow> composeWaitError res err)\<rparr>, fds1))))"

subsection \<open>The snapshot hand-over\<close>

text \<open>
  The observer hands each snapshot over a channel of capacity one, taking a stale one back first; the
  writer goroutine writes what it receives to a temporary file and renames it. At the end the
  observer closes the channel, waits for the writer and removes the file. \<open>hf_sent\<close> and \<open>hf_taken\<close> are
  ghost state, and so is \<open>hf_failed\<close>: some write failed.
\<close>

type_synonym Snap = "nat \<times> string \<times> bool"

datatype WriterPc = WIdle | WHas Snap | WExited

record Handoff =
  hf_todo :: "Snap list"
  hf_sent :: "Snap list"
  hf_chan :: "Snap option"
  hf_closed :: bool
  hf_writer :: WriterPc
  hf_taken :: "Snap list"
  hf_failed :: bool
  hf_file :: "Snap option"
  hf_removed :: bool

definition handoff_init :: "Snap list \<Rightarrow> Handoff" where
  "handoff_init snaps = \<lparr>hf_todo = snaps, hf_sent = [], hf_chan = None, hf_closed = False, hf_writer = WIdle,
     hf_taken = [], hf_failed = False, hf_file = None, hf_removed = False\<rparr>"

definition hand_over :: "Handoff \<Rightarrow> Handoff" where
  "hand_over s = s\<lparr>hf_todo := tl (hf_todo s), hf_sent := hf_sent s @ [hd (hf_todo s)], hf_chan := Some (hd (hf_todo s))\<rparr>"

definition close_snaps :: "Handoff \<Rightarrow> Handoff" where
  "close_snaps s = s\<lparr>hf_closed := True\<rparr>"

definition writer_take :: "Handoff \<Rightarrow> Handoff" where
  "writer_take s = s\<lparr>hf_writer := WHas (the (hf_chan s)), hf_taken := hf_taken s @ [the (hf_chan s)], hf_chan := None\<rparr>"

definition writer_write :: "bool \<Rightarrow> Snap \<Rightarrow> Handoff \<Rightarrow> Handoff" where
  "writer_write ok x s = s\<lparr>hf_writer := WIdle, hf_file := (if ok then Some x else hf_file s), hf_failed := (hf_failed s \<or> \<not> ok)\<rparr>"

definition writer_exit :: "Handoff \<Rightarrow> Handoff" where
  "writer_exit s = s\<lparr>hf_writer := WExited\<rparr>"

definition remove_file :: "Handoff \<Rightarrow> Handoff" where
  "remove_file s = s\<lparr>hf_file := None, hf_removed := True\<rparr>"

inductive handoff_step :: "Handoff \<Rightarrow> Handoff \<Rightarrow> bool" where
  send: "hf_todo s \<noteq> [] \<Longrightarrow> handoff_step s (hand_over s)"
| close: "hf_todo s = [] \<Longrightarrow> \<not> hf_closed s \<Longrightarrow> handoff_step s (close_snaps s)"
| take: "hf_writer s = WIdle \<Longrightarrow> hf_chan s \<noteq> None \<Longrightarrow> handoff_step s (writer_take s)"
| wrote: "hf_writer s = WHas x \<Longrightarrow> handoff_step s (writer_write ok x s)"
| exit: "hf_writer s = WIdle \<Longrightarrow> hf_closed s \<Longrightarrow> hf_chan s = None \<Longrightarrow> handoff_step s (writer_exit s)"
| remove: "hf_closed s \<Longrightarrow> hf_writer s = WExited \<Longrightarrow> \<not> hf_removed s \<Longrightarrow> handoff_step s (remove_file s)"

inductive handoff_reach :: "Snap list \<Rightarrow> Handoff \<Rightarrow> bool" for snaps where
  init: "handoff_reach snaps (handoff_init snaps)"
| more: "handoff_reach snaps s \<Longrightarrow> handoff_step s t \<Longrightarrow> handoff_reach snaps t"

interpretation handoff: transition_system "\<lambda>s. s = handoff_init snaps" handoff_step "handoff_reach snaps" for snaps
proof (unfold_locales, goal_cases)
  case (1 P s)
  from 1(3) show ?case
    by (induction rule: handoff_reach.induct) (use 1(1,2) in blast)+
qed

lemmas handoff_defs = handoff_init_def hand_over_def close_snaps_def writer_take_def writer_write_def writer_exit_def remove_file_def

definition chan_list :: "Handoff \<Rightarrow> Snap list" where
  "chan_list s = (case hf_chan s of None \<Rightarrow> [] | Some x \<Rightarrow> [x])"

definition handoff_ok :: "Snap list \<Rightarrow> Handoff \<Rightarrow> bool" where
  "handoff_ok snaps s \<longleftrightarrow> hf_sent s @ hf_todo s = snaps
     \<and> subseq (hf_taken s @ chan_list s) (hf_sent s)
     \<and> (hf_sent s \<noteq> [] \<longrightarrow> hf_taken s @ chan_list s \<noteq> [] \<and> last (hf_taken s @ chan_list s) = last (hf_sent s))
     \<and> (\<forall>x. hf_writer s = WHas x \<longrightarrow> hf_taken s \<noteq> [] \<and> last (hf_taken s) = x)
     \<and> (hf_closed s \<longrightarrow> hf_todo s = []) \<and> (hf_writer s = WExited \<longrightarrow> hf_closed s \<and> hf_chan s = None)
     \<and> (hf_removed s \<longrightarrow> hf_writer s = WExited \<and> hf_file s = None)
     \<and> (\<forall>x. hf_file s = Some x \<longrightarrow> x \<in> set (hf_taken s))
     \<and> (\<not> hf_failed s \<and> \<not> hf_removed s \<and> (hf_writer s = WIdle \<or> hf_writer s = WExited) \<and> hf_taken s \<noteq> []
         \<longrightarrow> hf_file s = Some (last (hf_taken s)))"

lemma handoff_ok_init: "handoff_ok snaps (handoff_init snaps)"
  by (simp add: handoff_ok_def handoff_init_def chan_list_def)

lemma subseq_replace_last:
  "subseq (xs @ ys) zs \<Longrightarrow> length ys \<le> 1 \<Longrightarrow> subseq (xs @ [x]) (zs @ [x])"
  by (metis subseq_append subseq_append_iff list_emb_append2 list_emb_Nil append_Nil2 subseq_order.trans subseq_rev_drop_many)

lemma handoff_ok_step:
  assumes "handoff_ok snaps s" and "handoff_step s t"
  shows "handoff_ok snaps t"
  using assms(2)
proof cases
  case send
  then obtain x xs where todo: "hf_todo s = x # xs" by (cases "hf_todo s") auto
  have "subseq (hf_taken s @ [x]) (hf_sent s @ [x])"
    using assms(1) subseq_replace_last [of "hf_taken s" "chan_list s" "hf_sent s" x]
    by (auto simp: handoff_ok_def chan_list_def split: option.splits)
  with assms(1) send todo show ?thesis
    by (auto simp: handoff_ok_def hand_over_def chan_list_def)
next
  case (wrote x ok)
  have "x \<in> set (hf_taken s)"
    using assms(1) wrote(2) last_in_set [of "hf_taken s"] by (auto simp: handoff_ok_def)
  with assms(1) wrote show ?thesis by (auto simp: handoff_ok_def writer_write_def chan_list_def)
qed (use assms(1) in \<open>auto simp: handoff_ok_def handoff_defs chan_list_def split: option.splits\<close>)

lemma handoff_reach_ok: "handoff_reach snaps s \<Longrightarrow> handoff_ok snaps s"
  by (rule handoff.invariantI [of snaps "handoff_ok snaps"]) (auto simp: handoff_ok_init handoff_ok_step)

text \<open>Every step is progress; only the end is stuck.\<close>

definition handoff_left :: "Handoff \<Rightarrow> nat" where
  "handoff_left s = 4 * length (hf_todo s) + 2 * length (chan_list s) + (case hf_writer s of WIdle \<Rightarrow> 1 | WHas _ \<Rightarrow> 2 | WExited \<Rightarrow> 0)
     + (if hf_closed s then 0 else 1) + (if hf_removed s then 0 else 1)"

lemma handoff_progress: "handoff_step s t \<Longrightarrow> handoff_left t < handoff_left s"
proof (induction rule: handoff_step.induct)
  case (send s)
  then show ?case by (cases "hf_todo s") (auto simp: handoff_left_def hand_over_def chan_list_def split: option.split WriterPc.split)
qed (auto simp: handoff_left_def handoff_defs chan_list_def split: option.splits)

lemma handoff_steps_bound: "(handoff_step ^^ n) s t \<Longrightarrow> n + handoff_left t \<le> handoff_left s"
proof (induction n arbitrary: t)
  case (Suc n)
  then obtain u where u: "(handoff_step ^^ n) s u" "handoff_step u t" by auto
  with Suc.IH [OF u(1)] handoff_progress [OF u(2)] show ?case by simp
qed simp

lemma handoff_stuck:
  assumes "handoff_ok snaps s" and "\<And>t. \<not> handoff_step s t"
  shows "hf_removed s"
proof (rule ccontr)
  assume not: "\<not> hf_removed s"
  have "hf_todo s = []" using assms(2) send by blast
  moreover from this have "hf_closed s" using assms(2) close by blast
  ultimately show False
    using assms(2) not take [of s] wrote [of s _ True] exit [of s] remove [of s] by (cases "hf_writer s") blast+
qed



subsection \<open>What a launch does\<close>

text \<open>One decoded line, as the two readers of the tee see it: the type and the id agree.\<close>

definition same_lines :: "(string \<Rightarrow> streamEvent option) \<Rightarrow> (string \<Rightarrow> authoringLine option) \<Rightarrow> bool" where
  "same_lines dec dec_al \<longleftrightarrow>
     (\<forall>l. map_option (\<lambda>e. (ev_Type e, ev_ID e)) (dec l) = map_option (\<lambda>e. (al_Type e, al_ID e)) (dec_al l))"

lemma find_session_agree:
  assumes "same_lines dec dec_al"
  shows "map_option ev_ID (find is_session (List.map_filter dec ls)) = map_option al_ID (find al_session (List.map_filter dec_al ls))"
proof (induction ls)
  case (Cons l ls)
  have "map_option (\<lambda>e. (ev_Type e, ev_ID e)) (dec l) = map_option (\<lambda>e. (al_Type e, al_ID e)) (dec_al l)"
    using assms by (simp add: same_lines_def)
  with Cons show ?case
    by (cases "dec l"; cases "dec_al l") (auto simp: List.map_filter_simps is_session_def al_session_def)
qed (simp add: List.map_filter_simps)

text \<open>A launch. The mode decides first: an unknown one starts nothing. Any other error comes from the spawn and leaves no
  descriptor open. On success the process that was started is pi with the documented arguments and
  the rendered prompt last, in the job's directory; the one descriptor it holds is released by \<^verbatim>\<open>Wait\<close>; and the
  session id handed to the registry is the one the parser reports for the same stream (the two readers decoding type and id
  of a line alike), at most one.\<close>

theorem Launch_contract:
  assumes "same_lines dec dec_al" and "\<And>i. \<not> ctxErr i"
  shows "case Launch dec dec_al decm ctxErr stream os spec fds of
      (Inl (BadMode m), fds1) \<Rightarrow> fds1 = fds \<and> m = sp_Mode spec \<and> m \<noteq> ''read'' \<and> m \<noteq> ''write''
    | (Inl (SpawnFailed e), fds1) \<Rightarrow> fds1 = fds
    | (Inr job, fds1) \<Rightarrow>
        (\<exists>prompt. RenderPrompt (sp_Mode spec) (sp_Task spec) (sp_Context spec) = Inr prompt
          \<and> so_Start os ([''pi'', ''-p'', ''--mode'', ''json'', ''--no-session'', ''--model'', OrchestratorModel, ''--thinking'', ''high'', prompt])
              (sp_CWD spec) = Inr (ps_pid (la_proc job)))
        \<and> sp_CWD spec \<noteq> [] \<and> Process_Wait (la_proc job) fds1 = fds
        \<and> (let sid = pr_SessionID (fst (ParseStream dec ctxErr (stream (ps_pid (la_proc job)))))
           in la_sessions job = (if sid = [] then [] else [sid]))"
proof (cases "RenderPrompt (sp_Mode spec) (sp_Task spec) (sp_Context spec)")
  case (Inl m)
  then show ?thesis by (auto simp: Launch_def RenderPrompt_def Let_def split: if_splits)
next
  case (Inr prompt)
  have sessions: "oa_sessions (observeAuthoring dec_al decm p r) =
      (let sid = pr_SessionID (fst (ParseStream dec ctxErr r)) in if sid = [] then [] else [sid])" for p r
  proof -
    let ?ls = "filter (\<lambda>l. l \<noteq> []) (stream_lines (fst r))"
    have "oa_sessions (observeAuthoring dec_al decm p r) = (case find al_session (stream_events dec_al (fst r)) of None \<Rightarrow> [] | Some ev \<Rightarrow> [al_ID ev])"
      using observe_events [of observer_init "[]" decm p "stream_events dec_al (fst r)"]
      by (simp add: observeAuthoring_def observe_fold stream_events_def observer_init_def Let_def)
    moreover have "pr_SessionID (fst (ParseStream dec ctxErr r)) = (case find is_session (stream_events dec (fst r)) of None \<Rightarrow> [] | Some ev \<Rightarrow> ev_ID ev)"
      by (simp add: ParseStream_fold [OF assms(2)] fold_session zero_ParseResult_def)
    moreover have "ev_ID ev \<noteq> []" if "find is_session (stream_events dec (fst r)) = Some ev" for ev
      using that by (auto simp: find_Some_iff is_session_def)
    ultimately show ?thesis
      using find_session_agree [OF assms(1), of ?ls]
      by (auto simp: stream_events_def Let_def split: option.splits)
  qed
  show ?thesis
    unfolding Launch_def Inr sum.case Spawn_def
    by (auto simp: Let_def sessions BuildArgv_def PiBinary_def PiBaseFlags_def OrchestratorThinking_def Process_Wait_def
        Inr split: option.split sum.split prod.split)
qed

definition sample_spawn :: SpawnOs where
  "sample_spawn = \<lparr>so_OpenDevNull = None, so_StdoutPipe = None, so_Start = (\<lambda>_ _. Inr 7)\<rparr>"

definition sample_spec :: Spec where
  "sample_spec = \<lparr>sp_Mode = ''read'', sp_CWD = ''/r'', sp_RunsDir = [], sp_Task = ''t'', sp_Context = [], sp_Worktree = [],
     sp_Branch = [], sp_JobID = [], sp_PreassignedID = []\<rparr>"

lemma Launch_contract_witness:
  "\<exists>job. Launch (\<lambda>_. None) (\<lambda>_. None) (\<lambda>_. None) (\<lambda>_. False) (\<lambda>_. ([], None)) sample_spawn sample_spec 4 = (Inr job, 5)
     \<and> ps_pid (la_proc job) = 7 \<and> Process_Wait (la_proc job) 5 = 4"
proof -
  have same: "same_lines (\<lambda>_. None) (\<lambda>_. None)" by (simp add: same_lines_def)
  obtain p where "RenderPrompt ''read'' ''t'' [] = Inr p" by (simp add: RenderPrompt_def)
  then obtain job where "Launch (\<lambda>_. None) (\<lambda>_. None) (\<lambda>_. None) (\<lambda>_. False) (\<lambda>_. ([], None)) sample_spawn sample_spec 4 = (Inr job, 5)"
    "ps_pid (la_proc job) = 7"
    by (auto simp: Launch_def sample_spec_def sample_spawn_def Spawn_def Let_def)
  then show ?thesis
    using Launch_contract [OF same, where ctxErr = "\<lambda>_. False" and decm = "\<lambda>_. None" and stream = "\<lambda>_. ([], None)"
        and os = sample_spawn and spec = sample_spec and fds = 4] by auto
qed

end
