(* ===== verification/Go_Path.thy ===== *)
theory Go_Path
  imports Go_Lib
begin

text \<open>
  More of \<^verbatim>\<open>path/filepath\<close>: \<^verbatim>\<open>Dir\<close>, \<^verbatim>\<open>Rel\<close> and \<^verbatim>\<open>WalkDir\<close>, and the theory of cleaned absolute paths. A cleaned
  absolute path is a list of plain names (\<open>abs_path\<close>); on such paths \<^verbatim>\<open>Join\<close>, \<^verbatim>\<open>Dir\<close> and \<^verbatim>\<open>Rel\<close> are
  appending, \<open>butlast\<close> and prefix stripping.
\<close>

definition Dir :: "string \<Rightarrow> string" where
  "Dir p = Clean (rev (dropWhile (\<lambda>c. c \<noteq> slash) (rev p)))"

text \<open>
  \<^verbatim>\<open>filepath.Rel\<close> compares the cleaned paths element by element; \<open>None\<close> is the error. (A base element
  \<^verbatim>\<open>..\<close> at the first difference cannot be undone.)
\<close>

definition elems :: "string \<Rightarrow> string list" where
  "elems p = (if p = [] \<or> p = ''/'' then [] else Split slash (if IsAbs p then tl p else p))"

fun strip_common :: "'a list \<Rightarrow> 'a list \<Rightarrow> 'a list \<times> 'a list" where
  "strip_common (x # xs) (y # ys) = (if x = y then strip_common xs ys else (x # xs, y # ys))"
| "strip_common xs ys = (xs, ys)"

definition Rel :: "string \<Rightarrow> string \<Rightarrow> string option" where
  "Rel basepath targpath =
     (let b = Clean basepath; t = Clean targpath in
      if t = b then Some ''.''
      else
        (let b1 = (if b = ''.'' then [] else b) in
         if IsAbs b1 \<noteq> IsAbs t then None
         else case strip_common (elems b1) (elems t) of
                (br, tr) \<Rightarrow>
                  if br \<noteq> [] \<and> tr \<noteq> [] \<and> hd br = ''..'' then None
                  else Some (join_slash (replicate (length br) ''..'' @ tr))))"

subsection \<open>Splitting and joining\<close>

definition plain :: "string \<Rightarrow> bool" where
  "plain c \<longleftrightarrow> c \<noteq> [] \<and> c \<noteq> ''.'' \<and> c \<noteq> ''..'' \<and> slash \<notin> set c"

definition abs_path :: "string list \<Rightarrow> string" where
  "abs_path cs = slash # join_slash cs"

lemma Split_ne [simp]: "Split sep s \<noteq> []"
  by (induction s) (auto split: list.split)

lemma Split_no_sep: "c \<in> set (Split sep s) \<Longrightarrow> sep \<notin> set c"
proof (induction s arbitrary: c)
  case (Cons x s)
  then show ?case by (cases "Split sep s") (auto split: if_splits)
qed simp

lemma Split_plain [simp]: "sep \<notin> set c \<Longrightarrow> Split sep c = [c]"
  by (induction c) auto

lemma Split_append: "sep \<notin> set c \<Longrightarrow> Split sep (c @ sep # s) = c # Split sep s"
  by (induction c) auto

lemma Split_join_slash:
  "cs \<noteq> [] \<Longrightarrow> (\<And>c. c \<in> set cs \<Longrightarrow> slash \<notin> set c) \<Longrightarrow> Split slash (join_slash cs) = cs"
proof (induction cs rule: join_slash.induct)
  case (3 x y ys)
  then show ?case by (simp add: Split_append)
qed auto

lemma join_slash_empty: "join_slash cs = [] \<Longrightarrow> cs = [] \<or> cs = [[]]"
  by (cases cs rule: join_slash.cases) auto

lemma join_slash_append:
  "as \<noteq> [] \<Longrightarrow> ds \<noteq> [] \<Longrightarrow> join_slash (as @ ds) = join_slash as @ slash # join_slash ds"
proof (induction as rule: join_slash.induct)
  case (2 x)
  then show ?case by (cases ds) auto
qed auto

lemma join_slash_snoc: "cs \<noteq> [] \<Longrightarrow> join_slash (cs @ [c]) = join_slash cs @ slash # c"
  by (induction cs rule: join_slash.induct) auto

subsection \<open>Cleaning\<close>

definition plains :: "string list \<Rightarrow> bool" where
  "plains cs \<longleftrightarrow> list_all plain cs"

lemma plains_simps [simp]:
  "plains []" "plains (c # cs) \<longleftrightarrow> plain c \<and> plains cs" "plains (cs @ ds) \<longleftrightarrow> plains cs \<and> plains ds"
  "plains (rev cs) \<longleftrightarrow> plains cs"
  by (simp_all add: plains_def list_all_iff ball_Un)

lemma plains_no_slash: "plains cs \<Longrightarrow> c \<in> set cs \<Longrightarrow> slash \<notin> set c"
  by (auto simp: plains_def list_all_iff plain_def)

text \<open>The stack \<^verbatim>\<open>Clean\<close> builds for a rooted path holds plain names only.\<close>

lemma clean_step_plain: "plains st \<Longrightarrow> slash \<notin> set c \<Longrightarrow> plains (clean_step True c st)"
  by (cases st) (auto simp: clean_step_def plain_def)

lemma clean_fold_plain:
  "plains st \<Longrightarrow> (\<And>c. c \<in> set cs \<Longrightarrow> slash \<notin> set c) \<Longrightarrow> plains (fold (clean_step True) cs st)"
  by (induction cs arbitrary: st) (simp_all add: clean_step_plain)

lemma clean_fold_id: "plains cs \<Longrightarrow> fold (clean_step rooted) cs st = rev cs @ st"
  by (induction cs arbitrary: st) (auto simp: clean_step_def plain_def)

lemma Clean_abs_path:
  assumes "IsAbs p"
  obtains cs where "plains cs" and "Clean p = abs_path cs"
proof
  let ?cs = "rev (fold (clean_step True) (Split slash p) [])"
  show "plains ?cs"
    using clean_fold_plain [of "[]" "Split slash p"] Split_no_sep by simp
  show "Clean p = abs_path ?cs"
    using assms by (simp add: Clean_def abs_path_def Let_def)
qed

lemma IsAbs_slash [simp]: "IsAbs (slash # s)"
  by (simp add: IsAbs_def HasPrefix_def)

lemma IsAbs_abs_path [simp]: "IsAbs (abs_path cs)"
  by (simp add: abs_path_def)

text \<open>\<^verbatim>\<open>Clean\<close> of a rooted path whose elements are known.\<close>

lemma Clean_rooted:
  assumes "plains cs" and "filter (\<lambda>c. c \<noteq> []) (Split slash s) = cs"
  shows "Clean (slash # s) = abs_path cs"
proof -
  have skip: "fold (clean_step True) ds st = fold (clean_step True) (filter (\<lambda>c. c \<noteq> []) ds) st" for ds st
    by (induction ds arbitrary: st) (simp_all add: clean_step_def)
  have "fold (clean_step True) (Split slash (slash # s)) [] = rev cs"
    using clean_fold_id [OF assms(1), of True "[]"] skip [of "Split slash s" "[]"]
    by (simp add: assms(2) clean_step_def)
  then show ?thesis by (simp add: Clean_def abs_path_def Let_def)
qed

lemma filter_plains [simp]: "plains cs \<Longrightarrow> filter (\<lambda>c. c \<noteq> []) cs = cs"
  by (induction cs) (simp_all add: plain_def)

lemma Split_plains: "plains cs \<Longrightarrow> filter (\<lambda>c. c \<noteq> []) (Split slash (join_slash cs)) = cs"
  by (cases "cs = []") (simp_all add: Split_join_slash plains_no_slash)

lemma Clean_id [simp]: "plains cs \<Longrightarrow> Clean (abs_path cs) = abs_path cs"
  unfolding abs_path_def by (subst Clean_rooted) (simp_all add: Split_plains abs_path_def)

lemma abs_path_inj:
  assumes "plains cs" and "plains ds"
  shows "abs_path cs = abs_path ds \<longleftrightarrow> cs = ds"
  by (metis assms Split_plains abs_path_def list.inject)

text \<open>\<^verbatim>\<open>Join\<close> of a directory and an entry's name; \<^verbatim>\<open>Dir\<close> undoes it.\<close>

lemma Join_entry:
  assumes "plains cs" and "plain n"
  shows "Join [abs_path cs, n] = abs_path (cs @ [n])"
proof -
  have n: "slash \<notin> set n" "n \<noteq> []" using assms(2) by (auto simp: plain_def)
  have "filter (\<lambda>c. c \<noteq> []) (Split slash (join_slash cs @ slash # n)) = cs @ [n]"
  proof (cases "cs = []")
    case True
    with n show ?thesis by simp
  next
    case False
    then have "join_slash cs @ slash # n = join_slash (cs @ [n])" by (simp add: join_slash_snoc)
    then show ?thesis using Split_plains [of "cs @ [n]"] assms by simp
  qed
  then have "Clean (slash # join_slash cs @ slash # n) = abs_path (cs @ [n])"
    using assms by (intro Clean_rooted) simp_all
  then show ?thesis using n by (simp add: Join_def abs_path_def)
qed

lemma Dir_abs_path:
  assumes "plains cs"
  shows "Dir (abs_path cs) = abs_path (butlast cs)"
proof (cases cs rule: rev_cases)
  case Nil
  then show ?thesis by (simp add: Dir_def abs_path_def Clean_def IsAbs_def HasPrefix_def clean_step_def)
next
  case (snoc ds n)
  have n: "slash \<notin> set n" and ds: "plains ds" using assms snoc by (auto simp: plain_def)
  have "rev (dropWhile (\<lambda>c. c \<noteq> slash) (rev (abs_path cs)))
      = slash # (if ds = [] then [] else join_slash ds @ [slash])"
    using n snoc by (cases "ds = []") (auto simp: abs_path_def join_slash_snoc dropWhile_append)
  moreover have "Clean (slash # join_slash ds @ [slash]) = abs_path ds"
  proof (rule Clean_rooted [OF ds])
    have "Split slash (s @ [slash]) = Split slash s @ [[]]" for s
      by (induction s) (auto split: list.split)
    then show "filter (\<lambda>c. c \<noteq> []) (Split slash (join_slash ds @ [slash])) = ds"
      using Split_plains [OF ds] by simp
  qed
  moreover have "Clean [slash] = abs_path []"
    using Clean_id [of "[]"] by (simp add: abs_path_def)
  ultimately show ?thesis using snoc by (auto simp: Dir_def)
qed

subsection \<open>Relative paths\<close>

lemma elems_abs_path: "plains cs \<Longrightarrow> elems (abs_path cs) = cs"
  by (cases "cs = []")
    (auto simp: elems_def abs_path_def Split_join_slash plains_no_slash plain_def dest!: join_slash_empty)

lemma strip_common_split:
  "strip_common xs ys = (br, tr) \<Longrightarrow>
   \<exists>p. xs = p @ br \<and> ys = p @ tr \<and> (br = [] \<or> tr = [] \<or> hd br \<noteq> hd tr)"
proof (induction xs ys rule: strip_common.induct)
  case (1 x xs y ys)
  show ?case
  proof (cases "x = y")
    case True
    with 1 obtain p where "xs = p @ br" "ys = p @ tr" "br = [] \<or> tr = [] \<or> hd br \<noteq> hd tr" by auto
    with True show ?thesis by (intro exI [of _ "y # p"]) simp
  qed (use 1 in auto)
qed auto

lemma strip_common_prefix: "fst (strip_common xs ys) = [] \<longleftrightarrow> prefix xs ys"
  by (induction xs ys rule: strip_common.induct) auto

lemma strip_common_append [simp]: "strip_common xs (xs @ ys) = ([], ys)"
  by (induction xs) (cases ys, auto)

text \<open>On cleaned absolute paths \<^verbatim>\<open>Rel\<close> never fails.\<close>

lemma Rel_abs_path:
  assumes "plains bs" and "plains ts" and "strip_common bs ts = (br, tr)"
  shows "Rel (abs_path bs) (abs_path ts) =
    Some (if bs = ts then ''.'' else join_slash (replicate (length br) ''..'' @ tr))"
proof -
  obtain p where p: "bs = p @ br" using strip_common_split [OF assms(3)] by blast
  have "hd br \<noteq> ''..''" if "br \<noteq> []"
    using that assms(1) p by (cases br) (auto simp: plain_def)
  moreover have "abs_path bs \<noteq> ''.''" by (simp add: abs_path_def)
  ultimately show ?thesis
    using assms by (auto simp: Rel_def Let_def abs_path_inj elems_abs_path)
qed

subsection \<open>Directory trees and WalkDir\<close>

text \<open>
  A directory tree as \<^verbatim>\<open>filepath.WalkDir\<close> finds it: the entries of a directory that could be read, in
  lexical order, and for an entry that is not a directory its type and the modification time
  \<^verbatim>\<open>d.Info()\<close> reports (\<open>None\<close> for an error). An error of \<^verbatim>\<open>ReadDir\<close> is reported to the callback, which the
  callers here ignore, and the entries read before it are walked.
\<close>

datatype FType = Regular | Irregular

datatype FNode = FFile (node_name: string) FType "Time option" | FDir (node_name: string) "FNode list"

text \<open>The callback returns the new state and whether it answered \<^verbatim>\<open>SkipDir\<close>; the callers answer so for
  directories only.\<close>

fun WalkDir :: "(string \<Rightarrow> FNode \<Rightarrow> 's \<Rightarrow> 's \<times> bool) \<Rightarrow> string \<Rightarrow> FNode \<Rightarrow> 's \<Rightarrow> 's" where
  "WalkDir fn path (FFile n ty mt) s = fst (fn path (FFile n ty mt) s)"
| "WalkDir fn path (FDir n kids) s =
     (case fn path (FDir n kids) s of (s', skip) \<Rightarrow>
        if skip then s' else fold (\<lambda>k. WalkDir fn (Join [path, node_name k]) k) kids s')"

text \<open>Names in a directory are plain.\<close>

fun wf_node :: "FNode \<Rightarrow> bool" where
  "wf_node (FFile n ty mt) \<longleftrightarrow> plain n"
| "wf_node (FDir n kids) \<longleftrightarrow> plain n \<and> list_all wf_node kids"

fun wf_root :: "FNode \<Rightarrow> bool" where
  "wf_root (FFile n ty mt) \<longleftrightarrow> True"
| "wf_root (FDir n kids) \<longleftrightarrow> list_all wf_node kids"

subsection \<open>Substrings of paths\<close>

definition Contains :: "string \<Rightarrow> string \<Rightarrow> bool" where
  "Contains s sub \<longleftrightarrow> Index s sub \<noteq> None"

lemma Index_append: "Index (u @ sub @ v) sub \<noteq> None"
proof (induction u)
  case Nil
  have "HasPrefix (sub @ v) sub" by simp
  then show ?case by (cases "sub @ v") auto
qed auto

lemma Contains_iff: "Contains s sub \<longleftrightarrow> (\<exists>u v. s = u @ sub @ v)"
  using Index_append Index_Some_split by (fastforce simp: Contains_def)

lemma Split_append_sep: "Split sep (u @ sep # v) = Split sep u @ Split sep v"
proof (induction u)
  case (Cons c u)
  then show ?case by (cases "Split sep u") (auto split: list.split)
qed simp

lemma butlast_snoc_eq: "xs @ [x] @ ys = zs \<Longrightarrow> ys \<noteq> [] \<Longrightarrow> x \<in> set (butlast zs)"
  by (auto simp: butlast_append)

text \<open>\<^verbatim>\<open>/name/\<close> occurs in a path exactly when \<^verbatim>\<open>name\<close> is one of its directories.\<close>

lemma Contains_dir:
  assumes "plains ds" and "plain c"
  shows "Contains (abs_path ds) (slash # c @ [slash]) \<longleftrightarrow> c \<in> set (butlast ds)"
proof
  assume "Contains (abs_path ds) (slash # c @ [slash])"
  then obtain u v where uv: "abs_path ds = u @ slash # c @ slash # v" by (auto simp: Contains_iff)
  have ds: "ds \<noteq> []"
  proof
    assume "ds = []"
    then have "length (abs_path ds) = 1" by (simp add: abs_path_def)
    with uv show False by simp
  qed
  have "Split slash (abs_path ds) = [] # ds"
    using assms(1) ds by (simp add: abs_path_def Split_join_slash plains_no_slash)
  moreover have "Split slash (abs_path ds) = Split slash u @ [c] @ Split slash v"
    using uv assms(2) by (simp add: Split_append_sep Split_append plain_def)
  ultimately have "c \<in> set (butlast ([] # ds))"
    using butlast_snoc_eq [of "Split slash u" c "Split slash v"] by simp
  with ds assms(2) show "c \<in> set (butlast ds)" by (auto simp: plain_def)
next
  assume "c \<in> set (butlast ds)"
  then obtain as bs where "butlast ds = as @ c # bs" by (meson split_list)
  moreover have "ds = butlast ds @ [last ds]"
    using \<open>c \<in> set (butlast ds)\<close> by (cases ds) auto
  ultimately obtain b bs' where ds: "ds = as @ c # b # bs'"
    by (cases bs) auto
  have "abs_path ds = (if as = [] then [] else abs_path as) @ (slash # c @ [slash]) @ join_slash (b # bs')"
    using join_slash_append [of as "c # b # bs'"] by (simp add: ds abs_path_def)
  then show "Contains (abs_path ds) (slash # c @ [slash])"
    unfolding Contains_iff by blast
qed

end
