(* ===== verification/Watch.thy ===== *)
theory Watch
  imports Go_Path
begin

text \<open>
  \<^verbatim>\<open>internal/watch/watch.go\<close>: coalesced change notifications for a directory that may not exist yet.
  The operating system's watcher is not under \<^verbatim>\<open>src/\<close>: whether a watch on a path can be installed is the
  parameter \<open>add\<close>, which is asked with the number of the call, so that directories may appear between
  two calls. The notification channel has capacity one and is a flag.
\<close>

definition debounce :: Duration where "debounce = 50 * Millisecond"

definition within :: "string \<Rightarrow> string \<Rightarrow> bool" where
  "within target name =
     (let n = Clean name in
      if n = target then True
      else case Rel target n of
             None \<Rightarrow> False
           | Some rel \<Rightarrow> rel \<noteq> ''..'' \<and> \<not> HasPrefix rel ''../'')"

record Watcher =
  wt_watched :: "string list"
  wt_calls :: nat

definition w_Add :: "(nat \<Rightarrow> string \<Rightarrow> bool) \<Rightarrow> string \<Rightarrow> Watcher \<Rightarrow> bool \<times> Watcher" where
  "w_Add add p w =
     (let ok = add (wt_calls w) p in
      (ok, w\<lparr>wt_calls := Suc (wt_calls w), wt_watched := (if ok then p # wt_watched w else wt_watched w)\<rparr>))"

text \<open>\<^verbatim>\<open>addNearest\<close>, the climb to the nearest path that can be watched: the path, or the verdict on the
  root. Neither loop is bounded by its text: not returning is \<open>None\<close>.\<close>

partial_function (option) climb ::
    "(nat \<Rightarrow> string \<Rightarrow> bool) \<Rightarrow> string \<Rightarrow> Watcher \<Rightarrow> ((string + bool) \<times> Watcher) option" where
  "climb add p w =
     (case w_Add add p w of (ok, w1) \<Rightarrow>
        if ok then Some (Inl p, w1)
        else if Dir p = p then (case w_Add add p w1 of (ok2, w2) \<Rightarrow> Some (Inr ok2, w2))
        else climb add (Dir p) w1)"

text \<open>The walk back down.\<close>

partial_function (option) descend ::
    "(nat \<Rightarrow> string \<Rightarrow> bool) \<Rightarrow> string \<Rightarrow> string \<Rightarrow> Watcher \<Rightarrow> Watcher option" where
  "descend add target p w =
     (if p = target then Some w
      else case Rel p target of
             None \<Rightarrow> Some w
           | Some rel \<Rightarrow>
               if rel = ''.'' then Some w
               else
                 (let q = Join [p, hd (Split slash rel)] in
                  case w_Add add q w of (ok, w1) \<Rightarrow>
                    if ok then descend add target q w1 else Some w1))"

definition addNearest :: "(nat \<Rightarrow> string \<Rightarrow> bool) \<Rightarrow> string \<Rightarrow> Watcher \<Rightarrow> (bool \<times> Watcher) option" where
  "addNearest add target w =
     (case climb add target w of
        None \<Rightarrow> None
      | Some (Inr ok, w1) \<Rightarrow> Some (ok, w1)
      | Some (Inl p, w1) \<Rightarrow> map_option (Pair True) (descend add target p w1))"

subsection \<open>The goroutine\<close>

record WatchState =
  ws_w :: Watcher
  ws_timer :: bool
  ws_ch :: bool
  ws_stopped :: bool

definition notify :: "WatchState \<Rightarrow> WatchState" where
  "notify s = s\<lparr>ws_ch := True\<rparr>"

text \<open>What can arrive at the \<^verbatim>\<open>select\<close>: the cancellation, a file event (whether it is a create, its name,
  whether the target exists by then and how the watches re-armed for it answer), a closed event or error
  stream, the debounce timer, an error; and the consumer taking the pending hint.\<close>

datatype WInput =
    WDone | WClosed | WTimer | WError | WTake
  | WEvent bool string bool "nat \<Rightarrow> string \<Rightarrow> bool"

definition rearm :: "string \<Rightarrow> (nat \<Rightarrow> string \<Rightarrow> bool) \<Rightarrow> WatchState \<Rightarrow> WatchState" where
  "rearm target add s =
     (case addNearest add target (ws_w s) of None \<Rightarrow> s | Some (_, w) \<Rightarrow> s\<lparr>ws_w := w\<rparr>)"

definition watch_input :: "string \<Rightarrow> WInput \<Rightarrow> WatchState \<Rightarrow> WatchState" where
  "watch_input target i s =
     (case i of
        WTake \<Rightarrow> s\<lparr>ws_ch := False\<rparr>
      | _ \<Rightarrow>
        (if ws_stopped s then s
         else case i of
           WDone \<Rightarrow> s\<lparr>ws_timer := False, ws_stopped := True\<rparr>
         | WClosed \<Rightarrow> s\<lparr>ws_stopped := True\<rparr>
         | WError \<Rightarrow> notify s
         | WTimer \<Rightarrow> if ws_timer s then notify (s\<lparr>ws_timer := False\<rparr>) else s
         | WEvent create name exists add \<Rightarrow>
             (let s1 = (if create then (let s2 = rearm target add s in if exists then notify s2 else s2) else s) in
              if \<not> within target name then s1 else s1\<lparr>ws_timer := True\<rparr>)
         | WTake \<Rightarrow> s))"

definition watch_run :: "string \<Rightarrow> WInput list \<Rightarrow> WatchState \<Rightarrow> WatchState" where
  "watch_run target is s = fold (watch_input target) is s"

text \<open>\<^verbatim>\<open>Subscribe\<close>: \<open>None\<close> when nothing can be watched.\<close>

definition watch_Subscribe :: "(nat \<Rightarrow> string \<Rightarrow> bool) \<Rightarrow> string \<Rightarrow> WatchState option" where
  "watch_Subscribe add dir =
     (case addNearest add (Clean dir) \<lparr>wt_watched = [], wt_calls = 0\<rparr> of
        Some (True, w) \<Rightarrow> Some \<lparr>ws_w = w, ws_timer = False, ws_ch = False, ws_stopped = False\<rparr>
      | _ \<Rightarrow> None)"

subsection \<open>Which events count\<close>

lemma within_abs:
  assumes "plains ts" and "plains ns"
  shows "within (abs_path ts) (abs_path ns) \<longleftrightarrow> prefix ts ns"
proof -
  obtain br tr where st: "strip_common ts ns = (br, tr)" by fastforce
  then obtain p where p: "ts = p @ br" "ns = p @ tr" using strip_common_split by blast
  show ?thesis
  proof (cases "br = []")
    case True
    show ?thesis
    proof (cases "tr = []")
      case True
      with \<open>br = []\<close> p show ?thesis using assms by (simp add: within_def)
    next
      case False
      then obtain n tr' where tr: "tr = n # tr'" by (cases tr) auto
      have n: "n \<noteq> ''..''" "slash \<notin> set n" "n \<noteq> []" using assms(2) p tr by (auto simp: plain_def)
      have "join_slash tr \<noteq> ''..'' \<and> \<not> HasPrefix (join_slash tr) ''../''"
      proof -
        have "hd (Split slash (join_slash tr)) = n"
          using assms(2) p tr by (subst Split_join_slash) (auto simp: plains_no_slash plain_def)
        moreover have "hd (Split slash ''..'') = ''..''" by simp
        moreover have "hd (Split slash (''../'' @ s)) = ''..''" for s by simp
        ultimately show ?thesis using n(1) by (metis HasPrefix_iff)
      qed
      with True False p Rel_abs_path [OF assms st] assms show ?thesis
        by (simp add: within_def Let_def abs_path_inj)
    qed
  next
    case False
    then obtain k where k: "length br = Suc k" by (cases br) auto
    have "\<not> prefix ts ns"
      using strip_common_prefix [of ts ns] st False by simp
    moreover have "ts \<noteq> ns" using calculation by auto
    moreover have "join_slash (replicate (length br) ''..'' @ tr) = ''..''
        \<or> HasPrefix (join_slash (replicate (length br) ''..'' @ tr)) ''../''"
      by (cases "replicate k ''..'' @ tr") (simp_all add: k HasPrefix_def)
    ultimately show ?thesis
      using Rel_abs_path [OF assms st] assms by (auto simp: within_def Let_def abs_path_inj)
  qed
qed

subsection \<open>Arming the watch\<close>

lemma w_Add_simps [simp]:
  "fst (w_Add add p w) = add (wt_calls w) p" "wt_calls (snd (w_Add add p w)) = Suc (wt_calls w)"
  "set (wt_watched (snd (w_Add add p w))) = (if add (wt_calls w) p then insert p (set (wt_watched w)) else set (wt_watched w))"
  by (simp_all add: w_Add_def Let_def)

text \<open>Call number \<open>i\<close> installed a watch on \<open>p\<close>, and it was the last call so far.\<close>

definition just_added :: "(nat \<Rightarrow> string \<Rightarrow> bool) \<Rightarrow> string \<Rightarrow> nat \<Rightarrow> Watcher \<Rightarrow> bool" where
  "just_added add p i w \<longleftrightarrow> wt_calls w = Suc i \<and> add i p \<and> p \<in> set (wt_watched w)"

lemma just_added_w_Add: "add (wt_calls w) p \<Longrightarrow> just_added add p (wt_calls w) (snd (w_Add add p w))"
  by (simp add: just_added_def)

lemma climb_abs:
  assumes "plains cs" and "\<And>i. add i ''/''"
  shows "\<exists>k i w'. k \<le> length cs \<and> climb add (abs_path cs) w = Some (Inl (abs_path (take k cs)), w')
    \<and> just_added add (abs_path (take k cs)) i w'"
  using assms(1)
proof (induction cs arbitrary: w rule: rev_induct)
  case Nil
  have "add (wt_calls w) (abs_path [])" using assms(2) by (simp add: abs_path_def)
  then show ?case
    by (subst climb.simps) (auto simp: case_prod_unfold intro: just_added_w_Add)
next
  case (snoc c cs)
  show ?case
  proof (cases "add (wt_calls w) (abs_path (cs @ [c]))")
    case True
    then have "climb add (abs_path (cs @ [c])) w = Some (Inl (abs_path (cs @ [c])), snd (w_Add add (abs_path (cs @ [c])) w))"
      by (subst climb.simps) (simp add: case_prod_unfold)
    with just_added_w_Add [of add w] True show ?thesis
      by (intro exI [of _ "Suc (length cs)"] exI [of _ "wt_calls w"]) simp
  next
    case False
    have dir: "Dir (abs_path (cs @ [c])) = abs_path cs" "abs_path cs \<noteq> abs_path (cs @ [c])"
      using snoc.prems Dir_abs_path [of "cs @ [c]"] abs_path_inj [of cs "cs @ [c]"] by auto
    obtain k i w' where "k \<le> length cs"
        "climb add (abs_path cs) (snd (w_Add add (abs_path (cs @ [c])) w)) = Some (Inl (abs_path (take k cs)), w')"
        "just_added add (abs_path (take k cs)) i w'"
      using snoc by fastforce
    moreover have "climb add (abs_path (cs @ [c])) w = climb add (abs_path cs) (snd (w_Add add (abs_path (cs @ [c])) w))"
      using False dir by (subst climb.simps) (simp add: case_prod_unfold)
    ultimately show ?thesis
      by (intro exI [of _ k] exI [of _ i] exI [of _ w']) simp
  qed
qed

text \<open>Either the target is watched, or its nearest watched ancestor is, and the next directory on the way
  did not exist when it was looked for after that watch was in place.\<close>

definition armed :: "(nat \<Rightarrow> string \<Rightarrow> bool) \<Rightarrow> string list \<Rightarrow> Watcher \<Rightarrow> bool" where
  "armed add ts w \<longleftrightarrow> abs_path ts \<in> set (wt_watched w)
     \<or> (\<exists>k i. k < length ts \<and> abs_path (take k ts) \<in> set (wt_watched w)
          \<and> add i (abs_path (take k ts)) \<and> \<not> add (Suc i) (abs_path (take (Suc k) ts)))"

lemma descend_abs:
  assumes "plains ts"
  shows "k \<le> length ts \<Longrightarrow> just_added add (abs_path (take k ts)) i w \<Longrightarrow>
    \<exists>w'. descend add (abs_path ts) (abs_path (take k ts)) w = Some w' \<and> armed add ts w'"
proof (induction "length ts - k" arbitrary: k i w)
  case 0
  then show ?case by (subst descend.simps) (auto simp: armed_def just_added_def)
next
  case (Suc d)
  then have k: "k < length ts" by simp
  have pl: "plains (take k ts)" "plains (drop k ts)"
    using assms by (metis append_take_drop_id plains_simps(3))+
  have ne: "take k ts \<noteq> ts" using k by (metis length_take less_irrefl min.absorb4)
  have st: "strip_common (take k ts) ts = ([], drop k ts)"
    by (metis append_take_drop_id strip_common_append)
  have rel: "Rel (abs_path (take k ts)) (abs_path ts) = Some (join_slash (drop k ts))"
    using Rel_abs_path [OF pl(1) assms st] ne by simp
  have nth: "drop k ts = ts ! k # drop (Suc k) ts" using k by (simp add: Cons_nth_drop_Suc)
  then have plk: "plain (ts ! k)" using pl(2) by simp
  have "Split slash (join_slash (drop k ts)) = drop k ts"
    using k pl(2) by (intro Split_join_slash) (auto simp: plains_no_slash)
  then have hd: "hd (Split slash (join_slash (drop k ts))) = ts ! k" and dot: "join_slash (drop k ts) \<noteq> ''.''"
    using nth plk by (auto simp: plain_def)
  have child: "Join [abs_path (take k ts), ts ! k] = abs_path (take (Suc k) ts)"
    using Join_entry [OF pl(1) plk] k by (simp add: take_Suc_conv_app_nth)
  let ?q = "abs_path (take (Suc k) ts)"
  have step: "descend add (abs_path ts) (abs_path (take k ts)) w =
      (if add (Suc i) ?q then descend add (abs_path ts) ?q (snd (w_Add add ?q w)) else Some (snd (w_Add add ?q w)))"
    using Suc.prems(2) ne assms pl rel hd dot child
    by (subst descend.simps) (simp add: abs_path_inj case_prod_unfold Let_def just_added_def)
  show ?case
  proof (cases "add (Suc i) ?q")
    case True
    have "just_added add ?q (Suc i) (snd (w_Add add ?q w))"
      using True Suc.prems(2) just_added_w_Add [of add w ?q] by (simp add: just_added_def)
    with Suc.hyps(1) [of "Suc k" "Suc i"] Suc.hyps(2) k step True show ?thesis by auto
  next
    case False
    with step k Suc.prems(2) show ?thesis by (auto simp: armed_def just_added_def)
  qed
qed

text \<open>C33: Arming never leaves a gap. For an absolute directory, and as long as the root can be
  watched, both loops of \<^verbatim>\<open>addNearest\<close> end, the subscription succeeds, and then either the directory
  itself is watched or its nearest existing ancestor is, and the next directory on the way did not
  exist when it was looked for after that ancestor's watch was in place: its creation is an event, which
  re-arms the watch. This holds however directories appear while the loops run.\<close>

theorem Subscribe_no_gap:
  assumes "IsAbs dir" and "\<And>i. add i ''/''"
  shows "\<exists>s ts. watch_Subscribe add dir = Some s \<and> Clean dir = abs_path ts \<and> plains ts
    \<and> (abs_path ts \<in> set (wt_watched (ws_w s))
       \<or> (\<exists>k i. k < length ts \<and> abs_path (take k ts) \<in> set (wt_watched (ws_w s))
            \<and> add i (abs_path (take k ts)) \<and> \<not> add (Suc i) (abs_path (take (Suc k) ts))))"
proof -
  obtain ts where ts: "plains ts" "Clean dir = abs_path ts" using Clean_abs_path [OF assms(1)] .
  let ?w = "\<lparr>wt_watched = [], wt_calls = 0\<rparr>"
  obtain k i w' where 1: "k \<le> length ts" "climb add (abs_path ts) ?w = Some (Inl (abs_path (take k ts)), w')"
      "just_added add (abs_path (take k ts)) i w'"
    using climb_abs [of ts add, OF ts(1) assms(2)] by blast
  then obtain w'' where "descend add (abs_path ts) (abs_path (take k ts)) w' = Some w''" "armed add ts w''"
    using descend_abs [OF ts(1)] by blast
  with 1 ts show ?thesis by (auto simp: watch_Subscribe_def addNearest_def armed_def)
qed

lemma Subscribe_no_gap_witness:
  "\<exists>s ts. watch_Subscribe (\<lambda>i p. p = ''/'' \<or> 2 \<le> i) ''/a/b'' = Some s \<and> Clean ''/a/b'' = abs_path ts \<and> plains ts
    \<and> (abs_path ts \<in> set (wt_watched (ws_w s))
       \<or> (\<exists>k i. k < length ts \<and> abs_path (take k ts) \<in> set (wt_watched (ws_w s))
            \<and> (abs_path (take k ts) = ''/'' \<or> 2 \<le> i)
            \<and> \<not> (abs_path (take (Suc k) ts) = ''/'' \<or> 2 \<le> Suc i)))"
  using Subscribe_no_gap [of "''/a/b''" "\<lambda>i p. p = ''/'' \<or> 2 \<le> i"] by (simp add: IsAbs_def HasPrefix_def)

subsection \<open>No hint is lost\<close>

lemma rearm_simps [simp]:
  "ws_timer (rearm target add s) = ws_timer s" "ws_ch (rearm target add s) = ws_ch s"
  "ws_stopped (rearm target add s) = ws_stopped s"
  by (simp_all add: rearm_def split: option.split)

definition quiet :: "WInput \<Rightarrow> bool" where
  "quiet i \<longleftrightarrow> i \<notin> {WDone, WClosed, WTake}"

lemma watch_input_keeps:
  assumes "quiet i" and "\<not> ws_stopped s"
  shows "\<not> ws_stopped (watch_input target i s)"
    and "ws_ch s \<Longrightarrow> ws_ch (watch_input target i s)"
    and "ws_timer s \<or> ws_ch s \<Longrightarrow> ws_timer (watch_input target i s) \<or> ws_ch (watch_input target i s)"
    and "ws_timer s \<or> ws_ch s \<Longrightarrow> i = WTimer \<Longrightarrow> ws_ch (watch_input target i s)"
  using assms by (auto simp: watch_input_def quiet_def notify_def Let_def split: WInput.splits)

lemma watch_run_keeps:
  assumes "list_all quiet is" and "\<not> ws_stopped s" and "ws_timer s \<or> ws_ch s"
  shows "(ws_timer (watch_run target is s) \<or> ws_ch (watch_run target is s))
    \<and> (ws_ch s \<or> WTimer \<in> set is \<longrightarrow> ws_ch (watch_run target is s))"
  using assms
proof (induction "is" arbitrary: s)
  case (Cons i "is")
  then have i: "quiet i" by simp
  note keep = watch_input_keeps [OF i Cons.prems(2), of target]
  have "(ws_timer (watch_run target is (watch_input target i s)) \<or> ws_ch (watch_run target is (watch_input target i s)))
    \<and> (ws_ch (watch_input target i s) \<or> WTimer \<in> set is \<longrightarrow> ws_ch (watch_run target is (watch_input target i s)))"
    using Cons.prems keep(1) keep(3) by (intro Cons.IH) auto
  with keep(2) keep(4) Cons.prems(3) show ?case by (auto simp: watch_run_def)
qed (simp add: watch_run_def)

text \<open>C34: No change goes unnoticed. After an event at or below an absolute target directory the
  consumer has a pending hint, or the debounce timer runs, whatever else happens until it takes a
  hint or cancels; and once the timer has fired the hint is pending. An error of the watcher and a
  create that brings the target into being give the hint at once.\<close>

theorem event_gives_hint:
  assumes "plains ts" and "plains ns" and "prefix ts ns" and "\<not> ws_stopped s"
    and "i = WEvent create (abs_path ns) exists add \<or> i = WError" and "list_all quiet is"
  shows "let s' = watch_run (abs_path ts) (i # is) s in
    (ws_timer s' \<or> ws_ch s') \<and> (WTimer \<in> set is \<or> i = WError \<or> create \<and> exists \<longrightarrow> ws_ch s')"
proof -
  let ?s = "watch_input (abs_path ts) i s"
  have w: "within (abs_path ts) (abs_path ns)" using within_abs assms(1-3) by simp
  have run: "\<not> ws_stopped ?s"
    using assms(4,5) by (intro watch_input_keeps(1)) (auto simp: quiet_def)
  have now: "ws_timer ?s \<or> ws_ch ?s" "i = WError \<or> create \<and> exists \<longrightarrow> ws_ch ?s"
    using assms(4,5) w by (auto simp: watch_input_def notify_def Let_def)
  show ?thesis
    using watch_run_keeps [OF assms(6) run now(1), of "abs_path ts"] now(2)
    by (auto simp: watch_run_def Let_def)
qed

lemma event_gives_hint_witness:
  "ws_ch (watch_run (abs_path [''runs'']) [WEvent False (abs_path [''runs'', ''r.json'']) True (\<lambda>_ _. True), WTimer]
     \<lparr>ws_w = \<lparr>wt_watched = [], wt_calls = 0\<rparr>, ws_timer = False, ws_ch = False, ws_stopped = False\<rparr>)"
  using event_gives_hint [of "[''runs'']" "[''runs'', ''r.json'']"
      "\<lparr>ws_w = \<lparr>wt_watched = [], wt_calls = 0\<rparr>, ws_timer = False, ws_ch = False, ws_stopped = False\<rparr>"
      "WEvent False (abs_path [''runs'', ''r.json'']) True (\<lambda>_ _. True)" False True "\<lambda>_ _. True" "[WTimer]"]
  by (simp add: plain_def quiet_def Let_def)

end
