(* ===== verification/Worktree.thy ===== *)
theory Worktree
  imports Config Model Go_Path
begin

text \<open>
  \<^verbatim>\<open>internal/worktree/worktree.go\<close>: the git worktrees of write-mode jobs.

  git and the file system are outside the program: a state of type \<open>'w\<close> and the four calls of \<open>Os\<close> on it.
  \<open>os_git\<close> takes the whole argument list and answers with the exit code and the combined output, or with the
  reason why there is none (not started, killed by the context). What the theorems rely on is stated as
  \<open>git_contract\<close>, the documented behaviour of the commands in terms of the branches, the registered
  worktrees and the paths that exist.
\<close>

datatype GitRes = Exit int string | NotRun string

record 'w Os =
  os_git :: "string list \<Rightarrow> 'w \<Rightarrow> GitRes \<times> 'w"
  os_stat :: "string \<Rightarrow> 'w \<Rightarrow> bool"
  os_MkdirAll :: "string \<Rightarrow> 'w \<Rightarrow> string option \<times> 'w"
  os_RemoveAll :: "string \<Rightarrow> 'w \<Rightarrow> 'w"

datatype WtErr =
    NotAGitRepo
  | RevParseHead GitRes
  | MkdirBase string
  | PathExists string
  | ShowRef string GitRes
  | BranchExists string
  | WorktreeAdd GitRes
  | DiffStatErr GitRes
  | DiffNames GitRes
  | WorktreePrune GitRes

definition resolveBaseDir :: "(string \<Rightarrow> string) \<Rightarrow> string \<Rightarrow> string" where
  "resolveBaseDir getenv TempDir =
     (if getenv ''XDG_STATE_HOME'' \<noteq> [] then Join [getenv ''XDG_STATE_HOME'', WorktreeSubdir]
      else if getenv ''HOME'' \<noteq> [] then Join [getenv ''HOME'', ''.local'', ''state'', WorktreeSubdir]
      else Join [TempDir, WorktreeSubdir])"

record Manager =
  mg_repoCWD :: string

text \<open>\<^verbatim>\<open>runGitIn\<close>: a non-zero exit is an error like a command that did not run.\<close>

definition runGitIn :: "'w Os \<Rightarrow> string \<Rightarrow> string list \<Rightarrow> 'w \<Rightarrow> (GitRes + string) \<times> 'w" where
  "runGitIn os dir args w =
     (case os_git os (''-C'' # dir # args) w of
        (Exit n out, w1) \<Rightarrow> (if n = 0 then Inr out else Inl (Exit n out), w1)
      | (NotRun e, w1) \<Rightarrow> (Inl (NotRun e), w1))"

definition runGit :: "'w Os \<Rightarrow> Manager \<Rightarrow> string list \<Rightarrow> 'w \<Rightarrow> (GitRes + string) \<times> 'w" where
  "runGit os m args w = runGitIn os (mg_repoCWD m) args w"

definition NewManager :: "'w Os \<Rightarrow> string \<Rightarrow> 'w \<Rightarrow> (WtErr + Manager) \<times> 'w" where
  "NewManager os cwd w =
     (case runGitIn os cwd [''rev-parse'', ''--is-inside-work-tree''] w of
        (Inl _, w1) \<Rightarrow> (Inl NotAGitRepo, w1)
      | (Inr out, w1) \<Rightarrow> (if TrimSpace out \<noteq> ''true'' then Inl NotAGitRepo else Inr \<lparr>mg_repoCWD = cwd\<rparr>, w1))"

record Handle =
  hd_JobID :: string
  hd_Path :: string
  hd_Branch :: string
  hd_BaseCommit :: string
  hd_DirtyWarning :: string

definition branchFor :: "string \<Rightarrow> string" where
  "branchFor jobID = WorktreeBranchPrefix @ jobID"

definition branchExists :: "'w Os \<Rightarrow> Manager \<Rightarrow> string \<Rightarrow> 'w \<Rightarrow> (WtErr + bool) \<times> 'w" where
  "branchExists os m branch w =
     (case os_git os [''-C'', mg_repoCWD m, ''show-ref'', ''--verify'', ''--quiet'', ''refs/heads/'' @ branch] w of
        (r, w1) \<Rightarrow>
          (case r of
             Exit n out \<Rightarrow> if n = 0 then Inr True else if n = 1 then Inr False else Inl (ShowRef branch r)
           | NotRun e \<Rightarrow> Inl (ShowRef branch r), w1))"

definition dirtyWarning :: "'w Os \<Rightarrow> Manager \<Rightarrow> 'w \<Rightarrow> string \<times> 'w" where
  "dirtyWarning os m w =
     (case runGit os m [''status'', ''--porcelain''] w of
        (Inl _, w1) \<Rightarrow> ([], w1)
      | (Inr out, w1) \<Rightarrow>
          (if TrimSpace out \<noteq> [] then ''HEAD has uncommitted/untracked changes; worktree branched from committed HEAD only''
           else [], w1))"

text \<open>\<^verbatim>\<open>Create\<close>, with \<open>base\<close> what \<^verbatim>\<open>baseDirFn\<close> returned: HEAD, the base directory, the two collision checks, the warning,
  the worktree.\<close>

definition Create :: "'w Os \<Rightarrow> string \<Rightarrow> Manager \<Rightarrow> string \<Rightarrow> 'w \<Rightarrow> (WtErr + Handle) \<times> 'w" where
  "Create os base m jobID w =
     (case runGit os m [''rev-parse'', ''HEAD''] w of
        (Inl e, w1) \<Rightarrow> (Inl (RevParseHead e), w1)
      | (Inr out, w1) \<Rightarrow>
          (let head = TrimSpace out in
           case os_MkdirAll os base w1 of
             (Some e, w2) \<Rightarrow> (Inl (MkdirBase e), w2)
           | (None, w2) \<Rightarrow>
               (let path = Join [base, ''job-'' @ jobID]; branch = branchFor jobID in
                if os_stat os path w2 then (Inl (PathExists path), w2)
                else case branchExists os m branch w2 of
                       (Inl e, w3) \<Rightarrow> (Inl e, w3)
                     | (Inr exists, w3) \<Rightarrow>
                         if exists then (Inl (BranchExists branch), w3)
                         else
                           (case dirtyWarning os m w3 of
                              (warn, w4) \<Rightarrow>
                                (case runGit os m [''worktree'', ''add'', ''-b'', branch, path, ''HEAD''] w4 of
                                   (Inl e, w5) \<Rightarrow> (Inl (WorktreeAdd e), w5)
                                 | (Inr _, w5) \<Rightarrow>
                                     (Inr \<lparr>hd_JobID = jobID, hd_Path = path, hd_Branch = branch,
                                           hd_BaseCommit = head, hd_DirtyWarning = warn\<rparr>, w5))))))"

definition NUL :: char where "NUL = char_of (0 :: nat)"

definition Diff :: "'w Os \<Rightarrow> Handle \<Rightarrow> 'w \<Rightarrow> (WtErr + string \<times> string list) \<times> 'w" where
  "Diff os h w =
     (case runGitIn os (hd_Path h) [''diff'', ''--stat'', hd_BaseCommit h] w of
        (Inl e, w1) \<Rightarrow> (Inl (DiffStatErr e), w1)
      | (Inr statOut, w1) \<Rightarrow>
          (case runGitIn os (hd_Path h) [''diff'', ''--name-only'', ''-z'', hd_BaseCommit h] w1 of
             (Inl e, w2) \<Rightarrow> (Inl (DiffNames e), w2)
           | (Inr nameOut, w2) \<Rightarrow>
               (Inr (TrimRight statOut nl, filter (\<lambda>f. f \<noteq> []) (Split NUL nameOut)), w2)))"

definition WriteInfo_of :: "'w Os \<Rightarrow> Handle \<Rightarrow> 'w \<Rightarrow> (WtErr + WriteInfo) \<times> 'w" where
  "WriteInfo_of os h w =
     (case Diff os h w of
        (Inl e, w1) \<Rightarrow> (Inl e, w1)
      | (Inr (diffStat, files), w1) \<Rightarrow>
          (Inr \<lparr>wr_Branch = hd_Branch h, wr_WorktreePath = hd_Path h, wr_DiffStat = diffStat, wr_FilesChanged = files\<rparr>, w1))"

definition resolveCommonRepo :: "'w Os \<Rightarrow> string \<Rightarrow> 'w \<Rightarrow> string \<times> 'w" where
  "resolveCommonRepo os worktreePath w =
     (case runGitIn os worktreePath [''rev-parse'', ''--git-common-dir''] w of
        (Inl _, w1) \<Rightarrow> ([], w1)
      | (Inr out, w1) \<Rightarrow>
          (let commonDir = TrimSpace out in
           (if commonDir = [] then []
            else Dir (if IsAbs commonDir then commonDir else Join [worktreePath, commonDir]), w1)))"

text \<open>\<^verbatim>\<open>if _, err := os.Stat(p); err == nil { _ = os.RemoveAll(p) }\<close>\<close>

definition remove_leftover :: "'w Os \<Rightarrow> string \<Rightarrow> 'w \<Rightarrow> 'w" where
  "remove_leftover os p w = (if os_stat os p w then os_RemoveAll os p w else w)"

definition Prune :: "'w Os \<Rightarrow> string \<Rightarrow> string \<Rightarrow> 'w \<Rightarrow> WtErr option \<times> 'w" where
  "Prune os worktreePath branch w =
     (case resolveCommonRepo os worktreePath w of
        (repo, w1) \<Rightarrow>
          if repo = [] then (None, remove_leftover os worktreePath w1)
          else
            (let w2 = snd (runGitIn os repo [''worktree'', ''remove'', ''--force'', worktreePath] w1);
                 w3 = remove_leftover os worktreePath w2;
                 w4 = snd (runGitIn os repo [''branch'', ''-D'', branch] w3)
             in case runGitIn os repo [''worktree'', ''prune''] w4 of
                  (Inl e, w5) \<Rightarrow> (Some (WorktreePrune e), w5)
                | (Inr _, w5) \<Rightarrow> (None, w5)))"

subsection \<open>What git promises\<close>

record GitView =
  gv_branches :: "string set"
  gv_trees :: "(string \<times> string) set"
  gv_paths :: "string set"

definition below :: "string \<Rightarrow> string \<Rightarrow> bool" where
  "below p q \<longleftrightarrow> q = p \<or> HasPrefix q (p @ ''/'')"

definition drop_path :: "string \<Rightarrow> GitView \<Rightarrow> GitView" where
  "drop_path p v = v\<lparr>gv_paths := {q \<in> gv_paths v. \<not> below p q}\<rparr>"

definition drop_tree :: "string \<Rightarrow> GitView \<Rightarrow> GitView" where
  "drop_tree p v = v\<lparr>gv_trees := {t \<in> gv_trees v. fst t \<noteq> p}\<rparr>"

definition drop_branch :: "string \<Rightarrow> GitView \<Rightarrow> GitView" where
  "drop_branch b v = (if b \<in> snd ` gv_trees v then v else v\<lparr>gv_branches := gv_branches v - {b}\<rparr>)"

definition drop_stale :: "GitView \<Rightarrow> GitView" where
  "drop_stale v = v\<lparr>gv_trees := {t \<in> gv_trees v. fst t \<in> gv_paths v}\<rparr>"

definition add_tree :: "string \<Rightarrow> string \<Rightarrow> GitView \<Rightarrow> GitView" where
  "add_tree p b v = \<lparr>gv_branches = insert b (gv_branches v), gv_trees = insert (p, b) (gv_trees v), gv_paths = insert p (gv_paths v)\<rparr>"

lemmas view_defs = drop_path_def drop_tree_def drop_branch_def drop_stale_def add_tree_def

text \<open>
  The commands in the directories \<open>D\<close> of one repository: queries change nothing; \<^verbatim>\<open>worktree add\<close> registers the path,
  with a new branch; \<^verbatim>\<open>worktree remove\<close> unregisters and deletes, or fails and does nothing;
  \<^verbatim>\<open>branch -D\<close> refuses a branch that a registered worktree has checked out; \<^verbatim>\<open>worktree prune\<close> forgets the
  registrations whose directory is gone.
\<close>

definition is_query :: "string \<Rightarrow> bool" where
  "is_query c \<longleftrightarrow> c \<in> {''rev-parse'', ''show-ref'', ''status'', ''diff''}"

definition os_laws :: "'w Os \<Rightarrow> ('w \<Rightarrow> GitView) \<Rightarrow> bool" where
  "os_laws os view \<longleftrightarrow>
     (\<forall>p w. os_stat os p w \<longleftrightarrow> p \<in> gv_paths (view w)) \<and>
     (\<forall>p w. view (os_RemoveAll os p w) = drop_path p (view w)) \<and>
     (\<forall>d w. \<exists>S. S \<subseteq> {q. below q d} \<and> view (snd (os_MkdirAll os d w)) = (view w)\<lparr>gv_paths := gv_paths (view w) \<union> S\<rparr>)"

definition query_law :: "'w Os \<Rightarrow> ('w \<Rightarrow> GitView) \<Rightarrow> bool" where
  "query_law os view \<longleftrightarrow>
     (\<forall>d c args w. is_query c \<longrightarrow> view (snd (os_git os (''-C'' # d # c # args) w)) = view w)"

definition add_law :: "'w Os \<Rightarrow> ('w \<Rightarrow> GitView) \<Rightarrow> string \<Rightarrow> bool" where
  "add_law os view d \<longleftrightarrow>
     (\<forall>b p w out w1. runGitIn os d [''worktree'', ''add'', ''-b'', b, p, ''HEAD''] w = (Inr out, w1) \<longrightarrow>
        b \<notin> gv_branches (view w) \<and> view w1 = add_tree p b (view w))"

definition remove_law :: "'w Os \<Rightarrow> ('w \<Rightarrow> GitView) \<Rightarrow> string \<Rightarrow> bool" where
  "remove_law os view d \<longleftrightarrow>
     (\<forall>p w r w1. runGitIn os d [''worktree'', ''remove'', ''--force'', p] w = (r, w1) \<longrightarrow>
        view w1 = (case r of Inr _ \<Rightarrow> drop_path p (drop_tree p (view w)) | Inl _ \<Rightarrow> view w))"

definition delete_law :: "'w Os \<Rightarrow> ('w \<Rightarrow> GitView) \<Rightarrow> string \<Rightarrow> bool" where
  "delete_law os view d \<longleftrightarrow>
     (\<forall>b w. view (snd (runGitIn os d [''branch'', ''-D'', b] w)) = drop_branch b (view w))"

definition prune_law :: "'w Os \<Rightarrow> ('w \<Rightarrow> GitView) \<Rightarrow> string \<Rightarrow> bool" where
  "prune_law os view d \<longleftrightarrow>
     (\<forall>w out w1. runGitIn os d [''worktree'', ''prune''] w = (Inr out, w1) \<longrightarrow> view w1 = drop_stale (view w))"

definition git_contract :: "'w Os \<Rightarrow> ('w \<Rightarrow> GitView) \<Rightarrow> string set \<Rightarrow> bool" where
  "git_contract os view D \<longleftrightarrow> os_laws os view \<and> query_law os view \<and>
     (\<forall>d \<in> D. add_law os view d \<and> remove_law os view d \<and> delete_law os view d \<and> prune_law os view d)"

lemma contract_laws:
  assumes "git_contract os view D"
  shows contract_os: "os_laws os view" and contract_query: "query_law os view"
    and contract_add: "d \<in> D \<Longrightarrow> add_law os view d" and contract_remove: "d \<in> D \<Longrightarrow> remove_law os view d"
    and contract_delete: "d \<in> D \<Longrightarrow> delete_law os view d" and contract_prune: "d \<in> D \<Longrightarrow> prune_law os view d"
  using assms by (simp_all add: git_contract_def)

lemma is_query_simps [simp]: "is_query ''rev-parse''" "is_query ''show-ref''" "is_query ''status''" "is_query ''diff''"
  by (simp_all add: is_query_def)

lemma query_keeps:
  assumes "query_law os view" and "is_query c" and "runGitIn os d (c # args) w = (r, w1)"
  shows "view w1 = view w"
proof -
  obtain g w2 where g: "os_git os (''-C'' # d # c # args) w = (g, w2)" by fastforce
  have "view (snd (os_git os (''-C'' # d # c # args) w)) = view w"
    using assms(1,2) unfolding query_law_def by blast
  moreover have "w1 = w2"
    using assms(3) unfolding runGitIn_def g by (cases g) auto
  ultimately show ?thesis unfolding g by simp
qed

lemma resolve_keeps:
  assumes "query_law os view"
  shows "view (snd (resolveCommonRepo os p w)) = view w"
proof -
  obtain r w1 where r: "runGitIn os p [''rev-parse'', ''--git-common-dir''] w = (r, w1)" by fastforce
  then show ?thesis
    using query_keeps [OF assms is_query_simps(1) r]
    unfolding resolveCommonRepo_def r by (cases r) (simp_all only: prod.case sum.case Let_def snd_conv)
qed

lemma leftover_view: "os_laws os view \<Longrightarrow> view (remove_leftover os p w) = (if p \<in> gv_paths (view w) then drop_path p (view w) else view w)"
  by (simp add: remove_leftover_def os_laws_def)

subsection \<open>Create\<close>

text \<open>The successful run, step by step.\<close>

lemma Create_ok:
  assumes "Create os base m jobID w = (Inr h, w')"
  obtains out w1 w2 w3 w4 wout where
    "runGitIn os (mg_repoCWD m) [''rev-parse'', ''HEAD''] w = (Inr out, w1)"
    and "os_MkdirAll os base w1 = (None, w2)"
    and "\<not> os_stat os (Join [base, ''job-'' @ jobID]) w2"
    and "branchExists os m (branchFor jobID) w2 = (Inr False, w3)"
    and "dirtyWarning os m w3 = (hd_DirtyWarning h, w4)"
    and "runGitIn os (mg_repoCWD m) [''worktree'', ''add'', ''-b'', branchFor jobID, Join [base, ''job-'' @ jobID], ''HEAD''] w4 = (Inr wout, w')"
    and "hd_JobID h = jobID" "hd_Path h = Join [base, ''job-'' @ jobID]" "hd_Branch h = branchFor jobID" "hd_BaseCommit h = TrimSpace out"
proof -
  obtain r1 w1 where r1: "runGitIn os (mg_repoCWD m) [''rev-parse'', ''HEAD''] w = (r1, w1)" by fastforce
  obtain r2 w2 where r2: "os_MkdirAll os base w1 = (r2, w2)" by fastforce
  obtain r3 w3 where r3: "branchExists os m (branchFor jobID) w2 = (r3, w3)" by fastforce
  obtain warn w4 where r4: "dirtyWarning os m w3 = (warn, w4)" by fastforce
  obtain r5 w5 where r5: "runGitIn os (mg_repoCWD m) [''worktree'', ''add'', ''-b'', branchFor jobID, Join [base, ''job-'' @ jobID], ''HEAD''] w4 = (r5, w5)"
    by fastforce
  note run = assms [unfolded Create_def runGit_def r1 prod.case Let_def r2 r3 r4 r5]
  obtain out where "r1 = Inr out" using run by (cases r1) auto
  moreover have "r2 = None" using run \<open>r1 = Inr out\<close> by (cases r2) auto
  moreover have "\<not> os_stat os (Join [base, ''job-'' @ jobID]) w2"
    using run \<open>r1 = Inr out\<close> \<open>r2 = None\<close> by (cases "os_stat os (Join [base, ''job-'' @ jobID]) w2") simp_all
  moreover have "r3 = Inr False" using run calculation by (cases r3) (auto split: if_splits)
  moreover obtain wout where "r5 = Inr wout" using run calculation by (cases r5) auto
  ultimately show thesis
    using r1 r2 r3 r4 r5 run by (intro that [of out w1 w2 w3 w4 wout]) auto
qed

lemma branchExists_keeps:
  assumes "query_law os view" and "branchExists os m b w = (r, w1)"
  shows "view w1 = view w"
proof -
  obtain g w2 where g: "os_git os (''-C'' # mg_repoCWD m # ''show-ref'' # [''--verify'', ''--quiet'', ''refs/heads/'' @ b]) w = (g, w2)"
    by fastforce
  then have "view w2 = view w"
    using assms(1) unfolding query_law_def by (metis is_query_simps(2) snd_conv)
  then show ?thesis using assms(2) unfolding branchExists_def g by simp
qed

lemma dirtyWarning_keeps:
  assumes "query_law os view" and "dirtyWarning os m w = (r, w1)"
  shows "view w1 = view w"
proof -
  obtain g w2 where g: "runGitIn os (mg_repoCWD m) [''status'', ''--porcelain''] w = (g, w2)" by fastforce
  then show ?thesis
    using assms(2) query_keeps [OF assms(1) is_query_simps(3) g] unfolding dirtyWarning_def runGit_def g by (cases g) auto
qed

lemma Create_view:
  assumes "git_contract os view D" and "mg_repoCWD m \<in> D" and "Create os base m jobID w = (Inr h, w')"
  obtains S where "S \<subseteq> {q. below q base}" and "hd_Path h = Join [base, ''job-'' @ jobID]" and "hd_Branch h = branchFor jobID"
    and "hd_Path h \<notin> gv_paths (view w)" and "hd_Branch h \<notin> gv_branches (view w)" and "hd_Path h \<notin> S"
    and "view w' = add_tree (hd_Path h) (hd_Branch h) ((view w)\<lparr>gv_paths := gv_paths (view w) \<union> S\<rparr>)"
proof -
  note q = contract_query [OF assms(1)] and o = contract_os [OF assms(1)]
  from assms(3) obtain out w1 w2 w3 w4 wout where st:
    "runGitIn os (mg_repoCWD m) [''rev-parse'', ''HEAD''] w = (Inr out, w1)"
    "os_MkdirAll os base w1 = (None, w2)"
    "\<not> os_stat os (Join [base, ''job-'' @ jobID]) w2"
    "branchExists os m (branchFor jobID) w2 = (Inr False, w3)"
    "dirtyWarning os m w3 = (hd_DirtyWarning h, w4)"
    "runGitIn os (mg_repoCWD m) [''worktree'', ''add'', ''-b'', branchFor jobID, Join [base, ''job-'' @ jobID], ''HEAD''] w4 = (Inr wout, w')"
    "hd_Path h = Join [base, ''job-'' @ jobID]" "hd_Branch h = branchFor jobID"
    by (rule Create_ok) blast
  have v1: "view w1 = view w" by (rule query_keeps [OF q is_query_simps(1) st(1)])
  obtain S where S: "S \<subseteq> {q. below q base}" "view (snd (os_MkdirAll os base w1)) = (view w1)\<lparr>gv_paths := gv_paths (view w1) \<union> S\<rparr>"
    using o unfolding os_laws_def by blast
  have v2: "view w2 = (view w)\<lparr>gv_paths := gv_paths (view w) \<union> S\<rparr>" using S(2) st(2) v1 by simp
  have v4: "view w4 = view w2"
    using branchExists_keeps [OF q st(4)] dirtyWarning_keeps [OF q st(5)] by simp
  have "branchFor jobID \<notin> gv_branches (view w4) \<and> view w' = add_tree (Join [base, ''job-'' @ jobID]) (branchFor jobID) (view w4)"
    using contract_add [OF assms(1,2)] st(6) unfolding add_law_def by blast
  moreover have "Join [base, ''job-'' @ jobID] \<notin> gv_paths (view w2)"
    using st(3) o unfolding os_laws_def by blast
  ultimately show thesis
    using that [OF S(1)] st(7,8) v2 v4 by simp
qed

subsection \<open>Prune\<close>

lemma Prune_view:
  assumes "git_contract os view D" and "runGitIn os p [''rev-parse'', ''--git-common-dir''] w = (Inr out, w1)"
    and "TrimSpace out = abs_path (cs @ [''.git''])" and "plains cs" and "abs_path cs \<in> D"
    and "runGitIn os (abs_path cs) [''worktree'', ''remove'', ''--force'', p] w1 = (r, w2)"
    and "p \<in> gv_paths (view w)" and "Prune os p b w = (None, w')"
  shows "view w' = drop_stale (drop_branch b (drop_path p (case r of Inr _ \<Rightarrow> drop_tree p (view w) | Inl _ \<Rightarrow> view w)))"
proof -
  note q = contract_query [OF assms(1)] and o = contract_os [OF assms(1)]
  have ne: "abs_path cs \<noteq> []" "abs_path (cs @ [''.git'']) \<noteq> []" by (simp_all add: abs_path_def)
  have "plain ''.git''" by (simp add: plain_def)
  then have "Dir (abs_path (cs @ [''.git''])) = abs_path cs"
    using Dir_abs_path [of "cs @ [''.git'']"] assms(4) by simp
  then have repo: "resolveCommonRepo os p w = (abs_path cs, w1)"
    unfolding resolveCommonRepo_def assms(2) by (simp add: assms(3) ne)
  have v1: "view w1 = view w" by (rule query_keeps [OF q is_query_simps(1) assms(2)])
  have v2: "view w2 = (case r of Inr _ \<Rightarrow> drop_path p (drop_tree p (view w)) | Inl _ \<Rightarrow> view w)"
    using contract_remove [OF assms(1,5)] assms(6) v1 unfolding remove_law_def by metis
  define w3 where "w3 = remove_leftover os p w2"
  define w4 where "w4 = snd (runGitIn os (abs_path cs) [''branch'', ''-D'', b] w3)"
  obtain r5 w5 where r5: "runGitIn os (abs_path cs) [''worktree'', ''prune''] w4 = (r5, w5)" by fastforce
  have run: "Prune os p b w = (case r5 of Inl e \<Rightarrow> (Some (WorktreePrune e), w5) | Inr _ \<Rightarrow> (None, w5))"
    unfolding Prune_def repo prod.case assms(6) snd_conv w3_def [symmetric] w4_def [symmetric] Let_def r5
    using ne(1) by simp
  then obtain o5 where "r5 = Inr o5" "w5 = w'" using assms(8) by (cases r5) auto
  then have "view w' = drop_stale (view w4)"
    using contract_prune [OF assms(1,5)] r5 unfolding prune_law_def by blast
  moreover have "view w4 = drop_branch b (view w3)"
    using contract_delete [OF assms(1,5)] unfolding w4_def delete_law_def by blast
  moreover have "view w3 = drop_path p (case r of Inr _ \<Rightarrow> drop_tree p (view w) | Inl _ \<Rightarrow> view w)"
    unfolding w3_def leftover_view [OF o] v2 using assms(7) by (cases r) (auto simp: drop_path_def)
  ultimately show ?thesis by simp
qed

subsection \<open>Round trip\<close>

text \<open>A repository in order: a registered worktree exists and so does its branch; nothing exists below a missing path.\<close>

definition wf_view :: "GitView \<Rightarrow> bool" where
  "wf_view v \<longleftrightarrow> snd ` gv_trees v \<subseteq> gv_branches v \<and> fst ` gv_trees v \<subseteq> gv_paths v \<and>
     (\<forall>p q. p \<noteq> [] \<longrightarrow> p \<notin> gv_paths v \<longrightarrow> q \<in> gv_paths v \<longrightarrow> \<not> below p q)"

lemma undo_view:
  assumes "wf_view v" and "p \<notin> gv_paths v" and "p \<noteq> []" and "b \<notin> gv_branches v"
  shows "drop_stale (drop_branch b (drop_path p (drop_tree p (add_tree p b v)))) = v"
    and "drop_stale (drop_branch b (drop_path p (add_tree p b v))) = v\<lparr>gv_branches := insert b (gv_branches v)\<rparr>"
proof -
  have pp: "below p p" by (simp add: below_def)
  have paths: "{q. q = p \<and> \<not> below p q \<or> q \<in> gv_paths v \<and> \<not> below p q} = gv_paths v"
    "{q. (q = p \<or> q \<in> gv_paths v) \<and> \<not> below p q} = gv_paths v"
    using assms(1,2,3) pp by (auto simp: wf_view_def)
  have tree: "t \<in> gv_trees v \<Longrightarrow> fst t \<in> gv_paths v \<and> fst t \<noteq> p \<and> snd t \<noteq> b" for t
    using assms(1-4) by (auto simp: wf_view_def)
  have trees: "{t. (t = (p, b) \<or> t \<in> gv_trees v) \<and> fst t \<noteq> p} = gv_trees v" "b \<notin> snd ` gv_trees v"
    "{t \<in> gv_trees v. fst t \<in> gv_paths v} = gv_trees v"
    "{t. (t = (p, b) \<or> t \<in> gv_trees v) \<and> fst t \<in> gv_paths v} = gv_trees v"
    using tree assms(2) by auto
  show "drop_stale (drop_branch b (drop_path p (drop_tree p (add_tree p b v)))) = v"
    unfolding drop_path_def drop_tree_def add_tree_def using assms(4)
    by (cases v) (use paths trees in \<open>simp add: drop_branch_def drop_stale_def\<close>)
  show "drop_stale (drop_branch b (drop_path p (add_tree p b v))) = v\<lparr>gv_branches := insert b (gv_branches v)\<rparr>"
    unfolding drop_path_def add_tree_def
    by (cases v) (use paths trees in \<open>simp add: drop_branch_def drop_stale_def\<close>)
qed

text \<open>A view in which the files \<open>T\<close> were added.\<close>

definition with_files :: "string set \<Rightarrow> GitView \<Rightarrow> GitView" where
  "with_files T v = v\<lparr>gv_paths := gv_paths v \<union> T\<rparr>"

lemma drop_with_files:
  assumes "T \<subseteq> {q. below p q}"
  shows "drop_path p (with_files T v) = drop_path p v" and "drop_path p (drop_tree p (with_files T v)) = drop_path p (drop_tree p v)"
proof -
  have "{q. (q \<in> X \<or> q \<in> T) \<and> \<not> below p q} = {q \<in> X. \<not> below p q}" for X using assms by auto
  then show "drop_path p (with_files T v) = drop_path p v" "drop_path p (drop_tree p (with_files T v)) = drop_path p (drop_tree p v)"
    by (simp_all add: drop_path_def drop_tree_def with_files_def)
qed

text \<open>What a prune removes. Of a repository that consists of anything in order (\<open>v\<close>), a new worktree and files below it, \<^verbatim>\<open>Prune\<close> leaves
  exactly \<open>v\<close>, or also the branch when git refuses \<^verbatim>\<open>worktree remove\<close>.\<close>

lemma Prune_removes:
  assumes "git_contract os view D" and "wf_view v" and "p \<noteq> []" and "p \<notin> gv_paths v" and "b \<notin> gv_branches v"
    and "T \<subseteq> {q. below p q}" and u: "view u = with_files T (add_tree p b v)"
    and "runGitIn os p [''rev-parse'', ''--git-common-dir''] u = (Inr out, u1)"
    and "TrimSpace out = abs_path (cs @ [''.git''])" and "plains cs" and "abs_path cs \<in> D"
    and "runGitIn os (abs_path cs) [''worktree'', ''remove'', ''--force'', p] u1 = (r, u2)"
    and "Prune os p b u = (None, u')"
  shows "view u' = (case r of Inr _ \<Rightarrow> v | Inl _ \<Rightarrow> v\<lparr>gv_branches := insert b (gv_branches v)\<rparr>)"
proof -
  have "p \<in> gv_paths (view u)" by (simp add: u with_files_def add_tree_def)
  from Prune_view [OF assms(1,8-12) this assms(13)]
  have "view u' = drop_stale (drop_branch b (drop_path p (case r of Inr _ \<Rightarrow> drop_tree p (add_tree p b v) | Inl _ \<Rightarrow> add_tree p b v)))"
    using drop_with_files [OF assms(6)] unfolding u by (cases r) simp_all
  then show ?thesis
    using undo_view [OF assms(2,4,3,5)] by (cases r) simp_all
qed

subsection \<open>Failures\<close>

text \<open>A failed Create leaves the repository alone. Unless git itself failed in \<^verbatim>\<open>worktree add\<close>, an error
  of \<^verbatim>\<open>Create\<close> (no HEAD, a base directory that cannot be made, a collision, an unreadable ref) leaves branches and worktrees
  as they were, with at most directories down to the base added; before HEAD is resolved not even those.
  And it does fail when the branch is there or, once the base exists, the path.\<close>

theorem Create_error_no_effect:
  assumes "git_contract os view D" and "mg_repoCWD m \<in> D" and "Create os base m jobID w = (res, w')"
  shows "(case res of
      Inr h \<Rightarrow> branchFor jobID \<notin> gv_branches (view w) \<and> Join [base, ''job-'' @ jobID] \<notin> gv_paths (view w)
    | Inl (WorktreeAdd r) \<Rightarrow> True
    | Inl (RevParseHead r) \<Rightarrow> view w' = view w
    | Inl e \<Rightarrow> (\<exists>S. S \<subseteq> {q. below q base} \<and> view w' = (view w)\<lparr>gv_paths := gv_paths (view w) \<union> S\<rparr>))"
proof -
  note q = contract_query [OF assms(1)] and o = contract_os [OF assms(1)]
  obtain r1 w1 where r1: "runGitIn os (mg_repoCWD m) [''rev-parse'', ''HEAD''] w = (r1, w1)" by fastforce
  obtain r2 w2 where r2: "os_MkdirAll os base w1 = (r2, w2)" by fastforce
  obtain r3 w3 where r3: "branchExists os m (branchFor jobID) w2 = (r3, w3)" by fastforce
  obtain warn w4 where r4: "dirtyWarning os m w3 = (warn, w4)" by fastforce
  obtain r5 w5 where r5: "runGitIn os (mg_repoCWD m) [''worktree'', ''add'', ''-b'', branchFor jobID, Join [base, ''job-'' @ jobID], ''HEAD''] w4 = (r5, w5)"
    by fastforce
  note run = assms(3) [unfolded Create_def runGit_def r1 prod.case Let_def r2 r3 r4 r5]
  have v1: "view w1 = view w" by (rule query_keeps [OF q is_query_simps(1) r1])
  obtain S where S: "S \<subseteq> {q. below q base}" "view (snd (os_MkdirAll os base w1)) = (view w1)\<lparr>gv_paths := gv_paths (view w1) \<union> S\<rparr>"
    using o unfolding os_laws_def by blast
  have v3: "view w3 = view w2" by (rule branchExists_keeps [OF q r3])
  have grown: "\<exists>S. S \<subseteq> {q. below q base} \<and> view x = (view w)\<lparr>gv_paths := gv_paths (view w) \<union> S\<rparr>" if "x = w2 \<or> x = w3" for x
    using that S v1 v3 r2 by auto
  show ?thesis
  proof (cases res)
    case (Inr h)
    from Create_view [OF assms(1,2) assms(3) [unfolded Inr]] show ?thesis unfolding Inr sum.case by metis
  next
    case (Inl e)
    have shape: "(\<exists>r. e = RevParseHead r) \<and> w' = w1 \<or> (\<exists>r. e = WorktreeAdd r)
      \<or> (\<exists>x. e = MkdirBase x \<or> e = PathExists x \<or> e = BranchExists x) \<and> (w' = w2 \<or> w' = w3)
      \<or> (\<exists>x y. e = ShowRef x y) \<and> w' = w3"
      using run r3 unfolding Inl
      by (auto simp: branchExists_def split: sum.splits option.splits if_splits prod.splits GitRes.splits)
    then show ?thesis
      unfolding Inl sum.case using v1 grown by (elim disjE conjE exE) simp_all
  qed
qed

subsection \<open>The file list\<close>

text \<open>The changed files are read back exactly. If the output of \<^verbatim>\<open>diff --name-only -z\<close> is the list of the
  (non-empty) names, each closed by a NUL, the file list is these names, whatever other bytes they contain. The
  output is the combined one, though: a warning that git writes first on the error stream becomes a part of the first name.\<close>

theorem Diff_files:
  assumes "runGitIn os (hd_Path h) [''diff'', ''--stat'', hd_BaseCommit h] w = (Inr stat, w1)"
    and "runGitIn os (hd_Path h) [''diff'', ''--name-only'', ''-z'', hd_BaseCommit h] w1 = (Inr out, w2)"
    and "out = warn @ concat (map (\<lambda>f. f @ [NUL]) fs)" and "list_all (\<lambda>f. f \<noteq> [] \<and> NUL \<notin> set f) fs" and "NUL \<notin> set warn"
  shows "Diff os h w = (Inr (TrimRight stat nl,
    case fs of [] \<Rightarrow> if warn = [] then [] else [warn] | f # gs \<Rightarrow> (warn @ f) # gs), w2)"
proof -
  have names: "list_all (\<lambda>f. f \<noteq> [] \<and> NUL \<notin> set f) gs \<Longrightarrow>
      filter (\<lambda>f. f \<noteq> []) (Split NUL (concat (map (\<lambda>f. f @ [NUL]) gs))) = gs" for gs
    by (induction gs) (simp_all add: Split_append)
  have "filter (\<lambda>f. f \<noteq> []) (Split NUL out) = (case fs of [] \<Rightarrow> if warn = [] then [] else [warn] | f # gs \<Rightarrow> (warn @ f) # gs)"
  proof (cases fs)
    case (Cons f gs)
    then have "Split NUL out = (warn @ f) # Split NUL (concat (map (\<lambda>f. f @ [NUL]) gs))"
      using assms(3-5) Split_append [of NUL "warn @ f"] by simp
    with Cons assms(4) names [of gs] show ?thesis by simp
  qed (use assms(3,5) in simp)
  then show ?thesis unfolding Diff_def assms(1) prod.case sum.case assms(2) by (simp only:)
qed

subsection \<open>A small git\<close>

definition toy_git :: "string list \<Rightarrow> GitView \<Rightarrow> GitRes \<times> GitView" where
  "toy_git args v =
     (let c = args ! 2; rest = drop 3 args in
      if c = ''rev-parse'' then
        (Exit 0 (if rest = [''--git-common-dir''] then ''/r/.git'' else if rest = [''HEAD''] then ''c0ffee'' else ''true''), v)
      else if c = ''show-ref'' then (Exit (if drop 11 (rest ! 2) \<in> gv_branches v then 0 else 1) [], v)
      else if c = ''status'' then (Exit 0 [], v)
      else if c = ''diff'' then (Exit 0 (if rest ! 0 = ''--stat'' then ''1 file'' else ''warning: a b'' @ [NUL] @ ''c'' @ [NUL]), v)
      else if c = ''branch'' then (Exit 0 [], drop_branch (rest ! 1) v)
      else if rest ! 0 = ''add'' then
        (if rest ! 2 \<in> gv_branches v then (Exit 255 [], v) else (Exit 0 [], add_tree (rest ! 3) (rest ! 2) v))
      else if rest ! 0 = ''remove'' then (Exit 0 [], drop_path (rest ! 2) (drop_tree (rest ! 2) v))
      else (Exit 0 [], drop_stale v))"

definition toy_os :: "GitView Os" where
  "toy_os = \<lparr>os_git = toy_git, os_stat = (\<lambda>p v. p \<in> gv_paths v),
     os_MkdirAll = (\<lambda>d v. (None, v\<lparr>gv_paths := gv_paths v \<union> {d}\<rparr>)), os_RemoveAll = drop_path\<rparr>"

definition toy_repo :: GitView where
  "toy_repo = \<lparr>gv_branches = {''main''}, gv_trees = {}, gv_paths = {''/r''}\<rparr>"

lemma toy_contract: "git_contract toy_os id D"
proof -
  have "os_laws toy_os id"
    by (auto simp: os_laws_def toy_os_def below_def)
  moreover have "query_law toy_os id"
    by (auto simp: query_law_def is_query_def toy_os_def toy_git_def)
  moreover have "add_law toy_os id d" "remove_law toy_os id d" "delete_law toy_os id d" "prune_law toy_os id d" for d
    by (simp_all add: add_law_def remove_law_def delete_law_def prune_law_def runGitIn_def toy_os_def toy_git_def Let_def)
  ultimately show ?thesis by (simp add: git_contract_def)
qed

lemma toy_wf: "wf_view toy_repo"
  by (auto simp: wf_view_def toy_repo_def below_def HasPrefix_iff Cons_eq_append_conv)

lemma toy_path: "Join [''/s'', ''job-7''] = ''/s/job-7''" "TrimSpace ''/r/.git'' = abs_path [''r'', ''.git'']"
  "''/s'' = abs_path [''s'']" "abs_path [''r''] = ''/r''" "branchFor ''7'' = ''pi-mcp/job-7''" "Dir ''/r/.git'' = ''/r''"
proof -
  have "TrimSpace ''/r/.git'' = ''/r/.git''" by (rule TrimSpace_printable) (simp_all add: printable_def)
  also have "''/r/.git'' = abs_path [''r'', ''.git'']" by code_simp
  finally show "TrimSpace ''/r/.git'' = abs_path [''r'', ''.git'']" .
qed code_simp+

definition toy_handle :: Handle where
  "toy_handle = \<lparr>hd_JobID = ''7'', hd_Path = ''/s/job-7'', hd_Branch = ''pi-mcp/job-7'', hd_BaseCommit = TrimSpace ''c0ffee'', hd_DirtyWarning = []\<rparr>"

lemma toy_Create:
  "Create toy_os ''/s'' \<lparr>mg_repoCWD = ''/r''\<rparr> ''7'' toy_repo =
     (Inr toy_handle, add_tree ''/s/job-7'' ''pi-mcp/job-7'' (toy_repo\<lparr>gv_paths := {''/r'', ''/s''}\<rparr>))"
  by (simp add: Let_def Create_def runGit_def runGitIn_def branchExists_def dirtyWarning_def toy_os_def toy_git_def toy_repo_def toy_path(1,5) toy_handle_def
      insert_commute)

lemma Create_error_no_effect_witness:
  "\<exists>S. S \<subseteq> {q. below q ''/s''} \<and>
     snd (Create toy_os ''/s'' \<lparr>mg_repoCWD = ''/r''\<rparr> ''7'' (toy_repo\<lparr>gv_branches := {''pi-mcp/job-7''}\<rparr>))
       = toy_repo\<lparr>gv_branches := {''pi-mcp/job-7''}, gv_paths := gv_paths toy_repo \<union> S\<rparr>"
proof -
  let ?v = "toy_repo\<lparr>gv_branches := {''pi-mcp/job-7''}\<rparr>"
  have "fst (Create toy_os ''/s'' \<lparr>mg_repoCWD = ''/r''\<rparr> ''7'' ?v) = Inl (BranchExists ''pi-mcp/job-7'')"
    by (simp add: Let_def Create_def runGit_def runGitIn_def branchExists_def toy_os_def toy_git_def toy_repo_def toy_path(1,5))
  then have run: "Create toy_os ''/s'' \<lparr>mg_repoCWD = ''/r''\<rparr> ''7'' ?v =
      (Inl (BranchExists ''pi-mcp/job-7''), snd (Create toy_os ''/s'' \<lparr>mg_repoCWD = ''/r''\<rparr> ''7'' ?v))"
    by (metis prod.collapse)
  show ?thesis
    using Create_error_no_effect [OF toy_contract [of UNIV] _ run] by simp
qed

lemma Diff_files_witness:
  "fst (Diff toy_os toy_handle toy_repo) = Inr (''1 file'', [''warning: a b'', ''c''])"
proof -
  have "TrimRight ''1 file'' nl = ''1 file''" by (simp add: TrimRight_def nl_def bytes_def char_of_def bit_iff_odd)
  moreover have "NUL \<notin> set ''a b''" "NUL \<notin> set ''c''" "NUL \<notin> set ''warning: ''"
    by code_simp+
  ultimately show ?thesis
    using Diff_files [of toy_os toy_handle toy_repo "''1 file''" toy_repo "''warning: a b'' @ [NUL] @ ''c'' @ [NUL]" toy_repo "''warning: ''" "[''a b'', ''c'']"]
    by (simp add: runGitIn_def toy_os_def toy_git_def)
qed

end
