(* ===== verification/Work_Scan.thy ===== *)
theory Work_Scan
  imports Go_Path Config
begin

text \<open>
  The two walks over a write job's worktree that decide whether it is alive: \<^verbatim>\<open>scanWorktreeActivity\<close>
  (\<^verbatim>\<open>internal/app/jobs_adapter.go\<close>), behind \<^verbatim>\<open>pi_status\<close>, and \<^verbatim>\<open>WorktreeActive\<close>
  (\<^verbatim>\<open>internal/dashboard/worktree.go\<close>), behind the dashboard. Both are callbacks of \<^verbatim>\<open>WalkDir\<close>; the root is
  \<open>None\<close> when it cannot be read.
\<close>

definition bookkeeping :: "string \<Rightarrow> bool" where
  "bookkeeping n \<longleftrightarrow> n = ''.git'' \<or> n = ''.pi''"

fun scan_visit :: "string \<Rightarrow> string \<Rightarrow> FNode \<Rightarrow> nat \<times> Time \<Rightarrow> (nat \<times> Time) \<times> bool" where
  "scan_visit root path (FDir n kids) s = (s, path \<noteq> root \<and> bookkeeping n)"
| "scan_visit root path (FFile n ty mt) (files, newest) =
     (if path \<noteq> root \<and> bookkeeping n then ((files, newest), False)
      else if ty \<noteq> Regular then ((files, newest), False)
      else case mt of
             None \<Rightarrow> ((files, newest), False)
           | Some t \<Rightarrow> ((Suc files, if t > newest then t else newest), False))"

definition scanWorktreeActivity :: "string \<Rightarrow> FNode option \<Rightarrow> nat \<times> Time" where
  "scanWorktreeActivity root tree =
     (case tree of None \<Rightarrow> (0, 0) | Some d \<Rightarrow> WalkDir (scan_visit root) root d (0, 0))"

fun active_visit :: "string \<Rightarrow> string \<Rightarrow> FNode \<Rightarrow> Time \<Rightarrow> Time \<times> bool" where
  "active_visit dir path (FDir n kids) newest = (newest, path \<noteq> dir \<and> bookkeeping n)"
| "active_visit dir path (FFile n ty mt) newest =
     (if Contains path ''/.git/'' \<or> Contains path ''/.pi/'' then (newest, False)
      else case mt of None \<Rightarrow> (newest, False) | Some t \<Rightarrow> (if t > newest then t else newest, False))"

definition WorktreeActive :: "string \<Rightarrow> FNode option \<Rightarrow> Time \<Rightarrow> bool" where
  "WorktreeActive dir tree now =
     (if dir = [] then False
      else
        (let newest = (case tree of None \<Rightarrow> 0 | Some d \<Rightarrow> WalkDir (active_visit dir) dir d 0) in
         if IsZero newest then False
         else (let d = Sub now newest; d' = (if d < 0 then Neg d else d) in d' \<le> StaleThreshold)))"

subsection \<open>Reference: the files that count\<close>

text \<open>What \<^verbatim>\<open>pi_status\<close> counts: regular files outside the bookkeeping entries.\<close>

fun work_times :: "FNode \<Rightarrow> Time list" where
  "work_times (FFile n ty mt) =
     (if bookkeeping n \<or> ty \<noteq> Regular then [] else case mt of None \<Rightarrow> [] | Some t \<Rightarrow> [t])"
| "work_times (FDir n kids) = (if bookkeeping n then [] else concat (map work_times kids))"

text \<open>What the dashboard counts: everything that is not a directory, links and a linked worktree's \<^verbatim>\<open>.git\<close> file
  included, outside the bookkeeping directories.\<close>

fun shown_times :: "FNode \<Rightarrow> Time list" where
  "shown_times (FFile n ty mt) = (case mt of None \<Rightarrow> [] | Some t \<Rightarrow> [t])"
| "shown_times (FDir n kids) = (if bookkeeping n then [] else concat (map shown_times kids))"

definition newest_of :: "Time list \<Rightarrow> Time \<Rightarrow> Time" where
  "newest_of ts m = fold (\<lambda>t m. if t > m then t else m) ts m"

lemma newest_of_simps [simp]:
  "newest_of [] m = m" "newest_of (t # ts) m = newest_of ts (if t > m then t else m)"
  "newest_of (ts @ us) m = newest_of us (newest_of ts m)"
  by (simp_all add: newest_of_def)

lemma newest_of_props:
  "m \<le> newest_of ts m \<and> (\<forall>t \<in> set ts. t \<le> newest_of ts m) \<and> newest_of ts m \<in> insert m (set ts)"
proof (induction ts arbitrary: m)
  case (Cons t ts)
  from Cons [of "if t > m then t else m"] show ?case by (auto split: if_splits)
qed simp

lemma plain_bookkeeping: "bookkeeping n \<Longrightarrow> plain n"
  by (auto simp: bookkeeping_def plain_def)

text \<open>A fold whose steps each advance the state by a summary of the element.\<close>

lemma fold_summary:
  assumes "\<And>k s. k \<in> set ks \<Longrightarrow> f k s = g (h k) s" and "\<And>xs ys s. g (xs @ ys) s = g ys (g xs s)"
    and "\<And>s. g [] s = s"
  shows "fold f ks s = g (concat (map h ks)) s"
  using assms(1) by (induction ks arbitrary: s) (simp_all add: assms(2,3))

lemma fold_idle: "(\<And>k s. k \<in> set ks \<Longrightarrow> f k s = s) \<Longrightarrow> fold f ks s = s"
  by (induction ks arbitrary: s) simp_all

definition scan_add :: "Time list \<Rightarrow> nat \<times> Time \<Rightarrow> nat \<times> Time" where
  "scan_add ts s = (fst s + length ts, newest_of ts (snd s))"

lemma scan_add_simps [simp]: "scan_add [] s = s" "scan_add (xs @ ys) s = scan_add ys (scan_add xs s)"
  by (simp_all add: scan_add_def)

lemma below_root:
  assumes "plains cs" and "plains rel" and "rel \<noteq> []"
  shows "abs_path (cs @ rel) \<noteq> abs_path cs"
  using assms by (simp add: abs_path_inj)

text \<open>Entering a child of a directory below an absolute root.\<close>

lemma child_path:
  "plains cs \<Longrightarrow> plains rel \<Longrightarrow> plain n \<Longrightarrow> Join [abs_path (cs @ rel), n] = abs_path (cs @ rel @ [n])"
  using Join_entry [of "cs @ rel" n] by simp

lemma wf_node_name: "wf_node k \<Longrightarrow> plain (node_name k)"
  by (cases k) auto

lemma scan_walk:
  assumes "plains cs"
  shows "plains rel \<Longrightarrow> rel \<noteq> [] \<Longrightarrow> wf_node k \<Longrightarrow>
    WalkDir (scan_visit (abs_path cs)) (abs_path (cs @ rel)) k s = scan_add (work_times k) s"
proof (induction k arbitrary: rel s)
  case (FFile n ty mt)
  then show ?case
    using below_root [OF assms] by (cases s) (auto simp: scan_add_def split: option.split)
next
  case (FDir n kids)
  have ne: "abs_path (cs @ rel) \<noteq> abs_path cs" using below_root [OF assms] FDir.prems by blast
  have "WalkDir (scan_visit (abs_path cs)) (Join [abs_path (cs @ rel), node_name k]) k s = scan_add (work_times k) s"
    if "k \<in> set kids" for k s
    using that FDir.prems assms FDir.IH [OF that, of "rel @ [node_name k]"]
    by (auto simp: child_path wf_node_name list_all_iff)
  then have "fold (\<lambda>k. WalkDir (scan_visit (abs_path cs)) (Join [abs_path (cs @ rel), node_name k]) k) kids s
      = scan_add (concat (map work_times kids)) s" for s
    by (intro fold_summary) simp_all
  with ne show ?case by simp
qed

text \<open>The walk behind \<^verbatim>\<open>pi_status\<close> counts exactly the regular files outside the bookkeeping entries
  and finds the newest of them.\<close>

lemma scanWorktreeActivity_dir:
  assumes "plains cs" and "list_all wf_node kids"
  shows "scanWorktreeActivity (abs_path cs) (Some (FDir n kids))
    = (let ts = concat (map work_times kids) in (length ts, newest_of ts 0))"
proof -
  have "WalkDir (scan_visit (abs_path cs)) (Join [abs_path cs, node_name k]) k s = scan_add (work_times k) s"
    if "k \<in> set kids" for k s
    using that assms scan_walk [OF assms(1), of "[node_name k]" k s] child_path [of cs "[]" "node_name k"]
    by (simp add: list_all_iff wf_node_name)
  then have "fold (\<lambda>k. WalkDir (scan_visit (abs_path cs)) (Join [abs_path cs, node_name k]) k) kids s
      = scan_add (concat (map work_times kids)) s" for s
    by (intro fold_summary) simp_all
  then show ?thesis by (simp add: scanWorktreeActivity_def scan_add_def Let_def)
qed

subsection \<open>The dashboard's walk\<close>

lemma Contains_bookkeeping:
  assumes "plains ds"
  shows "Contains (abs_path ds) ''/.git/'' \<or> Contains (abs_path ds) ''/.pi/'' \<longleftrightarrow> (\<exists>c \<in> set (butlast ds). bookkeeping c)"
  using Contains_dir [OF assms, of "''.git''"] Contains_dir [OF assms, of "''.pi''"]
  by (auto simp: bookkeeping_def plain_def)

lemma active_walk:
  assumes "plains cs" and "\<not> (\<exists>c \<in> set cs. bookkeeping c)"
  shows "plains rel \<Longrightarrow> rel \<noteq> [] \<Longrightarrow> \<not> (\<exists>c \<in> set (butlast rel). bookkeeping c) \<Longrightarrow> last rel = node_name k \<Longrightarrow> wf_node k \<Longrightarrow>
    WalkDir (active_visit (abs_path cs)) (abs_path (cs @ rel)) k m = newest_of (shown_times k) m"
proof (induction k arbitrary: rel m)
  case (FFile n ty mt)
  have "\<not> (\<exists>c \<in> set (butlast (cs @ rel)). bookkeeping c)"
    using FFile.prems(2,3) assms(2) by (auto simp: butlast_append)
  then have "\<not> Contains (abs_path (cs @ rel)) ''/.git/''" "\<not> Contains (abs_path (cs @ rel)) ''/.pi/''"
    using Contains_bookkeeping [of "cs @ rel"] assms(1) FFile.prems(1) by auto
  then show ?case by (simp split: option.split)
next
  case (FDir n kids)
  have ne: "abs_path (cs @ rel) \<noteq> abs_path cs" using below_root [OF assms(1)] FDir.prems by blast
  show ?case
  proof (cases "bookkeeping n")
    case True
    with ne show ?thesis by simp
  next
    case False
    have "rel = butlast rel @ [n]" using FDir.prems(2,4) by (metis FNode.sel(2) append_butlast_last_id)
    then have "\<not> (\<exists>c \<in> set rel. bookkeeping c)"
      using FDir.prems(3) False by (metis UnE empty_iff list.set(1,2) set_append insertE)
    then have "WalkDir (active_visit (abs_path cs)) (Join [abs_path (cs @ rel), node_name k]) k m = newest_of (shown_times k) m"
      if "k \<in> set kids" for k m
      using that FDir.prems assms(1) FDir.IH [OF that, of "rel @ [node_name k]"]
      by (auto simp: child_path wf_node_name list_all_iff)
    then have "fold (\<lambda>k. WalkDir (active_visit (abs_path cs)) (Join [abs_path (cs @ rel), node_name k]) k) kids m
        = newest_of (concat (map shown_times kids)) m" for m
      by (intro fold_summary) simp_all
    with ne False show ?thesis by simp
  qed
qed

lemma active_walk_dir:
  assumes "plains cs" and "\<not> (\<exists>c \<in> set cs. bookkeeping c)" and "list_all wf_node kids"
  shows "WalkDir (active_visit (abs_path cs)) (abs_path cs) (FDir n kids) m = newest_of (concat (map shown_times kids)) m"
proof -
  have "WalkDir (active_visit (abs_path cs)) (Join [abs_path cs, node_name k]) k m = newest_of (shown_times k) m"
    if "k \<in> set kids" for k m
    using that assms active_walk [OF assms(1,2), of "[node_name k]" k m] child_path [of cs "[]" "node_name k"]
    by (simp add: list_all_iff wf_node_name)
  then have "fold (\<lambda>k. WalkDir (active_visit (abs_path cs)) (Join [abs_path cs, node_name k]) k) kids m
      = newest_of (concat (map shown_times kids)) m" for m
    by (intro fold_summary) simp_all
  then show ?thesis by simp
qed

text \<open>Below a bookkeeping directory the walk sees nothing.\<close>

lemma blind_walk:
  assumes "plains cs" and "\<exists>c \<in> set cs. bookkeeping c"
  shows "plains rel \<Longrightarrow> rel \<noteq> [] \<Longrightarrow> wf_node k \<Longrightarrow> WalkDir (active_visit (abs_path cs)) (abs_path (cs @ rel)) k m = m"
proof (induction k arbitrary: rel m)
  case (FFile n ty mt)
  have "\<exists>c \<in> set (butlast (cs @ rel)). bookkeeping c"
    using FFile.prems(2) assms(2) by (auto simp: butlast_append)
  then show ?case
    using Contains_bookkeeping [of "cs @ rel"] assms(1) FFile.prems(1) by auto
next
  case (FDir n kids)
  have "WalkDir (active_visit (abs_path cs)) (Join [abs_path (cs @ rel), node_name k]) k m = m" if "k \<in> set kids" for k m
    using that FDir.prems assms(1) FDir.IH [OF that, of "rel @ [node_name k]"]
    by (auto simp: child_path wf_node_name list_all_iff)
  then have "fold (\<lambda>k. WalkDir (active_visit (abs_path cs)) (Join [abs_path (cs @ rel), node_name k]) k) kids m = m" for m
    by (intro fold_idle) simp
  then show ?case by simp
qed

lemma Neg_Sub_le: "(if Sub t u < 0 then Neg (Sub t u) else Sub t u) \<le> StaleThreshold \<longleftrightarrow> t - u \<le> StaleThreshold \<and> (u - t \<le> StaleThreshold \<or> u - t \<ge> 2 ^ 63)"
  by (auto simp: Sub_def Neg_def StaleThreshold_def ForcedAgentTimeoutMs_def duration_defs max_def min_def)

text \<open>When the dashboard calls a worktree active. For a worktree whose own path has no \<^verbatim>\<open>.git\<close> or
  \<^verbatim>\<open>.pi\<close> directory, exactly when the newest entry outside the bookkeeping directories is at most the stale
  threshold old, or at most that far ahead of the clock, or (a wrap of the negation) 292 years or more ahead.
  For a worktree below such a directory, never: every file is taken for bookkeeping, while the walk
  behind \<^verbatim>\<open>pi_status\<close> counts it.\<close>

theorem WorktreeActive_spec:
  assumes "plains cs" and "list_all wf_node kids"
  shows "(WorktreeActive (abs_path cs) (Some (FDir n kids)) now
      \<longleftrightarrow> (\<not> (\<exists>c \<in> set cs. bookkeeping c)
        \<and> (let newest = newest_of (concat (map shown_times kids)) 0 in
             newest \<noteq> 0 \<and> now - newest \<le> StaleThreshold
             \<and> (newest - now \<le> StaleThreshold \<or> newest - now \<ge> 2 ^ 63))))
    \<and> scanWorktreeActivity (abs_path cs) (Some (FDir n kids))
      = (let ts = concat (map work_times kids) in (length ts, newest_of ts 0))"
proof (intro conjI)
  show "scanWorktreeActivity (abs_path cs) (Some (FDir n kids))
    = (let ts = concat (map work_times kids) in (length ts, newest_of ts 0))"
    using scanWorktreeActivity_dir [OF assms] .
  have ne: "abs_path cs \<noteq> []" by (simp add: abs_path_def)
  show "WorktreeActive (abs_path cs) (Some (FDir n kids)) now
    \<longleftrightarrow> (\<not> (\<exists>c \<in> set cs. bookkeeping c)
        \<and> (let newest = newest_of (concat (map shown_times kids)) 0 in
             newest \<noteq> 0 \<and> now - newest \<le> StaleThreshold
             \<and> (newest - now \<le> StaleThreshold \<or> newest - now \<ge> 2 ^ 63)))"
  proof (cases "\<exists>c \<in> set cs. bookkeeping c")
    case True
    have "WalkDir (active_visit (abs_path cs)) (Join [abs_path cs, node_name k]) k m = m" if "k \<in> set kids" for k m
      using that assms blind_walk [OF assms(1) True, of "[node_name k]" k m] child_path [of cs "[]" "node_name k"]
      by (simp add: list_all_iff wf_node_name)
    then have "fold (\<lambda>k. WalkDir (active_visit (abs_path cs)) (Join [abs_path cs, node_name k]) k) kids 0 = 0"
      by (intro fold_idle) simp
    with True ne show ?thesis by (simp add: WorktreeActive_def IsZero_def)
  next
    case False
    with ne show ?thesis
      using active_walk_dir [OF assms(1) False assms(2), of n 0] Neg_Sub_le [of now]
      by (simp add: WorktreeActive_def IsZero_def Let_def del: WalkDir.simps)
  qed
qed

lemma WorktreeActive_spec_witness:
  "\<not> WorktreeActive (abs_path [''h'', ''.pi'', ''w'']) (Some (FDir ''w'' [FFile ''a.go'' Regular (Some 7)])) 8
   \<and> scanWorktreeActivity (abs_path [''h'', ''.pi'', ''w'']) (Some (FDir ''w'' [FFile ''a.go'' Regular (Some 7)])) = (1, 7)
   \<and> WorktreeActive (abs_path [''h'', ''w'']) (Some (FDir ''w'' [FFile ''a.go'' Regular (Some 7)])) 8"
  using WorktreeActive_spec [of "[''h'', ''.pi'', ''w'']" "[FFile ''a.go'' Regular (Some 7)]" "''w''" 8]
    WorktreeActive_spec [of "[''h'', ''w'']" "[FFile ''a.go'' Regular (Some 7)]" "''w''" 8]
  by (simp add: plain_def bookkeeping_def StaleThreshold_def ForcedAgentTimeoutMs_def duration_defs)

end
