(* ===== verification/App_Jobs.thy ===== *)
theory App_Jobs
  imports Worktree Registry_Durable Run_Store Work_Scan Mcp_Handlers Reconcile
begin

text \<open>
  \<^verbatim>\<open>internal/app/jobs_adapter.go\<close>, \<^verbatim>\<open>app.go\<close> and \<^verbatim>\<open>runstore_adapter.go\<close>, and \<^verbatim>\<open>internal/mcpserver/server.go\<close>: the jobs service the
  handlers call, a registry together with the worktrees of its write jobs, and the start-up sequence.
\<close>

subsection \<open>Snapshots\<close>

definition maxSnapshotBytes :: nat where "maxSnapshotBytes = 4 * 2 ^ 20"

text \<open>\<^verbatim>\<open>snapshotRunFile\<close>; \<open>enc\<close> is \<^verbatim>\<open>json.Marshal\<close>, the empty string the nil slice.\<close>

definition snapshotRunFile :: "FS \<Rightarrow> (string \<Rightarrow> Run option) \<Rightarrow> (Run \<Rightarrow> string option) \<Rightarrow> string \<Rightarrow> string \<Rightarrow> string" where
  "snapshotRunFile fs dec enc runsDir runID =
     (case ReadRun fs dec (Join [runsDir, runID @ ''.json'']) of
        Inl _ \<Rightarrow> []
      | Inr run \<Rightarrow>
          (case enc run of
             None \<Rightarrow> []
           | Some b \<Rightarrow> if length b > maxSnapshotBytes then [] else b))"

subsection \<open>The adapter\<close>

record writeHandle =
  wh_mgr :: Manager
  wh_h :: Handle

record jobsAdapter =
  ad_reg :: Registry
  ad_handles :: "(string \<times> writeHandle) list"

datatype AdapterErr = AdWorktree WtErr | AdPersist string

definition remember :: "string \<Rightarrow> Manager \<Rightarrow> Handle \<Rightarrow> jobsAdapter \<Rightarrow> jobsAdapter" where
  "remember jid mgr h a = a\<lparr>ad_handles := AList.update jid \<lparr>wh_mgr = mgr, wh_h = h\<rparr> (ad_handles a)\<rparr>"

definition handle_of :: "string \<Rightarrow> jobsAdapter \<Rightarrow> writeHandle option" where
  "handle_of jid a = map_of (ad_handles a) jid"

text \<open>The spec of a job before and after the worktree is known.\<close>

definition adapter_spec :: "JobSpec \<Rightarrow> Spec" where
  "adapter_spec inp =
     \<lparr>sp_Mode = js_Mode inp, sp_CWD = js_CWD inp, sp_RunsDir = RunsDir (js_CWD inp), sp_Task = js_Task inp,
      sp_Context = js_Context inp, sp_Worktree = [], sp_Branch = [], sp_JobID = [], sp_PreassignedID = []\<rparr>"

definition write_spec :: "string \<Rightarrow> Handle \<Rightarrow> Spec \<Rightarrow> Spec" where
  "write_spec jid h s =
     s\<lparr>sp_PreassignedID := jid, sp_Worktree := hd_Path h, sp_Branch := hd_Branch h, sp_CWD := hd_Path h,
       sp_RunsDir := RunsDir (hd_Path h)\<rparr>"

definition reg_Submit ::
    "Spec \<Rightarrow> string \<Rightarrow> Time \<Rightarrow> bool \<Rightarrow> jobsAdapter \<Rightarrow> (AdapterErr + nat \<times> bool) \<times> jobsAdapter" where
  "reg_Submit spec uuid now ok a =
     (case Submit spec uuid now ok (ad_reg a) of
        (Inl e, r) \<Rightarrow> (Inl (AdPersist e), a\<lparr>ad_reg := r\<rparr>)
      | (Inr x, r) \<Rightarrow> (Inr x, a\<lparr>ad_reg := r\<rparr>))"

text \<open>\<^verbatim>\<open>Submit\<close>: \<open>jid\<close> is what \<^verbatim>\<open>newJobID\<close> mints, \<open>uuid\<close> the id the registry would mint, \<open>now\<close> and \<open>ok\<close> the
  registry's clock and whether its mandatory write succeeds. The result is the new job's address and
  whether it was admitted.\<close>

definition adapter_Submit ::
    "'w Os \<Rightarrow> string \<Rightarrow> string \<Rightarrow> string \<Rightarrow> Time \<Rightarrow> bool \<Rightarrow> JobSpec \<Rightarrow> jobsAdapter \<times> 'w \<Rightarrow> (AdapterErr + nat \<times> bool) \<times> jobsAdapter \<times> 'w" where
  "adapter_Submit os base jid uuid now ok inp s =
     (case s of (a, w) \<Rightarrow>
        if js_Mode inp = ModeWrite then
          (case NewManager os (js_CWD inp) w of
             (Inl e, w1) \<Rightarrow> (Inl (AdWorktree e), a, w1)
           | (Inr mgr, w1) \<Rightarrow>
               (case Create os base mgr jid w1 of
                  (Inl e, w2) \<Rightarrow> (Inl (AdWorktree e), a, w2)
                | (Inr h, w2) \<Rightarrow>
                    (case reg_Submit (write_spec jid h (adapter_spec inp)) uuid now ok (remember jid mgr h a) of
                       (res, a1) \<Rightarrow> (res, a1, w2))))
        else
          (case reg_Submit (adapter_spec inp) uuid now ok a of (res, a1) \<Rightarrow> (res, a1, w)))"

text \<open>\<^verbatim>\<open>WriteInfoFor\<close>: \<open>addAll dir\<close> is the effect of \<^verbatim>\<open>git add -A\<close> run in \<open>dir\<close>, whose error is ignored.\<close>

definition WriteInfoFor :: "'w Os \<Rightarrow> (string \<Rightarrow> 'w \<Rightarrow> 'w) \<Rightarrow> string \<Rightarrow> jobsAdapter \<times> 'w \<Rightarrow> WriteInfo option \<times> 'w" where
  "WriteInfoFor os addAll jobID s =
     (case handle_of jobID (fst s) of
        None \<Rightarrow> (None, snd s)
      | Some wh \<Rightarrow>
          (case WriteInfo_of os (wh_h wh) (addAll (hd_Path (wh_h wh)) (snd s)) of
             (Inl _, w1) \<Rightarrow> (None, w1)
           | (Inr wi, w1) \<Rightarrow> (Some wi, w1)))"

text \<open>\<^verbatim>\<open>WorktreeActivity\<close>, on the tree \<open>node\<close> found at a path.\<close>

definition WorktreeActivity :: "(string \<Rightarrow> FNode option) \<Rightarrow> string \<Rightarrow> jobsAdapter \<Rightarrow> (nat \<times> Time) option" where
  "WorktreeActivity node jobID a =
     (case Lookup jobID (ad_reg a) of
        None \<Rightarrow> None
      | Some rec \<Rightarrow>
          if jr_Mode rec \<noteq> ModeWrite \<or> jr_WorktreePath rec = [] then None
          else (case scanWorktreeActivity (jr_WorktreePath rec) (node (jr_WorktreePath rec)) of
                  (files, newest) \<Rightarrow> if files = 0 then None else Some (files, newest)))"

subsection \<open>Start-up (app.go)\<close>

definition statePaths :: "(string \<Rightarrow> string) \<Rightarrow> string \<Rightarrow> (string \<Rightarrow> string option) \<Rightarrow> string + string \<times> string" where
  "statePaths getenv TempDir mkdirAll =
     (let root = Join [StateDir getenv TempDir, WorktreeSubdir] in
      case mkdirAll root of
        Some e \<Rightarrow> Inl e
      | None \<Rightarrow> Inr (RegistryPath getenv TempDir, root))"

text \<open>\<^verbatim>\<open>reconcileLoop\<close> over the sweeps it makes until the context is done; an error is logged and the loop goes on.\<close>

definition reconcileLoop :: "int \<Rightarrow> string \<Rightarrow> (bool \<times> (nat \<Rightarrow> Env)) list \<Rightarrow> Table \<Rightarrow> Table" where
  "reconcileLoop me ms sweeps t = fold (\<lambda>(readOk, env) t. snd (snd (Reconcile me ms readOk env t))) sweeps t"

text \<open>\<^verbatim>\<open>Run\<close>: build the registry, reconcile (an error is not fatal), serve, close. \<open>serve\<close> is the whole run of the MCP
  server on the registry, and its error.\<close>

definition app_Run ::
    "string + Registry \<Rightarrow> bool \<times> (nat \<Rightarrow> Env) \<Rightarrow> (Registry \<Rightarrow> string option \<times> Registry) \<Rightarrow> Time \<Rightarrow> bool \<Rightarrow> string option \<times> Registry option" where
  "app_Run build sweep serve now ok =
     (case build of
        Inl e \<Rightarrow> (Some (''build registry: '' @ e), None)
      | Inr reg \<Rightarrow>
          (let reg1 = reg\<lparr>rg_store := snd (snd (Reconcile (rg_ownerPid reg) (rg_ownerStartedAt reg) (fst sweep) (snd sweep) (rg_store reg)))\<rparr> in
           case serve reg1 of
             (err, reg2) \<Rightarrow> (map_option (\<lambda>e. ''serve: '' @ e) err, Some (snd (Close now ok reg2)))))"

definition RegisteredToolNames :: "string list" where
  "RegisteredToolNames = [''pi_workflow'', ''pi_status'', ''pi_list'', ''pi_cancel'']"

subsection \<open>Base directories\<close>

text \<open>The stack \<^verbatim>\<open>Clean\<close> builds, cleaned again, is itself: names, over \<^verbatim>\<open>..\<close> at the bottom when the path is relative.\<close>

definition clean_stack :: "bool \<Rightarrow> string list \<Rightarrow> bool" where
  "clean_stack rooted st \<longleftrightarrow> (\<exists>ns k. st = ns @ replicate k ''..'' \<and> plains ns \<and> (rooted \<longrightarrow> k = 0))"

lemma clean_stack_step:
  assumes "clean_stack rooted st" and "slash \<notin> set c"
  shows "clean_stack rooted (clean_step rooted c st)"
proof -
  obtain ns k where st: "st = ns @ replicate k ''..''" "plains ns" "rooted \<longrightarrow> k = 0"
    using assms(1) by (auto simp: clean_stack_def)
  consider "c = [] \<or> c = ''.''" | "c = ''..''" "ns = []" | n ms where "c = ''..''" "ns = n # ms" | "plain c"
    using assms(2) by (cases ns) (auto simp: plain_def)
  then show ?thesis
  proof cases
    case 2
    have "clean_stack rooted (replicate (Suc k) ''..'')" if "\<not> rooted"
      using that unfolding clean_stack_def by (intro exI [of _ "[]"] exI [of _ "Suc k"]) simp
    then show ?thesis using 2 st assms(1) by (cases k) (auto simp: clean_step_def)
  next
    case 3
    then have "clean_step rooted c st = ms @ replicate k ''..''" using st by (auto simp: clean_step_def plain_def)
    then show ?thesis using st 3 by (auto simp: clean_stack_def)
  next
    case 4
    then have "clean_step rooted c st = (c # ns) @ replicate k ''..''" using st by (auto simp: clean_step_def plain_def)
    then show ?thesis using st 4 unfolding clean_stack_def by (intro exI [of _ "c # ns"] exI [of _ k]) simp
  qed (use assms(1) in \<open>auto simp: clean_step_def\<close>)
qed

lemma clean_stack_fold:
  "clean_stack rooted st \<Longrightarrow> (\<And>c. c \<in> set cs \<Longrightarrow> slash \<notin> set c) \<Longrightarrow> clean_stack rooted (fold (clean_step rooted) cs st)"
  by (induction cs arbitrary: st) (simp_all add: clean_stack_step)

lemma clean_dots: "fold (clean_step False) (replicate k ''..'') (replicate n ''..'') = replicate (k + n) ''..''"
proof (induction k arbitrary: n)
  case (Suc k)
  have "clean_step False ''..'' (replicate n ''..'') = replicate (Suc n) ''..''"
    by (cases n) (simp_all add: clean_step_def)
  with Suc [of "Suc n"] show ?case by simp
qed simp

lemma clean_stack_again: "clean_stack rooted st \<Longrightarrow> fold (clean_step rooted) (rev st) [] = st"
  using clean_dots [of _ 0] by (cases rooted) (auto simp: clean_stack_def clean_fold_id)

definition path_stack :: "string \<Rightarrow> string list" where
  "path_stack p = fold (clean_step (IsAbs p)) (Split slash p) []"

lemma path_stack_ok: "clean_stack (IsAbs p) (path_stack p)"
  unfolding path_stack_def
  by (rule clean_stack_fold) (auto simp: clean_stack_def dest: Split_no_sep)

lemma Clean_stack: "Clean p = (let out = (if IsAbs p then ''/'' else []) @ join_slash (rev (path_stack p)) in if out = [] then ''.'' else out)"
  by (simp add: Clean_def path_stack_def)

lemma clean_stack_elems:
  assumes "clean_stack rooted st" and "c \<in> set st"
  shows "c \<noteq> [] \<and> slash \<notin> set c"
proof -
  obtain ns k where st: "st = ns @ replicate k ''..''" "plains ns"
    using assms(1) unfolding clean_stack_def by blast
  then consider "c \<in> set ns" | "c = ''..''" using assms(2) by (auto split: if_splits)
  then show ?thesis
    using st(2) by cases (auto simp: plains_def list_all_iff plain_def)
qed

lemma path_stack_Clean: "path_stack (Clean p) = path_stack p" and IsAbs_Clean: "IsAbs (Clean p) = IsAbs p"
proof -
  let ?st = "path_stack p"
  note ok = path_stack_ok [of p]
  have split: "?st \<noteq> [] \<Longrightarrow> Split slash (join_slash (rev ?st)) = rev ?st"
    using clean_stack_elems [OF ok] by (intro Split_join_slash) auto
  have first: "?st \<noteq> [] \<Longrightarrow> \<exists>c s. join_slash (rev ?st) = c # s \<and> c \<noteq> slash"
  proof -
    assume "?st \<noteq> []"
    then obtain x xs where x: "rev ?st = x # xs" by (cases "rev ?st") auto
    then have "x \<in> set ?st" unfolding set_rev [of ?st, symmetric] by simp
    then have "x \<noteq> []" "slash \<notin> set x" using clean_stack_elems [OF ok] by auto
    then show ?thesis unfolding x by (cases x; cases xs) auto
  qed
  have again: "fold (clean_step (IsAbs p)) (rev ?st) [] = ?st" by (rule clean_stack_again [OF ok])
  show abs: "IsAbs (Clean p) = IsAbs p"
    using first by (cases "?st = []") (auto simp: Clean_stack IsAbs_def HasPrefix_def)
  show "path_stack (Clean p) = ?st"
  proof (cases "IsAbs p")
    case True
    then have "Clean p = slash # join_slash (rev ?st)" by (simp add: Clean_stack)
    moreover have "path_stack (slash # join_slash (rev ?st)) = ?st"
      using True again split by (cases "?st = []") (simp_all add: path_stack_def [of "slash # _"] clean_step_def)
    ultimately show ?thesis by simp
  next
    case False
    show ?thesis
    proof (cases "?st = []")
      case True
      with False have "Clean p = ''.''" by (simp add: Clean_stack)
      with True show ?thesis by (simp add: path_stack_def [of "''.''"] clean_step_def)
    next
      case st: False
      with False first have "Clean p = join_slash (rev ?st)" by (auto simp: Clean_stack)
      moreover from this have "path_stack (join_slash (rev ?st)) = ?st"
        using False again split [OF st] abs by (simp add: path_stack_def [of "join_slash _"])
      ultimately show ?thesis by simp
    qed
  qed
qed

lemma Clean_prefix:
  assumes "p \<noteq> []"
  shows "Clean (Clean p @ slash # s) = Clean (p @ slash # s)"
proof -
  have abs: "IsAbs (q @ slash # s) = IsAbs q" if "q \<noteq> []" for q
    using that by (cases q) (auto simp: IsAbs_def HasPrefix_def)
  have st: "path_stack (q @ slash # s) = fold (clean_step (IsAbs q)) (Split slash s) (path_stack q)" if "q \<noteq> []" for q
    using abs [OF that] by (simp add: path_stack_def Split_append_sep)
  have "Clean p \<noteq> []" by (simp add: Clean_def Let_def)
  then show ?thesis
    using assms abs st path_stack_Clean IsAbs_Clean by (simp add: Clean_stack [of "_ @ _"])
qed

text \<open>One worktree root. The directory the application creates and scans (\<^verbatim>\<open>statePaths\<close>) is the base
  directory the worktree manager computes on its own (\<^verbatim>\<open>resolveBaseDir\<close>), for every environment; the call fails
  only if that directory cannot be made.\<close>

theorem statePaths_agrees:
  "statePaths getenv TempDir mkdirAll =
     (case mkdirAll (resolveBaseDir getenv TempDir) of
        Some e \<Rightarrow> Inl e
      | None \<Rightarrow> Inr (RegistryPath getenv TempDir, resolveBaseDir getenv TempDir))"
proof -
  have "Join [Join [h, ''.local'', ''state''], WorktreeSubdir] = Join [h, ''.local'', ''state'', WorktreeSubdir]" if "h \<noteq> []" for h
  proof -
    let ?x = "join_slash [h, ''.local'', ''state'']"
    have "Clean ?x \<noteq> []" by (simp add: Clean_def Let_def)
    then have "Join [Join [h, ''.local'', ''state''], WorktreeSubdir] = Clean (Clean ?x @ slash # WorktreeSubdir)"
      using that by (simp add: Join_def)
    also have "\<dots> = Clean (?x @ slash # WorktreeSubdir)" by (rule Clean_prefix) simp
    finally show ?thesis using that by (simp add: Join_def)
  qed
  then have "Join [StateDir getenv TempDir, WorktreeSubdir] = resolveBaseDir getenv TempDir"
    by (simp add: resolveBaseDir_def StateDir_def)
  then show ?thesis by (simp only: statePaths_def Let_def)
qed

subsection \<open>Submitting a write job\<close>

text \<open>An accepted submission registers exactly the record it built.\<close>

lemma Submit_result:
  assumes "Submit spec uuid now True r = (res, r')" and "admitted = (rg_slots r < rg_cap r)" and "a = length (rg_mem r)"
  shows "res = Inr (a, admitted) \<and> map_of (rg_jobs r') (jr_JobID (jb_Record (NewJob spec uuid now))) = Some a
    \<and> jb_Record (rg_mem r' ! a) = (jb_Record (NewJob spec uuid now))\<lparr>jr_Status := if admitted then JobRunning else JobQueued\<rparr>"
proof -
  define j where "j = NewJob spec uuid now"
  have jobs: "rg_jobs (snd (Submit spec uuid now True r)) = AList.update (jr_JobID (jb_Record j)) (length (rg_mem r)) (rg_jobs r)"
    and mem: "rg_mem (snd (Submit spec uuid now True r)) = rg_mem r @
      [if rg_slots r < rg_cap r then markUnlocked JobRunning now (j\<lparr>jb_ctx := Some False, jb_cancel := True\<rparr>) else markUnlocked JobQueued now j]"
    and res: "fst (Submit spec uuid now True r) = Inr (length (rg_mem r), rg_slots r < rg_cap r)"
    by (simp_all add: submit_defs flushUnlocked_def UpsertJobs_def upd_job_def list_update_append flip: j_def)
  show ?thesis
    using jobs mem res unfolding assms j_def [symmetric]
    by (simp add: AList.update_conv markUnlocked_def)
qed

lemma Submit_registers:
  assumes "Submit spec uuid now True r = (res, r')"
  shows "\<exists>admitted. res = Inr (length (rg_mem r), admitted) \<and>
    Lookup (jr_JobID (jb_Record (NewJob spec uuid now))) r' =
      Some ((jb_Record (NewJob spec uuid now))\<lparr>jr_Status := if admitted then JobRunning else JobQueued\<rparr>)"
  using Submit_result [OF assms refl refl] by (auto simp: Lookup_def)

lemma manager_cwd: "NewManager os cwd w = (Inr mgr, w1) \<Longrightarrow> mg_repoCWD mgr = cwd"
  by (auto simp: NewManager_def split: prod.splits sum.splits if_splits)


subsection \<open>The periodic sweep\<close>

abbreviation sweep_table :: "int \<Rightarrow> string \<Rightarrow> bool \<Rightarrow> (nat \<Rightarrow> Env) \<Rightarrow> Table \<Rightarrow> Table" where
  "sweep_table me ms readOk env t \<equiv> snd (snd (Reconcile me ms readOk env t))"

lemma sweep_wf: "wf_table t \<Longrightarrow> wf_table (sweep_table me ms readOk env t)"
  by (cases readOk) (simp_all add: Reconcile_eq rows_wf, simp add: Reconcile_def AllJobs_def)

lemma loop_wf: "wf_table t \<Longrightarrow> wf_table (reconcileLoop me ms sweeps t)"
proof (induction sweeps arbitrary: t)
  case (Cons sw sweeps)
  then have "wf_table (reconcileLoop me ms sweeps (sweep_table me ms (fst sw) (snd sw) t))" by (intro Cons.IH sweep_wf)
  then show ?case by (simp add: reconcileLoop_def case_prod_unfold)
qed (simp add: reconcileLoop_def)

text \<open>Whatever fails in it, a sweep leaves a row alone or claims it.\<close>

definition claimed_row :: "int \<Rightarrow> string \<Rightarrow> Row \<Rightarrow> Row \<Rightarrow> bool" where
  "claimed_row me ms row r \<longleftrightarrow> (\<exists>now. r = after_claim JobFailed ErrServerRestarted me ms now row)"

lemma rows_keep_or_claim:
  "wf_table t \<Longrightarrow> tbl_get t jid = Some r \<Longrightarrow> r = row \<or> claimed_row me ms row r \<Longrightarrow>
   \<exists>r'. tbl_get (snd (reconcile_rows me ms env i rws t)) jid = Some r' \<and> (r' = row \<or> claimed_row me ms row r')"
proof (induction rws arbitrary: i t r)
  case (Cons rw rws)
  obtain rc own where rw: "rw = (rc, own)" by (cases rw)
  let ?t1 = "snd (reconcile_one me ms (env i) rw t)"
  have "\<exists>r1. tbl_get ?t1 jid = Some r1 \<and> (r1 = row \<or> claimed_row me ms row r1)"
    using one_get [OF Cons.prems(1), of me ms "env i" rc own jid] Cons.prems(2,3)
    by (auto simp: rw claimed_row_def after_claim_idem)
  then obtain r1 where "tbl_get ?t1 jid = Some r1" "r1 = row \<or> claimed_row me ms row r1" by blast
  from Cons.IH [OF one_wf [OF Cons.prems(1)] this] show ?case by (simp add: rows_Cons)
qed auto

lemma loop_keep_or_claim:
  "wf_table t \<Longrightarrow> tbl_get t jid = Some r \<Longrightarrow> r = row \<or> claimed_row me ms row r \<Longrightarrow>
   \<exists>r'. tbl_get (reconcileLoop me ms sweeps t) jid = Some r' \<and> (r' = row \<or> claimed_row me ms row r')"
proof (induction sweeps arbitrary: t r)
  case (Cons sw sweeps)
  obtain readOk env where sw: "sw = (readOk, env)" by (cases sw)
  have "\<exists>r1. tbl_get (sweep_table me ms readOk env t) jid = Some r1 \<and> (r1 = row \<or> claimed_row me ms row r1)"
    using rows_keep_or_claim [OF Cons.prems] Cons.prems(2,3)
    by (cases readOk) (simp_all add: Reconcile_eq, simp add: Reconcile_def AllJobs_def)
  then obtain r1 where "tbl_get (sweep_table me ms readOk env t) jid = Some r1" "r1 = row \<or> claimed_row me ms row r1" by blast
  from Cons.IH [OF sweep_wf [OF Cons.prems(1)] this] show ?case by (simp add: reconcileLoop_def sw)
qed (simp add: reconcileLoop_def)

lemma loop_terminal:
  "wf_table t \<Longrightarrow> tbl_get t jid = Some row \<Longrightarrow> IsTerminal (row_status row) \<Longrightarrow> tbl_get (reconcileLoop me ms sweeps t) jid = Some row"
proof (induction sweeps arbitrary: t)
  case (Cons sw sweeps)
  obtain readOk env where sw: "sw = (readOk, env)" by (cases sw)
  have "tbl_get (sweep_table me ms readOk env t) jid = Some row"
    using rows_terminal [OF Cons.prems] Cons.prems(2)
    by (cases readOk) (simp_all add: Reconcile_eq, simp add: Reconcile_def AllJobs_def)
  with Cons.IH [OF sweep_wf [OF Cons.prems(1)]] Cons.prems(3) show ?case by (simp add: reconcileLoop_def sw)
qed (simp add: reconcileLoop_def)

text \<open>The loop reaps a job whose owner died. However many sweeps before and after fail to read
  the table or to write a claim, one sweep that finds the owner dead and can write makes the job's row failed
  with \<^verbatim>\<open>SERVER_RESTARTED\<close>, with every other field of the record kept, for the rest of the loop: an error does not stop
  the loop.\<close>

theorem reconcileLoop_reaps:
  assumes "wf_table t" and "tbl_get t jid = Some row" and "\<not> isTerminal (row_status row)"
    and "(True, env) \<in> set sweeps"
    and "\<And>k. \<not> pidAlive (env_kill (env k)) (row_ownerPid row) \<and> env_ok (env k)"
  shows "\<exists>now. tbl_get (reconcileLoop me ms sweeps t) jid =
    Some (row\<lparr>row_rec := (row_rec row)\<lparr>jr_Status := JobFailed, jr_ErrorCode := ErrServerRestarted\<rparr>,
      row_ownerPid := me, row_ownerStartedAt := ms, row_updatedAt := now\<rparr>)"
proof -
  obtain xs ys where sweeps: "sweeps = xs @ (True, env) # ys" using assms(4) by (auto simp: in_set_conv_decomp)
  let ?t1 = "reconcileLoop me ms xs t" and ?t2 = "sweep_table me ms True env (reconcileLoop me ms xs t)"
  have wf: "wf_table ?t1" by (rule loop_wf [OF assms(1)])
  obtain r where r: "tbl_get ?t1 jid = Some r" "r = row \<or> claimed_row me ms row r"
    using loop_keep_or_claim [OF assms(1,2), of row me ms xs] by blast
  have "\<exists>r2. tbl_get ?t2 jid = Some r2 \<and> claimed_row me ms row r2"
  proof (cases "r = row")
    case True
    have id: "row_id row = jid" and mem: "row \<in> set ?t1" using tbl_get_Some [of ?t1 jid row] r(1) True by auto
    let ?own = "\<lparr>own_Pid = row_ownerPid row\<rparr>"
    have "(row_rec row, ?own) \<in> set (entries ?t1)" using mem by (auto simp: entries_def)
    from rows_claim [OF wf this entries_distinct [OF wf], of env me ms 0] show ?thesis
      using assms(3,5) r(1) True id by (auto simp: skip_row_def Reconcile_eq claimed_row_def)
  next
    case False
    then have "claimed_row me ms row r" using r(2) by simp
    moreover from this have "IsTerminal (row_status r)" by (auto simp: claimed_row_def)
    ultimately show ?thesis using rows_terminal [OF wf r(1)] by (auto simp: Reconcile_eq)
  qed
  then obtain now where r2: "tbl_get ?t2 jid = Some (after_claim JobFailed ErrServerRestarted me ms now row)"
    by (auto simp: claimed_row_def)
  have "tbl_get (reconcileLoop me ms ys ?t2) jid = Some (after_claim JobFailed ErrServerRestarted me ms now row)"
    by (rule loop_terminal [OF sweep_wf [OF wf] r2]) simp
  then show ?thesis
    using assms(3) by (auto simp: sweeps reconcileLoop_def after_claim_def isTerminal_IsTerminal)
qed

lemma reconcileLoop_reaps_witness:
  "\<exists>r. tbl_get (reconcileLoop 100 ''s'' [(False, demo_env), (True, demo_env)] demo_tbl) ''orphan'' = Some r
     \<and> jr_ErrorCode (row_rec r) = ErrServerRestarted"
proof -
  have "\<exists>now. tbl_get (reconcileLoop 100 ''s'' [(False, demo_env), (True, demo_env)] demo_tbl) ''orphan'' =
    Some ((demo_row ''orphan'' JobRunning 3 50)\<lparr>row_rec := (row_rec (demo_row ''orphan'' JobRunning 3 50))\<lparr>jr_Status := JobFailed,
      jr_ErrorCode := ErrServerRestarted\<rparr>, row_ownerPid := 100, row_ownerStartedAt := ''s'', row_updatedAt := now\<rparr>)"
    by (rule reconcileLoop_reaps [OF demo_tbl_wf demo_tbl_get(2), where env = demo_env])
      (simp_all add: demo_row_def demo_env_def pidAlive_def isTerminal_def status_defs)
  then show ?thesis by auto
qed


end
