(* ===== verification/Dash_Hub.thy ===== *)
theory Dash_Hub
  imports Go_Lib
begin

text \<open>
  \<^verbatim>\<open>internal/dashboard/hub.go\<close>: the fan-out of serialized snapshots to the connected SSE clients.

  A subscriber's channel is a heap object shared by the hub's set and by its cancel function, so
  channels live in a store and the set holds addresses. \<^verbatim>\<open>cancel\<close> runs under a \<^verbatim>\<open>sync.Once\<close> and
  is two actions: the removal under the mutex, and \<^verbatim>\<open>close(ch)\<close> after the unlock; a broadcast may
  come between them. \<open>hub_step\<close> interleaves all of it with the clients' receives.
\<close>

definition hubBuffer :: nat where "hubBuffer = 8"

text \<open>Where the once-function of a subscription is: not called, past the unlock, done.\<close>

datatype CancelPc = Open | Removed | Closed

text \<open>\<open>ch_offered\<close> and \<open>ch_recv\<close> are ghost state: the frames broadcast while the channel was in the
  set, and those the client has read.\<close>

record Chan =
  ch_buf :: "string list"
  ch_closed :: bool
  ch_once :: CancelPc
  ch_offered :: "string list"
  ch_recv :: "string list"

record Hub =
  hb_chans :: "Chan list"
  hb_subs :: "nat list"
  hb_panic :: bool

definition NewHub :: Hub where
  "NewHub = \<lparr>hb_chans = [], hb_subs = [], hb_panic = False\<rparr>"

definition new_chan :: Chan where
  "new_chan = \<lparr>ch_buf = [], ch_closed = False, ch_once = Open, ch_offered = [], ch_recv = []\<rparr>"

definition upd_chan :: "nat \<Rightarrow> (Chan \<Rightarrow> Chan) \<Rightarrow> Hub \<Rightarrow> Hub" where
  "upd_chan i f h = h\<lparr>hb_chans := (hb_chans h)[i := f (hb_chans h ! i)]\<rparr>"

definition Subscribe :: "Hub \<Rightarrow> nat \<times> Hub" where
  "Subscribe h =
     (let i = length (hb_chans h) in
      (i, h\<lparr>hb_chans := hb_chans h @ [new_chan], hb_subs := hb_subs h @ [i]\<rparr>))"

text \<open>The two halves of the once-function; closing a closed channel panics.\<close>

definition cancel_remove :: "nat \<Rightarrow> Hub \<Rightarrow> Hub" where
  "cancel_remove i h =
     (upd_chan i (\<lambda>c. c\<lparr>ch_once := Removed\<rparr>) h)\<lparr>hb_subs := filter (\<lambda>k. k \<noteq> i) (hb_subs h)\<rparr>"

definition cancel_close :: "nat \<Rightarrow> Hub \<Rightarrow> Hub" where
  "cancel_close i h =
     (upd_chan i (\<lambda>c. c\<lparr>ch_once := Closed, ch_closed := True\<rparr>) h)
       \<lparr>hb_panic := (hb_panic h \<or> ch_closed (hb_chans h ! i))\<rparr>"

text \<open>The non-blocking send of one frame: a full buffer drops it; a closed channel panics.\<close>

definition offer :: "string \<Rightarrow> Chan \<Rightarrow> Chan" where
  "offer msg c = c\<lparr>ch_offered := ch_offered c @ [msg],
     ch_buf := (if length (ch_buf c) < hubBuffer then ch_buf c @ [msg] else ch_buf c)\<rparr>"

definition send_nb :: "string \<Rightarrow> nat \<Rightarrow> Hub \<Rightarrow> Hub" where
  "send_nb msg i h =
     (if ch_closed (hb_chans h ! i) then h\<lparr>hb_panic := True\<rparr> else upd_chan i (offer msg) h)"

text \<open>\<^verbatim>\<open>Broadcast\<close> ranges over the set in an order Go does not specify.\<close>

definition Broadcast :: "nat list \<Rightarrow> string \<Rightarrow> Hub \<Rightarrow> Hub" where
  "Broadcast order msg h = fold (send_nb msg) order h"

definition Count :: "Hub \<Rightarrow> nat" where
  "Count h = length (hb_subs h)"

text \<open>A client takes the oldest frame.\<close>

definition receive :: "nat \<Rightarrow> Hub \<Rightarrow> Hub" where
  "receive i = upd_chan i (\<lambda>c. c\<lparr>ch_buf := tl (ch_buf c), ch_recv := ch_recv c @ [hd (ch_buf c)]\<rparr>)"

inductive hub_step :: "Hub \<Rightarrow> Hub \<Rightarrow> bool" where
  subscribe: "hub_step h (snd (Subscribe h))"
| remove: "i < length (hb_chans h) \<Longrightarrow> ch_once (hb_chans h ! i) = Open \<Longrightarrow> hub_step h (cancel_remove i h)"
| close: "i < length (hb_chans h) \<Longrightarrow> ch_once (hb_chans h ! i) = Removed \<Longrightarrow> hub_step h (cancel_close i h)"
| broadcast: "mset order = mset (hb_subs h) \<Longrightarrow> hub_step h (Broadcast order msg h)"
| recv: "i < length (hb_chans h) \<Longrightarrow> ch_buf (hb_chans h ! i) \<noteq> [] \<Longrightarrow> hub_step h (receive i h)"

inductive hub_reachable :: "Hub \<Rightarrow> bool" where
  init: "hub_reachable NewHub"
| more: "hub_reachable h \<Longrightarrow> hub_step h k \<Longrightarrow> hub_reachable k"

interpretation hub: transition_system "\<lambda>h. h = NewHub" hub_step hub_reachable
proof (unfold_locales, goal_cases)
  case (1 P h)
  from 1(3) show ?case
    by (induction rule: hub_reachable.induct) (use 1(1,2) in blast)+
qed

subsection \<open>The invariant\<close>

definition chan_ok :: "Chan \<Rightarrow> bool" where
  "chan_ok c \<longleftrightarrow> length (ch_buf c) \<le> hubBuffer \<and> (ch_closed c \<longleftrightarrow> ch_once c = Closed)
     \<and> subseq (ch_recv c @ ch_buf c) (ch_offered c)"

definition hub_ok :: "Hub \<Rightarrow> bool" where
  "hub_ok h \<longleftrightarrow> \<not> hb_panic h \<and> (\<forall>i < length (hb_chans h). chan_ok (hb_chans h ! i)) \<and> distinct (hb_subs h)
     \<and> (\<forall>i. i \<in> set (hb_subs h) \<longleftrightarrow> i < length (hb_chans h) \<and> ch_once (hb_chans h ! i) = Open)"

lemma upd_chan_simps [simp]:
  "hb_subs (upd_chan i f h) = hb_subs h" "hb_panic (upd_chan i f h) = hb_panic h"
  "length (hb_chans (upd_chan i f h)) = length (hb_chans h)"
  by (simp_all add: upd_chan_def)

lemma nth_upd_chan:
  "i < length (hb_chans h) \<Longrightarrow>
   hb_chans (upd_chan i f h) ! k = (if k = i then f (hb_chans h ! i) else hb_chans h ! k)"
  by (simp add: upd_chan_def nth_list_update_if)

text \<open>An update of one channel that keeps it well-formed and its cancel state keeps the hub so.\<close>

lemma hub_ok_upd_chan:
  assumes "hub_ok h" and "i < length (hb_chans h)"
    and "chan_ok (f (hb_chans h ! i))" and "ch_once (f (hb_chans h ! i)) = ch_once (hb_chans h ! i)"
  shows "hub_ok (upd_chan i f h)"
  using assms by (auto simp: hub_ok_def nth_upd_chan)

lemma hub_ok_leave:
  assumes "hub_ok h" and "i < length (hb_chans h)"
    and "chan_ok (f (hb_chans h ! i))" and "ch_once (f (hb_chans h ! i)) \<noteq> Open"
  shows "hub_ok ((upd_chan i f h)\<lparr>hb_subs := filter (\<lambda>k. k \<noteq> i) (hb_subs h)\<rparr>)"
  using assms by (auto simp: hub_ok_def nth_upd_chan)

lemma chan_ok_offer: "chan_ok c \<Longrightarrow> chan_ok (offer msg c)"
proof -
  have "subseq (xs @ [msg]) (ys @ [msg])" if "subseq xs ys" for xs ys :: "string list"
    using that by (simp add: subseq_append)
  then show "chan_ok c \<Longrightarrow> chan_ok (offer msg c)"
    by (auto simp: chan_ok_def offer_def subseq_append_iff simp flip: append_assoc
        intro: subseq_order.trans [OF _ subseq_rev_drop_many])
qed

text \<open>What a broadcast does to the channels: every open subscriber is offered the frame, once.\<close>

lemma Broadcast_run:
  "hub_ok h \<Longrightarrow> set order \<subseteq> set (hb_subs h) \<Longrightarrow> distinct order \<Longrightarrow>
   hub_ok (Broadcast order msg h) \<and> hb_subs (Broadcast order msg h) = hb_subs h
   \<and> length (hb_chans (Broadcast order msg h)) = length (hb_chans h)
   \<and> (\<forall>k. hb_chans (Broadcast order msg h) ! k
          = (if k \<in> set order then offer msg (hb_chans h ! k) else hb_chans h ! k))"
proof (induction order arbitrary: h)
  case Nil
  then show ?case by (simp add: Broadcast_def)
next
  case (Cons i order)
  have i: "i < length (hb_chans h)" "ch_once (hb_chans h ! i) = Open" "chan_ok (hb_chans h ! i)"
    using Cons.prems by (auto simp: hub_ok_def)
  then have op: "\<not> ch_closed (hb_chans h ! i)" by (simp add: chan_ok_def)
  let ?h = "upd_chan i (offer msg) h"
  have "hub_ok ?h"
    using Cons.prems(1) i by (intro hub_ok_upd_chan chan_ok_offer) (simp_all add: offer_def)
  with Cons.IH [of ?h] Cons.prems(2,3) op i(1) show ?case
    by (auto simp: Broadcast_def send_nb_def nth_upd_chan)
qed

lemma Broadcast_step:
  assumes "hub_ok h" and "mset order = mset (hb_subs h)"
  shows "hub_ok (Broadcast order msg h) \<and> hb_subs (Broadcast order msg h) = hb_subs h
    \<and> length (hb_chans (Broadcast order msg h)) = length (hb_chans h)
    \<and> (\<forall>k. hb_chans (Broadcast order msg h) ! k
          = (if k \<in> set (hb_subs h) then offer msg (hb_chans h ! k) else hb_chans h ! k))"
proof -
  have "set order = set (hb_subs h)" "distinct order"
    using assms by (metis set_mset_mset, metis hub_ok_def mset_eq_imp_distinct_iff)
  then show ?thesis using Broadcast_run [OF assms(1), of order msg] by simp
qed

lemma hub_ok_step:
  assumes "hub_ok h" and "hub_step h k"
  shows "hub_ok k"
  using assms(2)
proof cases
  case subscribe
  with assms(1) show ?thesis
    by (auto simp: Subscribe_def Let_def hub_ok_def new_chan_def chan_ok_def nth_append less_Suc_eq)
next
  case (remove i)
  with assms(1) have "chan_ok (hb_chans h ! i)" by (simp add: hub_ok_def)
  with remove assms(1) hub_ok_leave [of h i "\<lambda>c. c\<lparr>ch_once := Removed\<rparr>"] show ?thesis
    by (simp add: cancel_remove_def chan_ok_def)
next
  case (close i)
  have "chan_ok (hb_chans h ! i)" using close assms(1) by (simp add: hub_ok_def)
  with close assms(1) show ?thesis
    by (auto simp: hub_ok_def cancel_close_def nth_upd_chan chan_ok_def)
next
  case (broadcast order msg)
  with Broadcast_step [OF assms(1)] show ?thesis by simp
next
  case (recv i)
  with assms(1) have "chan_ok (hb_chans h ! i)" by (simp add: hub_ok_def)
  moreover have "hd (ch_buf (hb_chans h ! i)) # tl (ch_buf (hb_chans h ! i)) = ch_buf (hb_chans h ! i)"
    using recv by simp
  ultimately show ?thesis
    unfolding recv receive_def using recv assms(1)
    by (intro hub_ok_upd_chan) (auto simp: chan_ok_def)
qed

lemma hub_reachable_ok: "hub_reachable h \<Longrightarrow> hub_ok h"
  by (rule hub.invariantI [of hub_ok]) (auto intro: hub_ok_step, simp add: NewHub_def hub_ok_def)

text \<open>C35: The hub never crashes and never reorders. Whatever clients connect, disconnect,
  read or stall, no send or close ever hits a closed channel; a buffer never holds more than
  eight frames; what a client has read followed by what is still buffered for it is a subsequence
  of the frames broadcast while it was subscribed; and a client that keeps up (fewer than eight frames
  pending) gets the next frame.\<close>

theorem hub_safe:
  assumes "hub_reachable h" and "i < length (hb_chans h)"
  shows "\<not> hb_panic h \<and> length (ch_buf (hb_chans h ! i)) \<le> 8
    \<and> subseq (ch_recv (hb_chans h ! i) @ ch_buf (hb_chans h ! i)) (ch_offered (hb_chans h ! i))
    \<and> (\<forall>order msg. mset order = mset (hb_subs h) \<and> i \<in> set (hb_subs h) \<and> length (ch_buf (hb_chans h ! i)) < 8 \<longrightarrow>
         ch_buf (hb_chans (Broadcast order msg h) ! i) = ch_buf (hb_chans h ! i) @ [msg])"
proof -
  have ok: "hub_ok h" using assms(1) by (rule hub_reachable_ok)
  then have "chan_ok (hb_chans h ! i)" using assms(2) by (simp add: hub_ok_def)
  then have c: "length (ch_buf (hb_chans h ! i)) \<le> 8"
      "subseq (ch_recv (hb_chans h ! i) @ ch_buf (hb_chans h ! i)) (ch_offered (hb_chans h ! i))"
    by (simp_all add: chan_ok_def hubBuffer_def)
  have "ch_buf (hb_chans (Broadcast order msg h) ! i) = ch_buf (hb_chans h ! i) @ [msg]"
    if "mset order = mset (hb_subs h)" "i \<in> set (hb_subs h)" "length (ch_buf (hb_chans h ! i)) < 8" for order msg
    using Broadcast_step [OF ok that(1), of msg] that(2,3) by (simp add: offer_def hubBuffer_def)
  with c ok show ?thesis by (simp add: hub_ok_def)
qed

lemma hub_safe_witness:
  "\<not> hb_panic (Broadcast [0] ''f'' (snd (Subscribe NewHub)))
   \<and> ch_buf (hb_chans (Broadcast [0] ''f'' (snd (Subscribe NewHub))) ! 0) = [''f'']"
proof -
  have 1: "hub_reachable (snd (Subscribe NewHub))"
    by (rule hub_reachable.more [OF hub_reachable.init hub_step.subscribe])
  have "mset [0] = mset (hb_subs (snd (Subscribe NewHub)))"
    by (simp add: Subscribe_def NewHub_def)
  then have "hub_reachable (Broadcast [0] ''f'' (snd (Subscribe NewHub)))"
    using 1 hub_step.broadcast hub_reachable.more by blast
  moreover have "0 < length (hb_chans (Broadcast [0] ''f'' (snd (Subscribe NewHub))))"
    by (simp add: Subscribe_def NewHub_def Broadcast_def send_nb_def new_chan_def)
  ultimately have "\<not> hb_panic (Broadcast [0] ''f'' (snd (Subscribe NewHub)))"
    by (blast dest: hub_safe)
  moreover have "ch_buf (hb_chans (Broadcast [0] ''f'' (snd (Subscribe NewHub))) ! 0)
      = ch_buf (hb_chans (snd (Subscribe NewHub)) ! 0) @ [''f'']"
    using hub_safe [OF 1, of 0] by (auto simp: Subscribe_def NewHub_def new_chan_def)
  ultimately show ?thesis by (simp add: Subscribe_def NewHub_def new_chan_def)
qed

end
