(* ===== verification/Dash_Cache.thy ===== *)
theory Dash_Cache
  imports Run_Store "HOL-Library.AList"
begin

text \<open>
  \<^verbatim>\<open>internal/dashboard/runcache.go\<close> and the loader in front of it (\<^verbatim>\<open>readRun\<close> of \<^verbatim>\<open>state.go\<close>): parsed run files
  memoized by modification time and size. A read makes two critical sections, the lookup and the
  store, around the parse; the observations of the file system and the clock are arguments.
\<close>

definition cacheEntryTTL :: Duration where "cacheEntryTTL = 30 * Minute"
definition cacheSweepEvery :: Duration where "cacheSweepEvery = 5 * Minute"

record runCacheEntry =
  ce_mtime :: Time
  ce_size :: nat
  ce_run :: Run
  ce_lastUsed :: Time

record runCache =
  rc_m :: "(string \<times> runCacheEntry) list"
  rc_lastSweep :: Time

definition newRunCache :: runCache where
  "newRunCache = \<lparr>rc_m = [], rc_lastSweep = 0\<rparr>"

definition sweepLocked :: "Time \<Rightarrow> runCache \<Rightarrow> runCache" where
  "sweepLocked now c =
     (if Sub now (rc_lastSweep c) < cacheSweepEvery then c
      else \<lparr>rc_m = filter (\<lambda>(k, e). \<not> Sub now (ce_lastUsed e) > cacheEntryTTL) (rc_m c), rc_lastSweep = now\<rparr>)"

text \<open>The loader of one file: \<^verbatim>\<open>runstore.ReadRun\<close>, backup included.\<close>

definition defaultParse :: "FS \<Rightarrow> (string \<Rightarrow> Run option) \<Rightarrow> string \<Rightarrow> RunErr + Run" where
  "defaultParse fs dec path = ReadRun fs dec path"

definition cache_hit :: "string \<Rightarrow> FileInfo \<Rightarrow> runCache \<Rightarrow> runCacheEntry option" where
  "cache_hit path st c =
     (case map_of (rc_m c) path of
        Some e \<Rightarrow> if ce_mtime e = fi_ModTime st \<and> ce_size e = fi_Size st then Some e else None
      | None \<Rightarrow> None)"

definition cache_read ::
    "FS \<Rightarrow> (string \<Rightarrow> Run option) \<Rightarrow> Time \<Rightarrow> string \<Rightarrow> string \<Rightarrow> runCache \<Rightarrow> (RunErr + Run) \<times> runCache" where
  "cache_read fs dec now runsDir runID c =
     (if runID = [] then (Inl (ErrRead ErrNotExist), c)
      else
        (let path = Join [runsDir, runID @ ''.json''] in
         case fs_Stat fs path of
           Inl e \<Rightarrow> (Inl (ErrRead e), c\<lparr>rc_m := AList.delete path (rc_m c)\<rparr>)
         | Inr st \<Rightarrow>
             (let c1 = sweepLocked now c in
              case cache_hit path st c1 of
                Some e \<Rightarrow> (Inr (ce_run e), c1\<lparr>rc_m := AList.update path (e\<lparr>ce_lastUsed := now\<rparr>) (rc_m c1)\<rparr>)
              | None \<Rightarrow>
                  (case defaultParse fs dec path of
                     Inl err \<Rightarrow> (Inl err, c1)
                   | Inr run \<Rightarrow>
                       (Inr run, c1\<lparr>rc_m := AList.update path
                          \<lparr>ce_mtime = fi_ModTime st, ce_size = fi_Size st, ce_run = run, ce_lastUsed = now\<rparr> (rc_m c1)\<rparr>)))))"

definition readRun ::
    "FS \<Rightarrow> (string \<Rightarrow> Run option) \<Rightarrow> Time \<Rightarrow> string \<Rightarrow> string \<Rightarrow> runCache \<Rightarrow> (RunErr + Run) \<times> runCache" where
  "readRun fs dec now runsDir runID c =
     (if runID = [] then (Inl (ErrRead ErrNotExist), c)
      else case cache_read fs dec now runsDir runID c of
             (Inr run, c1) \<Rightarrow> (Inr run, c1)
           | (Inl _, c1) \<Rightarrow> (ReadRun fs dec (Join [runsDir, runID @ ''.json'']), c1))"

subsection \<open>A sequence of reads\<close>

text \<open>A dashboard's life: at each read the state of the file system, the clock, and which run.\<close>

type_synonym Look = "FS \<times> Time \<times> string \<times> string"

fun reads :: "(string \<Rightarrow> Run option) \<Rightarrow> Look list \<Rightarrow> runCache \<Rightarrow> (RunErr + Run) list \<times> runCache" where
  "reads dec [] c = ([], c)"
| "reads dec ((fs, now, dir, rid) # ls) c =
     (case readRun fs dec now dir rid c of (r, c1) \<Rightarrow>
        case reads dec ls c1 of (rs, c2) \<Rightarrow> (r # rs, c2))"

text \<open>Every entry was parsed from a file that was seen with the entry's key.\<close>

definition entry_from :: "(string \<Rightarrow> Run option) \<Rightarrow> FS set \<Rightarrow> string \<Rightarrow> runCacheEntry \<Rightarrow> bool" where
  "entry_from dec W p e \<longleftrightarrow> (\<exists>fs \<in> W. \<exists>st. fs_Stat fs p = Inr st \<and> fi_ModTime st = ce_mtime e
     \<and> fi_Size st = ce_size e \<and> ReadRun fs dec p = Inr (ce_run e))"

definition cache_ok :: "(string \<Rightarrow> Run option) \<Rightarrow> FS set \<Rightarrow> runCache \<Rightarrow> bool" where
  "cache_ok dec W c \<longleftrightarrow> distinct (map fst (rc_m c)) \<and> (\<forall>p e. map_of (rc_m c) p = Some e \<longrightarrow> entry_from dec W p e)"

lemma cache_ok_mono: "cache_ok dec W c \<Longrightarrow> W \<subseteq> W' \<Longrightarrow> cache_ok dec W' c"
  by (fastforce simp: cache_ok_def entry_from_def)

lemma map_of_filter_Some:
  "distinct (map fst m) \<Longrightarrow> map_of (filter P m) p = Some e \<longleftrightarrow> map_of m p = Some e \<and> P (p, e)"
  by (auto simp: distinct_map_filter)

lemma cache_ok_sweep: "cache_ok dec W c \<Longrightarrow> cache_ok dec W (sweepLocked now c)"
  by (auto simp: cache_ok_def sweepLocked_def map_of_filter_Some distinct_map_filter)

lemma cache_ok_delete: "cache_ok dec W c \<Longrightarrow> cache_ok dec W (c\<lparr>rc_m := AList.delete p (rc_m c)\<rparr>)"
  by (auto simp: cache_ok_def delete_conv' distinct_delete split: if_splits)

lemma cache_ok_update:
  "cache_ok dec W c \<Longrightarrow> entry_from dec W p e \<Longrightarrow> cache_ok dec W (c\<lparr>rc_m := AList.update p e (rc_m c)\<rparr>)"
  by (auto simp: cache_ok_def update_conv' distinct_update split: if_splits)

lemma entry_from_used [simp]: "entry_from dec W p (e\<lparr>ce_lastUsed := t\<rparr>) \<longleftrightarrow> entry_from dec W p e"
  by (simp add: entry_from_def)

lemma cache_hitD:
  "cache_ok dec W c \<Longrightarrow> cache_hit p st c = Some e \<Longrightarrow>
   entry_from dec W p e \<and> ce_mtime e = fi_ModTime st \<and> ce_size e = fi_Size st"
  by (auto simp: cache_hit_def cache_ok_def split: option.splits if_splits)

lemma cache_read_ok:
  assumes "cache_ok dec W c" and "fs \<in> W"
  shows "cache_ok dec W (snd (cache_read fs dec now dir rid c))"
proof -
  let ?p = "Join [dir, rid @ ''.json'']"
  have sw: "cache_ok dec W (sweepLocked now c)" using assms(1) by (rule cache_ok_sweep)
  show ?thesis
  proof (cases "fs_Stat fs ?p")
    case (Inl e)
    then show ?thesis using assms(1) cache_ok_delete by (simp add: cache_read_def Let_def)
  next
    case (Inr st)
    have new: "entry_from dec W ?p
        \<lparr>ce_mtime = fi_ModTime st, ce_size = fi_Size st, ce_run = run, ce_lastUsed = now\<rparr>"
      if "ReadRun fs dec ?p = Inr run" for run
      using Inr assms(2) that by (auto simp: entry_from_def)
    show ?thesis
      using Inr sw assms(1) cache_hitD [OF sw] new
      by (auto simp: cache_read_def Let_def defaultParse_def intro!: cache_ok_update split: option.split sum.split)
  qed
qed

lemma readRun_snd: "snd (readRun fs dec now dir rid c) = (if rid = [] then c else snd (cache_read fs dec now dir rid c))"
  by (auto simp: readRun_def split: prod.split sum.split)

lemma reads_ok: "cache_ok dec W c \<Longrightarrow> fst ` set ls \<subseteq> W \<Longrightarrow> cache_ok dec W (snd (reads dec ls c))"
proof (induction ls arbitrary: c)
  case (Cons l ls)
  obtain fs now dir rid where l: "l = (fs, now, dir, rid)" by (cases l)
  have "cache_ok dec W (snd (readRun fs dec now dir rid c))"
    using Cons.prems l cache_read_ok by (auto simp: readRun_snd)
  with Cons l show ?case by (simp add: case_prod_unfold)
qed simp

lemma cache_ok_new [simp]: "cache_ok dec W newRunCache"
  by (simp add: cache_ok_def newRunCache_def)

text \<open>Two sightings of a file with the same modification time and size are of the same bytes.\<close>

definition stat_faithful :: "FS set \<Rightarrow> bool" where
  "stat_faithful W \<longleftrightarrow> (\<forall>fs \<in> W. \<forall>fs' \<in> W. \<forall>p st st'. fs_Stat fs p = Inr st \<and> fs_Stat fs' p = Inr st'
     \<and> fi_ModTime st = fi_ModTime st' \<and> fi_Size st = fi_Size st' \<longrightarrow> fs_ReadFile fs p = fs_ReadFile fs' p)"

lemma stat_faithfulD:
  "stat_faithful W \<Longrightarrow> fs \<in> W \<Longrightarrow> fs' \<in> W \<Longrightarrow> fs_Stat fs p = Inr st \<Longrightarrow> fs_Stat fs' p = Inr st' \<Longrightarrow>
   fi_ModTime st = fi_ModTime st' \<Longrightarrow> fi_Size st = fi_Size st' \<Longrightarrow> decodeRunFile fs dec p = decodeRunFile fs' dec p"
  unfolding stat_faithful_def decodeRunFile_def by metis

lemma ReadRun_primary: "decodeRunFile fs dec p = Inr r \<Longrightarrow> ReadRun fs dec p = Inr r"
  by (simp add: ReadRun_def)

lemma readRun_exact:
  assumes "cache_ok dec W c" and "fs \<in> W" and "stat_faithful W" and "rid \<noteq> []"
    and "p = Join [dir, rid @ ''.json'']" and "isl (fs_Stat fs p) \<or> decodeRunFile fs dec p = Inr r"
  shows "fst (readRun fs dec now dir rid c) = ReadRun fs dec p"
proof (cases "fs_Stat fs p")
  case (Inl e)
  then show ?thesis using assms(4,5) by (simp add: readRun_def cache_read_def Let_def)
next
  case (Inr st)
  with assms(6) have prim: "decodeRunFile fs dec p = Inr r" by simp
  have "ce_run e = r" if hit: "cache_hit p st (sweepLocked now c) = Some e" for e
  proof -
    obtain fs' st' where f: "fs' \<in> W" "fs_Stat fs' p = Inr st'" "fi_ModTime st = fi_ModTime st'"
        "fi_Size st = fi_Size st'" "ReadRun fs' dec p = Inr (ce_run e)"
      using cache_hitD [OF cache_ok_sweep [OF assms(1)] hit] by (auto simp: entry_from_def)
    then have "decodeRunFile fs' dec p = Inr r"
      using stat_faithfulD [OF assms(3,2) f(1) Inr f(2,3,4)] prim by metis
    with f(5) show ?thesis by (simp add: ReadRun_primary)
  qed
  with Inr assms(4,5) ReadRun_primary [OF prim] show ?thesis
    by (auto simp: readRun_def cache_read_def Let_def defaultParse_def split: option.split sum.split)
qed

text \<open>C39: The cache is invisible. Take any sequence of reads of any runs in a changing file system in
  which a file's modification time and size tell its contents apart. Then a read gives exactly what an
  uncached \<^verbatim>\<open>ReadRun\<close> would give at that moment, whenever the run file is gone (its backup is consulted) or
  decodes.\<close>

theorem readRun_transparent:
  assumes "stat_faithful (insert fs (fst ` set ls))" and "rid \<noteq> []"
    and "p = Join [dir, rid @ ''.json'']" and "isl (fs_Stat fs p) \<or> decodeRunFile fs dec p = Inr r"
  shows "fst (readRun fs dec now dir rid (snd (reads dec ls newRunCache))) = ReadRun fs dec p"
  using reads_ok [of dec "insert fs (fst ` set ls)" newRunCache ls] assms
  by (intro readRun_exact [of _ "insert fs (fst ` set ls)"]) auto

subsection \<open>Where it is visible\<close>

text \<open>A cached backup outlives the backup. When the run file exists but does not decode, the
  loader's parse falls back to the sibling \<^verbatim>\<open>.bak\<close> and the result is cached under the run file's own
  modification time and size. As long as the run file stays as it is and the entry is in use, every
  later read returns that old backup, whatever the backup holds by then, although the source says
  that recovery is never cached and re-evaluated every time.\<close>

theorem cache_serves_stale_backup:
  assumes "rid \<noteq> []" and "p = Join [dir, rid @ ''.json'']"
    and "fs_Stat fs1 p = Inr st" and "fs_Stat fs2 p = Inr st"
    and "decodeRunFile fs1 dec p = Inl e1" and "decodeRunFile fs2 dec p = Inl e2"
    and "decodeRunFile fs1 dec (p @ ''.bak'') = Inr old" and "decodeRunFile fs2 dec (p @ ''.bak'') = Inr new"
    and "t1 \<le> t2" and "t2 \<le> t1 + cacheEntryTTL"
  shows "fst (reads dec [(fs1, t1, dir, rid), (fs2, t2, dir, rid)] newRunCache) = [Inr old, Inr old]
    \<and> ReadRun fs2 dec p = Inr new"
proof -
  have r1: "ReadRun fs1 dec p = Inr old" and r2: "ReadRun fs2 dec p = Inr new"
    using assms(5-8) by (simp_all add: ReadRun_def)
  let ?e = "\<lparr>ce_mtime = fi_ModTime st, ce_size = fi_Size st, ce_run = old, ce_lastUsed = t1\<rparr>"
  have sw1: "rc_m (sweepLocked t1 newRunCache) = []"
    by (simp add: sweepLocked_def newRunCache_def)
  then have first: "readRun fs1 dec t1 dir rid newRunCache
      = (Inr old, (sweepLocked t1 newRunCache)\<lparr>rc_m := [(p, ?e)]\<rparr>)"
    using assms(1-3) r1 by (simp add: readRun_def cache_read_def cache_hit_def defaultParse_def Let_def)
  have "\<not> Sub t2 t1 > cacheEntryTTL"
    using assms(9,10) by (simp add: Sub_le_iff cacheEntryTTL_def duration_defs)
  then have sw2: "rc_m (sweepLocked t2 ((sweepLocked t1 newRunCache)\<lparr>rc_m := [(p, ?e)]\<rparr>)) = [(p, ?e)]"
    by (simp add: sweepLocked_def)
  have "fst (readRun fs2 dec t2 dir rid ((sweepLocked t1 newRunCache)\<lparr>rc_m := [(p, ?e)]\<rparr>)) = Inr old"
    using assms(1,2,4) sw2 by (simp add: readRun_def cache_read_def cache_hit_def Let_def)
  with first r2 show ?thesis by (auto split: prod.split)
qed

subsection \<open>The cache stays small\<close>

text \<open>No entry was unused for longer than the TTL when the last sweep ran.\<close>

definition swept :: "runCache \<Rightarrow> bool" where
  "swept c \<longleftrightarrow> (\<forall>k e. (k, e) \<in> set (rc_m c) \<longrightarrow> rc_lastSweep c - ce_lastUsed e \<le> cacheEntryTTL)"

lemma TTL_bounds: "0 \<le> cacheEntryTTL" "cacheEntryTTL < maxDuration" "0 \<le> cacheSweepEvery" "cacheSweepEvery < maxDuration"
  by (simp_all add: cacheEntryTTL_def cacheSweepEvery_def duration_defs)

lemma Sub_le_TTL [simp]: "Sub t u \<le> cacheEntryTTL \<longleftrightarrow> t - u \<le> cacheEntryTTL"
  using Sub_le_iff [OF TTL_bounds(1,2)] by (simp flip: not_less)

lemma swept_sweep:
  assumes "swept c" and "rc_lastSweep c \<le> now"
  shows "swept (sweepLocked now c) \<and> now - rc_lastSweep (sweepLocked now c) < cacheSweepEvery
    \<and> rc_lastSweep (sweepLocked now c) \<le> now"
proof (cases "Sub now (rc_lastSweep c) < cacheSweepEvery")
  case True
  then have "now - rc_lastSweep c < cacheSweepEvery"
    using assms(2) by (auto simp: Sub_def cacheSweepEvery_def duration_defs)
  with True assms show ?thesis by (simp add: sweepLocked_def)
next
  case False
  then show ?thesis
    by (auto simp: sweepLocked_def swept_def not_less) (simp add: cacheSweepEvery_def duration_defs)
qed

lemma set_AList_update: "set (AList.update k v m) \<subseteq> insert (k, v) (set m)"
  by (induction m) auto

lemma swept_update: "swept c \<Longrightarrow> rc_lastSweep c \<le> ce_lastUsed e \<Longrightarrow> swept (c\<lparr>rc_m := AList.update p e (rc_m c)\<rparr>)"
  using set_AList_update [of p e "rc_m c"] TTL_bounds(1) by (fastforce simp: swept_def)

lemma swept_delete: "swept c \<Longrightarrow> swept (c\<lparr>rc_m := AList.delete p (rc_m c)\<rparr>)"
  by (auto simp: swept_def AList.delete_eq)

lemma swept_cache_read:
  assumes "swept c" and "rc_lastSweep c \<le> now"
  shows "swept (snd (cache_read fs dec now dir rid c)) \<and> rc_lastSweep (snd (cache_read fs dec now dir rid c)) \<le> now"
  using assms swept_sweep [OF assms]
  by (auto simp: cache_read_def Let_def intro!: swept_update swept_delete split: sum.split option.split)

lemma swept_reads:
  "swept c \<Longrightarrow> sorted (rc_lastSweep c # map (fst \<circ> snd) ls) \<Longrightarrow>
   swept (snd (reads dec ls c)) \<and> (\<forall>t. (\<forall>l \<in> set ls. fst (snd l) \<le> t) \<and> rc_lastSweep c \<le> t \<longrightarrow> rc_lastSweep (snd (reads dec ls c)) \<le> t)"
proof (induction ls arbitrary: c)
  case (Cons l ls)
  obtain fs now dir rid where l: "l = (fs, now, dir, rid)" by (cases l)
  let ?c = "snd (readRun fs dec now dir rid c)"
  have c: "swept ?c" "rc_lastSweep ?c \<le> now"
    using swept_cache_read [OF Cons.prems(1), of now fs dec dir rid] Cons.prems l by (auto simp: readRun_snd)
  have "swept (snd (reads dec ls ?c))
      \<and> (\<forall>t. (\<forall>l \<in> set ls. fst (snd l) \<le> t) \<and> rc_lastSweep ?c \<le> t \<longrightarrow> rc_lastSweep (snd (reads dec ls ?c)) \<le> t)"
    using c Cons.prems(2) l by (intro Cons.IH) (auto intro: order_trans)
  with l c show ?case by (auto simp: case_prod_unfold intro: order_trans)
qed simp

text \<open>The cache is bounded in time. As long as the clock does not run backwards, after a read of an
  existing run file no entry is left that was last used more than 35 minutes before: an entry per run
  ever seen cannot accumulate.\<close>

theorem cache_bounded:
  assumes "sorted (0 # map (fst \<circ> snd) ls @ [now])" and "rid \<noteq> []"
    and "fs_Stat fs (Join [dir, rid @ ''.json'']) = Inr st"
    and "(k, e) \<in> set (rc_m (snd (readRun fs dec now dir rid (snd (reads dec ls newRunCache)))))"
  shows "now - ce_lastUsed e \<le> 35 * Minute"
proof -
  let ?c = "snd (reads dec ls newRunCache)" and ?p = "Join [dir, rid @ ''.json'']"
  have "swept newRunCache" by (simp add: swept_def newRunCache_def)
  moreover have "sorted (rc_lastSweep newRunCache # map (fst \<circ> snd) ls)"
    using assms(1) by (simp add: newRunCache_def sorted_append)
  ultimately have "swept ?c" "rc_lastSweep ?c \<le> now"
    using swept_reads [of newRunCache ls dec] assms(1) by (auto simp: newRunCache_def sorted_append)
  then have sw: "swept (sweepLocked now ?c)" "now - rc_lastSweep (sweepLocked now ?c) < cacheSweepEvery"
    using swept_sweep by auto
  have "(k, e) \<in> set (rc_m (sweepLocked now ?c)) \<or> ce_lastUsed e = now"
    using assms(2-4) set_AList_update
    by (fastforce simp: readRun_snd cache_read_def Let_def split: option.splits sum.splits)
  moreover have "rc_lastSweep (sweepLocked now ?c) - ce_lastUsed e \<le> cacheEntryTTL"
    if "(k, e) \<in> set (rc_m (sweepLocked now ?c))"
    using sw(1) that unfolding swept_def by blast
  ultimately show ?thesis
    using sw(2) by (auto simp: cacheSweepEvery_def cacheEntryTTL_def duration_defs)
qed

subsection \<open>Examples\<close>

text \<open>A directory with one run file and its backup, and a decoder that reads the status.\<close>

definition sample_run :: "string \<Rightarrow> Run" where
  "sample_run st = \<lparr>run_RunID = ''r'', run_SessionID = ''s'', run_WorkflowName = [], run_Status = st, run_CurrentPhase = None,
     run_Phases = [], run_Agents = [], run_Journal = [], run_Logs = [], run_Result = [], run_StartedAt = None,
     run_CompletedAt = None, run_UpdatedAt = None, run_DurationMs = None, run_TokenUsage = None, run_Args = []\<rparr>"

definition sample_fs :: "string \<Rightarrow> string \<Rightarrow> FS" where
  "sample_fs main bak = \<lparr>fs_ReadFile = (\<lambda>p. Inr (if HasSuffix p ''.bak'' then bak else main)),
     fs_Stat = (\<lambda>p. Inr \<lparr>fi_IsDir = False, fi_ModTime = 5, fi_Size = length (if HasSuffix p ''.bak'' then bak else main)\<rparr>),
     fs_ReadDir = (\<lambda>_. Inr []), fs_EvalSymlinks = (\<lambda>p. Inr p)\<rparr>"

definition sample_dec :: "string \<Rightarrow> Run option" where
  "sample_dec b = (if b = ''torn'' then None else Some (sample_run b))"

lemma sample_path: "Join [''/d'', ''r.json''] = ''/d/r.json''"
  using Join_def by (simp add: Join_def Clean_def IsAbs_def HasPrefix_def clean_step_def Let_def)

lemma sample_decode [simp]:
  "decodeRunFile (sample_fs main bak) sample_dec ''/d/r.json'' = (if main = ''torn'' then Inl ErrDecode else Inr (sample_run main))"
  "decodeRunFile (sample_fs main bak) sample_dec ''/d/r.json.bak'' = (if bak = ''torn'' then Inl ErrDecode else Inr (sample_run bak))"
  by (simp_all add: decodeRunFile_def sample_fs_def sample_dec_def HasSuffix_def)

lemma sample_fs_simps [simp]:
  "fs_Stat (sample_fs main bak) p = Inr \<lparr>fi_IsDir = False, fi_ModTime = 5, fi_Size = length (if HasSuffix p ''.bak'' then bak else main)\<rparr>"
  "fs_ReadFile (sample_fs main bak) p = Inr (if HasSuffix p ''.bak'' then bak else main)"
  by (simp_all add: sample_fs_def)

lemma readRun_transparent_witness:
  "fst (readRun (sample_fs ''running'' ''x'') sample_dec 9 ''/d'' ''r''
      (snd (reads sample_dec [(sample_fs ''running'' ''yy'', 7, ''/d'', ''r'')] newRunCache)))
    = ReadRun (sample_fs ''running'' ''x'') sample_dec ''/d/r.json''"
proof -
  have "stat_faithful (insert (sample_fs ''running'' ''x'') (fst ` set [(sample_fs ''running'' ''yy'', 7 :: Time, ''/d'', ''r'')]))"
    by (auto simp: stat_faithful_def split: if_splits)
  from readRun_transparent [OF this, of "''r''" "''/d/r.json''" "''/d''" sample_dec "sample_run ''running''" 9]
  show ?thesis by (simp add: sample_path)
qed

lemma cache_serves_stale_backup_witness:
  "fst (reads sample_dec [(sample_fs ''torn'' ''old'', 7, ''/d'', ''r''), (sample_fs ''torn'' ''new'', 9, ''/d'', ''r'')] newRunCache)
     = [Inr (sample_run ''old''), Inr (sample_run ''old'')]
   \<and> ReadRun (sample_fs ''torn'' ''new'') sample_dec ''/d/r.json'' = Inr (sample_run ''new'')"
  by (rule cache_serves_stale_backup) (simp_all add: sample_path HasSuffix_def cacheEntryTTL_def duration_defs)

lemma cache_bounded_witness:
  "(9 :: Time) - ce_lastUsed (snd (hd (rc_m (snd (readRun (sample_fs ''running'' ''x'') sample_dec 9 ''/d'' ''r''
      (snd (reads sample_dec [(sample_fs ''running'' ''x'', 7, ''/d'', ''r'')] newRunCache))))))) \<le> 35 * Minute"
proof -
  let ?m = "rc_m (snd (readRun (sample_fs ''running'' ''x'') sample_dec 9 ''/d'' ''r''
      (snd (reads sample_dec [(sample_fs ''running'' ''x'', 7, ''/d'', ''r'')] newRunCache))))"
  have "rc_m (snd (cache_read fs sample_dec 9 ''/d'' ''r'' c)) \<noteq> []" if "fs = sample_fs ''running'' ''x''" for fs c
  proof -
    have "AList.update k v al \<noteq> []" for k :: string and v :: runCacheEntry and al by (cases al) auto
    then show ?thesis
      by (simp add: that cache_read_def Let_def sample_path defaultParse_def ReadRun_def split: option.split)
  qed
  then have "?m \<noteq> []" by (simp add: readRun_def case_prod_unfold split: sum.split)
  then have "(fst (hd ?m), snd (hd ?m)) \<in> set ?m" by simp
  from cache_bounded [OF _ _ _ this] show ?thesis by (simp add: sample_path)
qed

end
