(* ===== verification/Dash_State.thy ===== *)
theory Dash_State
  imports Dash_Cache Work_Scan Reg_Store
begin

text \<open>
  \<^verbatim>\<open>internal/dashboard/state.go\<close> and \<^verbatim>\<open>registry.go\<close>, and the job handler of \<^verbatim>\<open>server.go\<close>: the view-model the
  dashboard derives from the shared table, the run files, the snapshots kept in the table and the
  worktrees. The package-level parse cache is threaded through every function that reads a run.
\<close>

subsection \<open>Types\<close>

record Counts =
  cn_Running :: nat
  cn_Queued :: nat
  cn_Completed :: nat
  cn_Failed :: nat
  cn_Aborted :: nat
  cn_Stalled :: nat
  cn_Total :: nat

record JobSummary =
  js_JobID :: string
  js_Mode :: string
  js_Status :: string
  js_WorkflowName :: string
  js_CWD :: string
  js_WorktreePath :: string
  js_Branch :: string
  js_RunID :: string
  js_StartedAt :: Time
  js_CompletedAt :: "Time option"
  js_BlindWindow :: bool
  js_Phase :: string
  js_AgentsDone :: nat
  js_AgentsTotal :: nat
  js_FleetByModel :: "(string \<times> nat) list"
  js_LiveTokens :: int64
  js_Cost :: "float64 option"
  js_DurationMs :: "int64 option"
  js_ErrorCode :: string
  js_ErrorMessage :: string

record DashboardState =
  ds_GeneratedAt :: Time
  ds_StateDir :: string
  ds_Counts :: Counts
  ds_Jobs :: "JobSummary list"

record AgentView =
  av_Label :: string
  av_Model :: string
  av_Phase :: string
  av_Status :: string
  av_Tokens :: int64
  av_StartedAt :: "Time option"
  av_EndedAt :: "Time option"
  av_Error :: string
  av_Prompt :: string
  av_ResultPreview :: string

record JobDetail =
  jd_Summary :: JobSummary
  jd_Phases :: "string list"
  jd_Agents :: "AgentView list"
  jd_Intermediate :: "IntermediateResult list"
  jd_TokenUsage :: "TokenUsage option"
  jd_Result :: any
  jd_Authoring :: "AuthoringInfo option"

text \<open>What the functions observe: the file system, the worktrees, and the JSON decoders.\<close>

record DashEnv =
  dv_fs :: FS
  dv_tree :: "string \<Rightarrow> FNode option"
  dv_dec :: "string \<Rightarrow> Run option"
  dv_unm :: "string \<Rightarrow> any option"
  dv_decA :: "string \<Rightarrow> AuthoringInfo option"
  dv_parse :: "string \<Rightarrow> Time option"

subsection \<open>Operations\<close>

definition dash_runFileExists :: "FS \<Rightarrow> string \<Rightarrow> string \<Rightarrow> bool" where
  "dash_runFileExists fs runsDir runID =
     (if runID = [] then False
      else
        (let p = Join [runsDir, runID @ ''.json''] in
         \<not> isl (fs_Stat fs p) \<or> \<not> isl (fs_Stat fs (p @ ''.bak''))))"

definition decodeSnapshot :: "(string \<Rightarrow> Run option) \<Rightarrow> string \<Rightarrow> Run option" where
  "decodeSnapshot dec b = (if length b = 0 then None else dec b)"

text \<open>The run behind a record: its file, or the snapshot the record carries.\<close>

definition run_of :: "DashEnv \<Rightarrow> Time \<Rightarrow> JobRecord \<Rightarrow> runCache \<Rightarrow> Run option \<times> runCache" where
  "run_of e now rec c =
     (case readRun (dv_fs e) (dv_dec e) now (jr_RunsDir rec) (jr_RunID rec) c of
        (Inr run, c1) \<Rightarrow> (Some run, c1)
      | (Inl _, c1) \<Rightarrow> (decodeSnapshot (dv_dec e) (jr_RunSnapshot rec), c1))"

definition base_summary :: "JobRecord \<Rightarrow> JobSummary" where
  "base_summary rec =
     \<lparr>js_JobID = jr_JobID rec, js_Mode = jr_Mode rec, js_Status = [], js_WorkflowName = [], js_CWD = jr_CWD rec,
      js_WorktreePath = jr_WorktreePath rec, js_Branch = jr_Branch rec, js_RunID = jr_RunID rec,
      js_StartedAt = jr_StartedAt rec, js_CompletedAt = None, js_BlindWindow = False, js_Phase = [],
      js_AgentsDone = 0, js_AgentsTotal = 0, js_FleetByModel = [], js_LiveTokens = 0, js_Cost = None,
      js_DurationMs = None, js_ErrorCode = jr_ErrorCode rec, js_ErrorMessage = jr_ErrorMessage rec\<rparr>"

definition summary_no_run :: "JobRecord \<Rightarrow> Time \<Rightarrow> bool \<Rightarrow> JobSummary \<Rightarrow> JobSummary" where
  "summary_no_run rec now worktreeActive js =
     (if jr_Status rec = JobQueued then js\<lparr>js_Status := ''queued''\<rparr>
      else if jr_Status rec = JobRunning then
        (if \<not> worktreeActive \<and> Sub now (jr_StartedAt rec) > StaleThreshold
         then js\<lparr>js_Status := ''failed'',
                 js_ErrorCode := (if js_ErrorCode js = [] then ErrServerRestarted else js_ErrorCode js)\<rparr>
         else js\<lparr>js_Status := ''running'', js_BlindWindow := True\<rparr>)
      else js\<lparr>js_Status := jr_Status rec\<rparr>)"

definition summary_run :: "JobRecord \<Rightarrow> Time \<Rightarrow> bool \<Rightarrow> Run \<Rightarrow> JobSummary \<Rightarrow> JobSummary" where
  "summary_run rec now worktreeActive run js =
     js\<lparr>js_RunID := run_RunID run, js_WorkflowName := run_WorkflowName run,
        js_Phase := (case run_CurrentPhase run of None \<Rightarrow> js_Phase js | Some p \<Rightarrow> p),
        js_Status := (if IsTerminal (jr_Status rec) then jr_Status rec
                      else Derive (run_Status run) (run_UpdatedAt run) now True worktreeActive),
        js_AgentsTotal := length (run_Agents run),
        js_AgentsDone := count_if (\<lambda>a. ag_Status a = ''done'') (run_Agents run),
        js_LiveTokens := sum_list (map ag_Tokens (run_Agents run)),
        js_FleetByModel := ModelHistogram run,
        js_CompletedAt := run_CompletedAt run, js_DurationMs := run_DurationMs run,
        js_Cost := map_option tu_Cost (run_TokenUsage run)\<rparr>"

definition summarize :: "DashEnv \<Rightarrow> Time \<Rightarrow> JobRecord \<Rightarrow> runCache \<Rightarrow> JobSummary \<times> runCache" where
  "summarize e now rec c =
     (let js = base_summary rec;
          worktreeActive = (jr_Mode rec = ModeWrite
            \<and> WorktreeActive (jr_WorktreePath rec) (dv_tree e (jr_WorktreePath rec)) now);
          (run, c1) = run_of e now rec c
      in (case run of
            None \<Rightarrow> summary_no_run rec now worktreeActive js
          | Some r \<Rightarrow> summary_run rec now worktreeActive r js, c1))"

definition count_status :: "string \<Rightarrow> Counts \<Rightarrow> Counts" where
  "count_status st n0 =
     (let n = n0\<lparr>cn_Total := Suc (cn_Total n0)\<rparr> in
      if st = ''running'' then n\<lparr>cn_Running := Suc (cn_Running n)\<rparr>
      else if st = ''queued'' then n\<lparr>cn_Queued := Suc (cn_Queued n)\<rparr>
      else if st = ''completed'' then n\<lparr>cn_Completed := Suc (cn_Completed n)\<rparr>
      else if st = ''failed'' then n\<lparr>cn_Failed := Suc (cn_Failed n)\<rparr>
      else if st = ''aborted'' then n\<lparr>cn_Aborted := Suc (cn_Aborted n)\<rparr>
      else if st = ''stalled'' then n\<lparr>cn_Stalled := Suc (cn_Stalled n)\<rparr>
      else n)"

fun build_loop ::
    "DashEnv \<Rightarrow> Time \<Rightarrow> JobRecord list \<Rightarrow> Counts \<Rightarrow> JobSummary list \<Rightarrow> runCache \<Rightarrow> Counts \<times> JobSummary list \<times> runCache" where
  "build_loop e now [] n jobs c = (n, jobs, c)"
| "build_loop e now (r # rs) n jobs c =
     (case summarize e now r c of (js, c1) \<Rightarrow> build_loop e now rs (count_status (js_Status js) n) (jobs @ [js]) c1)"

definition shown_before :: "JobSummary \<Rightarrow> JobSummary \<Rightarrow> bool" where
  "shown_before a b =
     (let ta = IsTerminal (js_Status a); tb = IsTerminal (js_Status b) in
      if ta \<noteq> tb then \<not> ta else js_StartedAt a > js_StartedAt b)"

definition zero_Counts :: Counts where
  "zero_Counts = \<lparr>cn_Running = 0, cn_Queued = 0, cn_Completed = 0, cn_Failed = 0, cn_Aborted = 0, cn_Stalled = 0, cn_Total = 0\<rparr>"

definition BuildState :: "DashEnv \<Rightarrow> JobRecord list \<Rightarrow> string \<Rightarrow> Time \<Rightarrow> runCache \<Rightarrow> DashboardState \<times> runCache" where
  "BuildState e recs stateDir now c =
     (case build_loop e now recs zero_Counts [] c of (n, jobs, c1) \<Rightarrow>
        (\<lparr>ds_GeneratedAt = now, ds_StateDir = stateDir, ds_Counts = n, ds_Jobs = SliceStable shown_before jobs\<rparr>, c1))"

definition agent_view :: "Agent \<Rightarrow> AgentView" where
  "agent_view a =
     \<lparr>av_Label = ag_Label a, av_Model = ag_Model a, av_Phase = ag_Phase a, av_Status = ag_Status a,
      av_Tokens = ag_Tokens a, av_StartedAt = ag_StartedAt a, av_EndedAt = ag_EndedAt a,
      av_Error = (case ag_Error a of None \<Rightarrow> [] | Some x \<Rightarrow> x), av_Prompt = ag_Prompt a, av_ResultPreview = ag_ResultPreview a\<rparr>"

definition BuildDetail :: "DashEnv \<Rightarrow> JobRecord \<Rightarrow> Time \<Rightarrow> runCache \<Rightarrow> JobDetail \<times> runCache" where
  "BuildDetail e rec now c =
     (let (s, c1) = summarize e now rec c;
          (run, c2) = run_of e now rec c1;
          d = \<lparr>jd_Summary = s, jd_Phases = [], jd_Agents = [], jd_Intermediate = [], jd_TokenUsage = None,
               jd_Result = ANil, jd_Authoring = None\<rparr>
      in (case run of
            None \<Rightarrow>
              (if js_BlindWindow s
               then d\<lparr>jd_Authoring := ReadAuthoring (dv_fs e) (dv_decA e) (dv_parse e) (jr_RunsDir rec) (jr_JobID rec)\<rparr>
               else d)
          | Some r \<Rightarrow>
              d\<lparr>jd_Phases := run_Phases r, jd_Agents := map agent_view (run_Agents r),
                jd_Intermediate := Intermediates (dv_unm e) r MaxInlineResultBytes,
                jd_TokenUsage := run_TokenUsage r,
                jd_Result := (if IsTerminal (js_Status s) \<and> js_Status s = ''completed''
                              then RawToAny (dv_unm e) (run_Result r) else ANil)\<rparr>, c2))"

subsection \<open>The shared table, read-only\<close>

text \<open>\<open>None\<close> for a database error; the database file is missing when \<open>db\<close> is \<open>None\<close>. The listing does not fetch
  the snapshots.\<close>

definition ReadRegistry :: "bool \<Rightarrow> Table option \<Rightarrow> JobRecord list option" where
  "ReadRegistry ok db =
     (case db of
        None \<Rightarrow> Some []
      | Some t \<Rightarrow> if ok then Some (map (\<lambda>r. (row_rec r)\<lparr>jr_RunSnapshot := []\<rparr>) t) else None)"

definition ReadJobSnapshot :: "bool \<Rightarrow> Table option \<Rightarrow> string \<Rightarrow> string option" where
  "ReadJobSnapshot ok db jobID =
     (case db of
        None \<Rightarrow> Some []
      | Some t \<Rightarrow>
          if ok then (case tbl_get t jobID of None \<Rightarrow> Some [] | Some r \<Rightarrow> Some (row_runSnapshot r)) else None)"

datatype HttpJob = NotFound | Unavailable | JobJSON JobDetail

text \<open>\<^verbatim>\<open>handleJob\<close>; \<open>ok1\<close> and \<open>ok2\<close> are whether the two database reads succeed.\<close>

definition handleJob :: "DashEnv \<Rightarrow> bool \<Rightarrow> bool \<Rightarrow> Table option \<Rightarrow> Time \<Rightarrow> string \<Rightarrow> runCache \<Rightarrow> HttpJob \<times> runCache" where
  "handleJob e ok1 ok2 db now path c =
     (let jid = (if HasPrefix path ''/api/job/'' then drop (length ''/api/job/'') path else path) in
      if jid = [] then (NotFound, c)
      else case ReadRegistry ok1 db of
        None \<Rightarrow> (Unavailable, c)
      | Some recs \<Rightarrow>
          (case find (\<lambda>r. jr_JobID r = jid) recs of
             None \<Rightarrow> (NotFound, c)
           | Some rec \<Rightarrow>
               (let rec' =
                  (if dash_runFileExists (dv_fs e) (jr_RunsDir rec) (jr_RunID rec) then rec
                   else case ReadJobSnapshot ok2 db jid of
                          Some snap \<Rightarrow> if length snap > 0 then rec\<lparr>jr_RunSnapshot := snap\<rparr> else rec
                        | None \<Rightarrow> rec);
                    (d, c1) = BuildDetail e rec' now c
                in (JobJSON d, c1))))"

subsection \<open>Order and counts\<close>

interpretation shown: weak_order shown_before
  by unfold_locales (auto simp: shown_before_def Let_def split: if_splits)

fun summaries :: "DashEnv \<Rightarrow> Time \<Rightarrow> JobRecord list \<Rightarrow> runCache \<Rightarrow> JobSummary list" where
  "summaries e now [] c = []"
| "summaries e now (r # rs) c = (case summarize e now r c of (js, c1) \<Rightarrow> js # summaries e now rs c1)"

lemma build_loop_summaries:
  "fst (build_loop e now rs n jobs c) = fold (count_status \<circ> js_Status) (summaries e now rs c) n"
  "fst (snd (build_loop e now rs n jobs c)) = jobs @ summaries e now rs c"
  by (induction rs arbitrary: n jobs c) (simp_all add: case_prod_unfold)

lemma BuildState_jobs:
  "ds_Jobs (fst (BuildState e recs sd now c)) = SliceStable shown_before (summaries e now recs c)"
  "ds_Counts (fst (BuildState e recs sd now c)) = fold (count_status \<circ> js_Status) (summaries e now recs c) zero_Counts"
  using build_loop_summaries [of e now recs zero_Counts "[]" c]
  by (simp_all add: BuildState_def case_prod_unfold)

definition counted :: "Counts \<Rightarrow> string \<Rightarrow> nat" where
  "counted n st =
     (if st = ''running'' then cn_Running n else if st = ''queued'' then cn_Queued n
      else if st = ''completed'' then cn_Completed n else if st = ''failed'' then cn_Failed n
      else if st = ''aborted'' then cn_Aborted n else if st = ''stalled'' then cn_Stalled n else 0)"

lemma counted_zero [simp]: "counted zero_Counts st = 0"
  by (simp add: counted_def zero_Counts_def)

definition shown_words :: "string list" where
  "shown_words = [''running'', ''queued'', ''completed'', ''failed'', ''aborted'', ''stalled'']"

lemma counted_count_status:
  "st \<in> set shown_words \<Longrightarrow> counted (count_status x n) st = counted n st + (if x = st then 1 else 0)"
  by (auto simp: counted_def count_status_def shown_words_def Let_def)

lemma cn_Total_count_status: "cn_Total (count_status x n) = Suc (cn_Total n)"
  by (simp add: count_status_def Let_def)

lemma fold_counts:
  "cn_Total (fold (count_status \<circ> js_Status) js n) = cn_Total n + length js"
  "st \<in> set shown_words \<Longrightarrow>
   counted (fold (count_status \<circ> js_Status) js n) st = counted n st + count_if (\<lambda>j. js_Status j = st) js"
  by (induction js arbitrary: n) (simp_all add: cn_Total_count_status counted_count_status)

lemma count_if_mset: "mset xs = mset ys \<Longrightarrow> count_if P xs = count_if P ys"
  unfolding count_if_def by (metis mset_filter size_mset)

lemma summarize_fields [simp]:
  "js_JobID (fst (summarize e now rec c)) = jr_JobID rec"
  "js_StartedAt (fst (summarize e now rec c)) = jr_StartedAt rec"
  by (simp_all add: summarize_def case_prod_unfold Let_def summary_no_run_def summary_run_def base_summary_def split: option.split)

lemma Derive_words: "Derive d u now alive act \<in> set shown_words"
  by (auto simp: Derive_def MapDisk_def IsTerminal_def shown_words_def Let_def split: option.split)

lemma summarize_words:
  "jr_Status rec \<in> {JobQueued, JobRunning, JobCompleted, JobFailed, JobAborted} \<Longrightarrow>
   js_Status (fst (summarize e now rec c)) \<in> set shown_words"
  using Derive_words
  by (auto simp: summarize_def case_prod_unfold Let_def summary_no_run_def summary_run_def shown_words_def status_defs
      split: option.split)

lemma summaries_ids: "map js_JobID (summaries e now recs c) = map jr_JobID recs"
  by (induction recs arbitrary: c) (simp_all add: case_prod_unfold)

lemma summaries_words:
  "(\<And>r. r \<in> set recs \<Longrightarrow> jr_Status r \<in> {JobQueued, JobRunning, JobCompleted, JobFailed, JobAborted}) \<Longrightarrow>
   list_all (\<lambda>j. js_Status j \<in> set shown_words) (summaries e now recs c)"
  by (induction recs arbitrary: c) (simp_all add: case_prod_unfold summarize_words)

lemma words_sum:
  "list_all (\<lambda>j. js_Status j \<in> set shown_words) js \<Longrightarrow>
   sum_list (map (\<lambda>st. count_if (\<lambda>j. js_Status j = st) js) shown_words) = length js"
  by (induction js) (auto simp: shown_words_def)

text \<open>The overview adds up. For records with a status of the registry's vocabulary the snapshot lists
  every job once, active jobs first and newer ones before older ones; each counter is the number of
  listed jobs with that status, and the six counters sum to the total.\<close>

theorem BuildState_spec:
  assumes "\<And>r. r \<in> set recs \<Longrightarrow> jr_Status r \<in> {JobQueued, JobRunning, JobCompleted, JobFailed, JobAborted}"
    and "st = fst (BuildState e recs sd now c)"
  shows "mset (map js_JobID (ds_Jobs st)) = mset (map jr_JobID recs)
    \<and> sorted_wrt (\<lambda>a b. \<not> shown_before b a) (ds_Jobs st)
    \<and> cn_Total (ds_Counts st) = length recs
    \<and> (\<forall>w \<in> set shown_words. counted (ds_Counts st) w = count_if (\<lambda>j. js_Status j = w) (ds_Jobs st))
    \<and> cn_Running (ds_Counts st) + cn_Queued (ds_Counts st) + cn_Completed (ds_Counts st) + cn_Failed (ds_Counts st)
       + cn_Aborted (ds_Counts st) + cn_Stalled (ds_Counts st) = cn_Total (ds_Counts st)"
proof -
  let ?js = "summaries e now recs c"
  have jobs: "ds_Jobs st = SliceStable shown_before ?js" and n: "ds_Counts st = fold (count_status \<circ> js_Status) ?js zero_Counts"
    using assms(2) BuildState_jobs by simp_all
  have len: "length ?js = length recs" using summaries_ids [of e now recs c] by (metis length_map)
  have ids: "mset (map js_JobID (ds_Jobs st)) = mset (map jr_JobID recs)"
    unfolding jobs by (simp flip: summaries_ids [of e now recs c])
  have srt: "sorted_wrt (\<lambda>a b. \<not> shown_before b a) (ds_Jobs st)"
    unfolding jobs by (rule shown.sorted_SliceStable)
  have tot: "cn_Total (ds_Counts st) = length recs"
    by (simp add: n fold_counts(1) len zero_Counts_def)
  have cnt: "counted (ds_Counts st) w = count_if (\<lambda>j. js_Status j = w) ?js" if "w \<in> set shown_words" for w
    using that by (simp add: n fold_counts(2))
  have "count_if (\<lambda>j. js_Status j = w) (ds_Jobs st) = count_if (\<lambda>j. js_Status j = w) ?js" for w
    unfolding jobs by (rule count_if_mset) simp
  moreover have "sum_list (map (\<lambda>w. counted (ds_Counts st) w) shown_words) = length recs"
    using words_sum [OF summaries_words [of recs, OF assms(1)], of e now c] cnt len by (simp cong: map_cong)
  then have "cn_Running (ds_Counts st) + cn_Queued (ds_Counts st) + cn_Completed (ds_Counts st) + cn_Failed (ds_Counts st)
       + cn_Aborted (ds_Counts st) + cn_Stalled (ds_Counts st) = length recs"
    by (simp add: shown_words_def counted_def)
  ultimately show ?thesis using ids srt tot cnt by simp
qed

definition sample_env :: "FS \<Rightarrow> DashEnv" where
  "sample_env fs = \<lparr>dv_fs = fs, dv_tree = (\<lambda>_. None), dv_dec = sample_dec, dv_unm = (\<lambda>_. None), dv_decA = (\<lambda>_. None), dv_parse = (\<lambda>_. None)\<rparr>"

lemma BuildState_spec_witness:
  "mset (map js_JobID (ds_Jobs (fst (BuildState (sample_env (sample_fs ''running'' ''x''))
      [sample_rec ''j1'' JobCompleted, sample_rec ''j2'' JobRunning] ''/s'' 9 newRunCache)))) = {#''j1'', ''j2''#}"
proof -
  let ?recs = "[sample_rec ''j1'' JobCompleted, sample_rec ''j2'' JobRunning]"
  have "jr_Status r \<in> {JobQueued, JobRunning, JobCompleted, JobFailed, JobAborted}" if "r \<in> set ?recs" for r
    using that by auto
  from BuildState_spec [of ?recs, OF this refl, THEN conjunct1] show ?thesis by simp
qed

subsection \<open>A job's detail\<close>

text \<open>What a detail shows is determined by the run behind the record when the status is terminal.\<close>

lemma summarize_terminal:
  "IsTerminal (jr_Status rec) \<Longrightarrow> js_Status (fst (summarize e now rec c)) = jr_Status rec"
  by (auto simp: summarize_def case_prod_unfold Let_def summary_no_run_def summary_run_def JobQueued_def JobRunning_def IsTerminal_def
      split: option.split)

definition detail_of :: "DashEnv \<Rightarrow> JobRecord \<Rightarrow> Run \<Rightarrow> JobDetail" where
  "detail_of e rec r =
     \<lparr>jd_Summary = summary_run rec 0 False r (base_summary rec), jd_Phases = run_Phases r, jd_Agents = map agent_view (run_Agents r),
      jd_Intermediate = Intermediates (dv_unm e) r MaxInlineResultBytes, jd_TokenUsage = run_TokenUsage r,
      jd_Result = (if jr_Status rec = ''completed'' then RawToAny (dv_unm e) (run_Result r) else ANil), jd_Authoring = None\<rparr>"

lemma BuildDetail_terminal:
  assumes "IsTerminal (jr_Status rec)" and "fst (run_of e now rec c) = Some r"
    and "fst (run_of e now rec (snd (run_of e now rec c))) = Some r"
  shows "fst (BuildDetail e rec now c) = detail_of e rec r"
  using assms
  by (auto simp: BuildDetail_def detail_of_def summarize_def case_prod_unfold Let_def summary_run_def base_summary_def)

lemma detail_of_cong:
  "dv_unm e = dv_unm e' \<Longrightarrow> detail_of e (rec\<lparr>jr_RunSnapshot := s\<rparr>) r = detail_of e' rec r"
  by (simp add: detail_of_def summary_run_def base_summary_def)

text \<open>The run is read from the file if it decodes, and from the snapshot if file and backup are gone.\<close>

lemma run_of_file:
  assumes "cache_ok (dv_dec e) {dv_fs e} c" and "jr_RunID rec \<noteq> []"
    and "decodeRunFile (dv_fs e) (dv_dec e) (Join [jr_RunsDir rec, jr_RunID rec @ ''.json'']) = Inr r"
  shows "fst (run_of e now rec c) = Some r \<and> cache_ok (dv_dec e) {dv_fs e} (snd (run_of e now rec c))"
proof -
  have "stat_faithful {dv_fs e}" by (auto simp: stat_faithful_def)
  then have "fst (readRun (dv_fs e) (dv_dec e) now (jr_RunsDir rec) (jr_RunID rec) c) = Inr r"
    using readRun_exact [OF assms(1) singletonI _ assms(2) refl, of "jr_RunsDir rec" r now] assms(3)
      ReadRun_primary [OF assms(3)] by simp
  then have "run_of e now rec c = (Some r, snd (readRun (dv_fs e) (dv_dec e) now (jr_RunsDir rec) (jr_RunID rec) c))"
    by (simp add: run_of_def case_prod_unfold)
  with cache_read_ok [OF assms(1)] assms(2) show ?thesis by (simp add: readRun_snd)
qed

definition run_file_gone :: "FS \<Rightarrow> string \<Rightarrow> string \<Rightarrow> bool" where
  "run_file_gone fs runsDir runID \<longleftrightarrow>
     (\<forall>p \<in> {Join [runsDir, runID @ ''.json''], Join [runsDir, runID @ ''.json''] @ ''.bak''}.
        isl (fs_Stat fs p) \<and> isl (fs_ReadFile fs p))"

lemma run_of_gone:
  assumes "run_file_gone (dv_fs e) (jr_RunsDir rec) (jr_RunID rec)"
  shows "fst (run_of e now rec c) = decodeSnapshot (dv_dec e) (jr_RunSnapshot rec)"
proof -
  let ?p = "Join [jr_RunsDir rec, jr_RunID rec @ ''.json'']"
  obtain x y z where "fs_Stat (dv_fs e) ?p = Inl x" "fs_ReadFile (dv_fs e) ?p = Inl y"
      "fs_ReadFile (dv_fs e) (?p @ ''.bak'') = Inl z"
    using assms by (auto simp: run_file_gone_def isl_def)
  then show ?thesis
    by (auto simp: run_of_def readRun_def cache_read_def ReadRun_def decodeRunFile_def Let_def)
qed

lemma handleJob_row:
  assumes "wf_table t" and "tbl_get t jid = Some row" and "jid \<noteq> []"
  shows "handleJob e True True (Some t) now (''/api/job/'' @ jid) c =
    (let rec = (row_rec row)\<lparr>jr_RunSnapshot := (if dash_runFileExists (dv_fs e) (jr_RunsDir (row_rec row)) (jr_RunID (row_rec row)) then []
                 else row_runSnapshot row)\<rparr>
     in map_prod JobJSON id (BuildDetail e rec now c))"
proof -
  have "find (\<lambda>r. jr_JobID r = jid) (map (\<lambda>r. (row_rec r)\<lparr>jr_RunSnapshot := []\<rparr>) t)
      = map_option (\<lambda>r. (row_rec r)\<lparr>jr_RunSnapshot := []\<rparr>) (tbl_get t jid)"
    by (induction t) (auto simp: tbl_get_def)
  then show ?thesis
    using assms(2,3)
    by (auto simp: handleJob_def ReadRegistry_def ReadJobSnapshot_def Let_def HasPrefix_def case_prod_unfold map_prod_def)
qed

end
