(* ===== verification/Dash_Poller.thy ===== *)
theory Dash_Poller
  imports Dash_State Dash_Hub
begin

text \<open>
  \<^verbatim>\<open>internal/dashboard/poller.go\<close>: the poller that rebuilds the snapshot, keeps the watches in step with the
  active jobs and pushes a frame to the hub when the snapshot changed; and the event stream of \<^verbatim>\<open>server.go\<close>.

  \<^verbatim>\<open>json.Marshal\<close> and \<^verbatim>\<open>sha256.Sum256\<close> are the parameters \<open>enc\<close> and \<open>sha\<close>. Subscription handles are objects with
  a stop flag, addressed by their index.
\<close>

record Poller =
  po_registryPath :: string
  po_stateDir :: string
  po_latest :: DashboardState
  po_latestJSON :: "string option"
  po_lastHash :: string
  po_primed :: bool
  po_subs :: "(string \<times> nat) list"
  po_stopped :: "bool list"

definition zero_DashboardState :: DashboardState where
  "zero_DashboardState = \<lparr>ds_GeneratedAt = 0, ds_StateDir = [], ds_Counts = zero_Counts, ds_Jobs = []\<rparr>"

definition NewPoller :: "string \<Rightarrow> string \<Rightarrow> Poller" where
  "NewPoller registryPath stateDir =
     \<lparr>po_registryPath = registryPath, po_stateDir = stateDir, po_latest = zero_DashboardState, po_latestJSON = None,
      po_lastHash = [], po_primed = False, po_subs = [], po_stopped = []\<rparr>"

text \<open>\<^verbatim>\<open>subHandle.stop\<close>: once only.\<close>

definition stop_handle :: "nat \<Rightarrow> Poller \<Rightarrow> Poller" where
  "stop_handle h p = p\<lparr>po_stopped := (po_stopped p)[h := True]\<rparr>"

definition add_watch :: "(string \<Rightarrow> bool) \<Rightarrow> string \<Rightarrow> Poller \<Rightarrow> Poller" where
  "add_watch sub dir p =
     (if dir = [] then p
      else if dir \<in> fst ` set (po_subs p) then p
      else if \<not> sub dir then p
      else p\<lparr>po_subs := po_subs p @ [(dir, length (po_stopped p))], po_stopped := po_stopped p @ [False]\<rparr>)"

text \<open>\<^verbatim>\<open>refreshWatches\<close>: \<open>sub\<close> says which directories can be subscribed to now (\<open>None\<close>: no subscriber is
  configured); \<open>want\<close> is the wanted set, visited in any order, \<open>None\<close> at shutdown.\<close>

definition refreshWatches :: "(string \<Rightarrow> bool) option \<Rightarrow> string list option \<Rightarrow> Poller \<Rightarrow> Poller" where
  "refreshWatches subscribe want p =
     (case subscribe of
        None \<Rightarrow> p
      | Some sub \<Rightarrow>
          (let gone = filter (\<lambda>(d, h). case want of None \<Rightarrow> True | Some ws \<Rightarrow> d \<notin> set ws) (po_subs p);
               p1 = (fold (\<lambda>(d, h). stop_handle h) gone p)
                      \<lparr>po_subs := filter (\<lambda>(d, h). case want of None \<Rightarrow> False | Some ws \<Rightarrow> d \<in> set ws) (po_subs p)\<rparr>
           in case want of None \<Rightarrow> p1 | Some ws \<Rightarrow> fold (add_watch sub) ws p1))"

definition wanted :: "string \<Rightarrow> JobRecord list \<Rightarrow> string list" where
  "wanted registryPath recs =
     remdups (Dir registryPath # map jr_RunsDir (filter (\<lambda>r. jr_Status r = ''running'' \<or> jr_Status r = ''queued'') recs))"

text \<open>\<^verbatim>\<open>Tick\<close> on what one tick observes: the registry's answer, the subscriber, the environment and the clock.
  It returns the frame it broadcasts, if any.\<close>

record TickObs =
  tk_recs :: "JobRecord list option"
  tk_sub :: "(string \<Rightarrow> bool) option"
  tk_env :: DashEnv
  tk_now :: Time

definition content :: "DashboardState \<Rightarrow> DashboardState" where
  "content st = st\<lparr>ds_GeneratedAt := 0\<rparr>"

definition Tick ::
    "(DashboardState \<Rightarrow> string) \<Rightarrow> (string \<Rightarrow> string) \<Rightarrow> TickObs \<Rightarrow> Poller \<times> runCache \<Rightarrow> string option \<times> Poller \<times> runCache" where
  "Tick enc sha ob s =
     (case tk_recs ob of
        None \<Rightarrow> (None, s)
      | Some recs \<Rightarrow>
          (let p1 = refreshWatches (tk_sub ob) (Some (wanted (po_registryPath (fst s)) recs)) (fst s);
               (st, c1) = BuildState (tk_env ob) recs (po_stateDir p1) (tk_now ob) (snd s);
               h = sha (enc (content st));
               full = enc st;
               changed = (\<not> po_primed p1 \<or> h \<noteq> po_lastHash p1)
           in (if changed then Some full else None,
               p1\<lparr>po_latest := st, po_latestJSON := Some full, po_lastHash := h, po_primed := True\<rparr>, c1)))"

definition LatestJSON :: "(DashboardState \<Rightarrow> string) \<Rightarrow> Poller \<Rightarrow> string" where
  "LatestJSON enc p = (case po_latestJSON p of Some b \<Rightarrow> b | None \<Rightarrow> enc (po_latest p))"

text \<open>\<^verbatim>\<open>handleEvents\<close> opens a stream: it subscribes, then writes the current snapshot.\<close>

definition open_stream :: "(DashboardState \<Rightarrow> string) \<Rightarrow> Poller \<Rightarrow> Hub \<Rightarrow> nat \<times> string \<times> Hub" where
  "open_stream enc p h = (case Subscribe h of (i, h1) \<Rightarrow> (i, LatestJSON enc p, h1))"

definition writeSSE :: "string \<Rightarrow> string" where
  "writeSSE data = ''data: '' @ data @ nl @ nl"

text \<open>A tick of the dashboard: the poller's frame goes to the hub.\<close>

definition dash_tick ::
    "(DashboardState \<Rightarrow> string) \<Rightarrow> (string \<Rightarrow> string) \<Rightarrow> TickObs \<Rightarrow> (Poller \<times> runCache) \<times> Hub \<Rightarrow> (Poller \<times> runCache) \<times> Hub" where
  "dash_tick enc sha ob s =
     (case Tick enc sha ob (fst s) of
        (None, q) \<Rightarrow> (q, snd s)
      | (Some msg, q) \<Rightarrow> (q, Broadcast (hb_subs (snd s)) msg (snd s)))"

subsection \<open>Watches\<close>

text \<open>Every handle that is not stopped is in the map, under one directory, and conversely.\<close>

definition watches_ok :: "Poller \<Rightarrow> bool" where
  "watches_ok p \<longleftrightarrow> distinct (map fst (po_subs p)) \<and> distinct (map snd (po_subs p))
     \<and> (\<forall>h. h \<in> snd ` set (po_subs p) \<longleftrightarrow> h < length (po_stopped p) \<and> \<not> po_stopped p ! h)"

lemma watches_ok_new: "watches_ok (NewPoller rp sd)"
  by (simp add: watches_ok_def NewPoller_def)

lemma stop_all:
  "po_stopped (fold (\<lambda>(d, h). stop_handle h) gone p) = fold (\<lambda>h s. s[h := True]) (map snd gone) (po_stopped p)"
  by (induction gone arbitrary: p) (auto simp: stop_handle_def)

lemma fold_stop_nth:
  "length (fold (\<lambda>h s. s[h := True]) hs s) = length s \<and>
   (\<forall>k < length s. fold (\<lambda>h s. s[h := True]) hs s ! k \<longleftrightarrow> s ! k \<or> k \<in> set hs)"
proof (induction hs arbitrary: s)
  case (Cons a hs)
  show ?case
  proof (cases "a < length s")
    case True
    with Cons [of "s[a := True]"] show ?thesis by (auto simp: nth_list_update)
  next
    case False
    with Cons [of s] show ?thesis by (auto simp: list_update_beyond)
  qed
qed simp

lemma watches_ok_filter:
  assumes "watches_ok p"
  shows "watches_ok ((fold (\<lambda>(d, h). stop_handle h) (filter (\<lambda>x. \<not> P x) (po_subs p)) p)\<lparr>po_subs := filter P (po_subs p)\<rparr>)"
proof -
  let ?s = "fold (\<lambda>h s. s[h := True]) (map snd (filter (\<lambda>x. \<not> P x) (po_subs p))) (po_stopped p)"
  have live: "h \<in> snd ` set (po_subs p) \<longleftrightarrow> h < length (po_stopped p) \<and> \<not> po_stopped p ! h" for h
    using assms by (auto simp: watches_ok_def)
  have inj: "inj_on snd (set (po_subs p))"
    using assms by (simp add: watches_ok_def distinct_map)
  have "h \<in> snd ` set (filter P (po_subs p)) \<longleftrightarrow> h < length ?s \<and> \<not> ?s ! h" for h
  proof -
    have "h \<in> snd ` set (filter P (po_subs p)) \<longleftrightarrow>
        h \<in> snd ` set (po_subs p) \<and> h \<notin> snd ` set (filter (\<lambda>x. \<not> P x) (po_subs p))"
      using inj by (auto simp: inj_on_def)
    with live fold_stop_nth [of "map snd (filter (\<lambda>x. \<not> P x) (po_subs p))" "po_stopped p"] show ?thesis by auto
  qed
  with assms show ?thesis
    by (simp add: watches_ok_def stop_all distinct_map_filter)
qed

lemma add_watch_ok: "watches_ok p \<Longrightarrow> watches_ok (add_watch sub d p)"
  by (auto simp: watches_ok_def add_watch_def nth_append less_Suc_eq image_iff)

lemma add_watch_dirs:
  "fst ` set (po_subs (add_watch sub d p)) = fst ` set (po_subs p) \<union> (if d \<noteq> [] \<and> sub d then {d} else {})"
  by (auto simp: add_watch_def)

lemma add_watches:
  "watches_ok p \<Longrightarrow> watches_ok (fold (add_watch sub) ws p)"
  "fst ` set (po_subs (fold (add_watch sub) ws p)) = fst ` set (po_subs p) \<union> {d \<in> set ws. d \<noteq> [] \<and> sub d}"
  by (induction ws arbitrary: p) (auto simp: add_watch_ok add_watch_dirs)

text \<open>The dashboard watches exactly what it should and leaks nothing. After a refresh the watched directories are the
  wanted ones that were watched already or could be subscribed to; every subscription handle that is
  not in the map has been stopped, and none in the map has; after a shutdown all are stopped.\<close>

theorem refreshWatches_exact:
  assumes "watches_ok p" and "p' = refreshWatches (Some sub) want p"
  shows "watches_ok p'
    \<and> fst ` set (po_subs p') = (case want of None \<Rightarrow> {}
        | Some ws \<Rightarrow> {d \<in> set ws. d \<in> fst ` set (po_subs p) \<or> d \<noteq> [] \<and> sub d})
    \<and> (want = None \<longrightarrow> po_subs p' = [] \<and> list_all (\<lambda>stopped. stopped) (po_stopped p'))"
proof (cases want)
  case None
  have "watches_ok p'"
    using watches_ok_filter [OF assms(1), of "\<lambda>_. False"] None assms(2)
    by (simp add: refreshWatches_def case_prod_unfold Let_def)
  moreover have "po_subs p' = []"
    using None assms(2) by (simp add: refreshWatches_def Let_def case_prod_unfold)
  ultimately show ?thesis
    using None by (auto simp: watches_ok_def list_all_length)
next
  case (Some ws)
  let ?p1 = "(fold (\<lambda>(d, h). stop_handle h) (filter (\<lambda>x. \<not> fst x \<in> set ws) (po_subs p)) p)
    \<lparr>po_subs := filter (\<lambda>x. fst x \<in> set ws) (po_subs p)\<rparr>"
  have p': "p' = fold (add_watch sub) ws ?p1"
    using Some assms(2) by (simp add: refreshWatches_def case_prod_unfold Let_def)
  have "watches_ok ?p1" using watches_ok_filter [OF assms(1), of "\<lambda>x. fst x \<in> set ws"] by simp
  with p' Some show ?thesis
    using add_watches(1) [of ?p1 sub ws] add_watches(2) [of sub ws ?p1] by auto
qed

lemma refreshWatches_exact_witness:
  "fst ` set (po_subs (refreshWatches (Some (\<lambda>d. d \<noteq> ''/y'')) (Some [''/x'', ''/y'', []]) (NewPoller ''/s/r.db'' ''/s''))) = {''/x''}"
  using refreshWatches_exact [OF watches_ok_new refl, of "\<lambda>d. d \<noteq> ''/y''" "Some [''/x'', ''/y'', []]" "''/s/r.db''" "''/s''"]
  by (auto simp: NewPoller_def)

subsection \<open>Frames\<close>

lemma fold_keeps: "(\<And>x s. f (g x s) = f s) \<Longrightarrow> f (fold g xs s) = f s"
  by (induction xs arbitrary: s) simp_all

definition poller_ok :: "(DashboardState \<Rightarrow> string) \<Rightarrow> (string \<Rightarrow> string) \<Rightarrow> Poller \<Rightarrow> bool" where
  "poller_ok enc sha p \<longleftrightarrow> (po_primed p \<longrightarrow>
     po_latestJSON p = Some (enc (po_latest p)) \<and> po_lastHash p = sha (enc (content (po_latest p))))"

lemma poller_ok_new [simp]: "poller_ok enc sha (NewPoller rp sd)"
  by (simp add: poller_ok_def NewPoller_def)

text \<open>The fields the watch handling leaves alone.\<close>

definition snapshot_fields :: "Poller \<Rightarrow> DashboardState \<times> string option \<times> string \<times> bool \<times> string" where
  "snapshot_fields p = (po_latest p, po_latestJSON p, po_lastHash p, po_primed p, po_stateDir p)"

lemma refreshWatches_keeps: "snapshot_fields (refreshWatches sub want p) = snapshot_fields p"
proof -
  have "snapshot_fields (add_watch f d q) = snapshot_fields q" "snapshot_fields (stop_handle h q) = snapshot_fields q"
    "snapshot_fields (q\<lparr>po_subs := l\<rparr>) = snapshot_fields q" for f d h q l
    by (simp_all add: snapshot_fields_def add_watch_def stop_handle_def)
  then show ?thesis
    by (auto simp: refreshWatches_def Let_def fold_keeps case_prod_unfold split: option.split)
qed

lemma refreshWatches_fields [simp]:
  "po_latest (refreshWatches sub want p) = po_latest p" "po_latestJSON (refreshWatches sub want p) = po_latestJSON p"
  "po_lastHash (refreshWatches sub want p) = po_lastHash p" "po_primed (refreshWatches sub want p) = po_primed p"
  "po_stateDir (refreshWatches sub want p) = po_stateDir p"
  using refreshWatches_keeps [of sub want p] by (simp_all add: snapshot_fields_def)

text \<open>The snapshot a tick builds.\<close>

definition tick_state :: "TickObs \<Rightarrow> Poller \<times> runCache \<Rightarrow> DashboardState option" where
  "tick_state ob s = map_option (\<lambda>recs. fst (BuildState (tk_env ob) recs (po_stateDir (fst s)) (tk_now ob) (snd s))) (tk_recs ob)"

lemma Tick_some:
  assumes "tick_state ob s = Some st"
  shows "fst (Tick enc sha ob s) = (if \<not> po_primed (fst s) \<or> sha (enc (content st)) \<noteq> po_lastHash (fst s) then Some (enc st) else None)"
    and "po_latest (fst (snd (Tick enc sha ob s))) = st"
    and "po_latestJSON (fst (snd (Tick enc sha ob s))) = Some (enc st)"
    and "poller_ok enc sha (fst (snd (Tick enc sha ob s)))" and "po_primed (fst (snd (Tick enc sha ob s)))"
    and "po_stateDir (fst (snd (Tick enc sha ob s))) = po_stateDir (fst s)"
  using assms by (simp_all add: Tick_def tick_state_def Let_def case_prod_unfold poller_ok_def split: option.splits) (auto)

text \<open>C38: A frame per change. After a tick that could read the registry, the latest snapshot is the one
  it built, and it is broadcast exactly when it is the first one or differs from the previous one in
  more than its time stamp (the hash not colliding on the two); a tick that could not read the registry
  changes nothing, so the last good snapshot stays.\<close>

theorem Tick_pushes_changes:
  assumes "poller_ok enc sha p"
    and "\<And>st. tick_state ob (p, c) = Some st \<Longrightarrow>
      sha (enc (content st)) = sha (enc (content (po_latest p))) \<Longrightarrow> content st = content (po_latest p)"
  shows "(case tick_state ob (p, c) of
      None \<Rightarrow> Tick enc sha ob (p, c) = (None, p, c)
    | Some st \<Rightarrow>
        (\<exists>p' c'. Tick enc sha ob (p, c) =
            (if po_primed p \<and> content st = content (po_latest p) then None else Some (enc st), p', c')
          \<and> po_latest p' = st \<and> LatestJSON enc p' = enc st \<and> poller_ok enc sha p'))"
proof (cases "tick_state ob (p, c)")
  case None
  then show ?thesis by (simp add: Tick_def tick_state_def)
next
  case (Some st)
  have "(if \<not> po_primed p \<or> sha (enc (content st)) \<noteq> po_lastHash p then Some (enc st) else None)
      = (if po_primed p \<and> content st = content (po_latest p) then None else Some (enc st))"
    using assms(1) assms(2) [OF Some] by (auto simp: poller_ok_def)
  then have "fst (Tick enc sha ob (p, c)) = (if po_primed p \<and> content st = content (po_latest p) then None else Some (enc st))"
    using Tick_some(1) [OF Some, of enc sha] by simp
  with Tick_some(2-4) [OF Some, of enc sha] show ?thesis
    unfolding Some option.case
    by (intro exI [of _ "fst (snd (Tick enc sha ob (p, c)))"] exI [of _ "snd (snd (Tick enc sha ob (p, c)))"])
      (auto simp: LatestJSON_def prod_eq_iff)
qed

definition idle_obs :: "Time \<Rightarrow> TickObs" where
  "idle_obs now = \<lparr>tk_recs = Some [], tk_sub = None, tk_env = sample_env (sample_fs [] []), tk_now = now\<rparr>"

lemma tick_state_idle:
  "tick_state (idle_obs now) s =
     Some \<lparr>ds_GeneratedAt = now, ds_StateDir = po_stateDir (fst s), ds_Counts = zero_Counts, ds_Jobs = []\<rparr>"
  by (simp add: tick_state_def idle_obs_def BuildState_def)

lemma Tick_pushes_changes_witness:
  "\<exists>p' c'. Tick ds_StateDir id (idle_obs 7)
      (snd (Tick ds_StateDir id (idle_obs 5) (NewPoller ''/s/r.db'' ''/s'', newRunCache))) = (None, p', c')
    \<and> ds_GeneratedAt (po_latest p') = 7"
proof -
  let ?s = "snd (Tick ds_StateDir id (idle_obs 5) (NewPoller ''/s/r.db'' ''/s'', newRunCache))"
  note t = Tick_some [OF tick_state_idle, of ds_StateDir id 5 "(NewPoller ''/s/r.db'' ''/s'', newRunCache)"]
  show ?thesis
    using Tick_pushes_changes [of ds_StateDir id "fst ?s" "idle_obs 7" "snd ?s"] t
    by (fastforce simp: tick_state_idle content_def NewPoller_def)
qed

lemma idle_ticks:
  assumes "po_primed (fst s)" and "poller_ok enc sha (fst s)"
    and "\<And>ob c. ob \<in> set obs \<Longrightarrow> \<exists>st. tick_state ob (fst s, c) = Some st \<and> content st = content (po_latest (fst s))"
  shows "snd (fold (dash_tick enc sha) obs (s, h)) = h"
  using assms
proof (induction obs arbitrary: s)
  case (Cons ob obs)
  obtain st where st: "tick_state ob s = Some st" "content st = content (po_latest (fst s))"
    using Cons.prems(3) [of ob "snd s"] by auto
  let ?q = "snd (Tick enc sha ob s)"
  have "fst (Tick enc sha ob s) = None"
    using Tick_some(1) [OF st(1), of enc sha] st(2) Cons.prems(1,2) by (simp add: poller_ok_def)
  then have "dash_tick enc sha ob (s, h) = (?q, h)"
    by (simp add: dash_tick_def case_prod_unfold)
  moreover have "\<exists>st'. tick_state ob' (fst ?q, c') = Some st' \<and> content st' = content (po_latest (fst ?q))"
    if "ob' \<in> set obs" for ob' c'
    using Cons.prems(3) [of ob' c'] that Tick_some(2,6) [OF st(1), of enc sha] st(2) by (simp add: tick_state_def)
  ultimately show ?case
    using Cons.IH [of ?q] Tick_some(4,5) [OF st(1), of enc sha] by simp
qed simp

text \<open>A dropped frame is not repeated. If a client's buffer is full when a changed snapshot is
  broadcast, the client gets nothing of it, and no number of later ticks that find the fleet
  unchanged sends it again: the client shows the older state until something else changes, however
  promptly it reads from then on.\<close>

theorem dropped_frame_not_repeated:
  assumes "hub_reachable h" and "i \<in> set (hb_subs h)" and "length (ch_buf (hb_chans h ! i)) = 8"
    and "tick_state ob s = Some st" and "s1 = dash_tick enc sha ob (s, h)"
    and "\<And>ob' c. ob' \<in> set obs \<Longrightarrow> \<exists>st'. tick_state ob' (fst (fst s1), c) = Some st' \<and> content st' = content st"
  shows "po_latest (fst (fst s1)) = st
    \<and> ch_recv (hb_chans (snd (fold (dash_tick enc sha) obs s1)) ! i) = ch_recv (hb_chans h ! i)
    \<and> ch_buf (hb_chans (snd (fold (dash_tick enc sha) obs s1)) ! i) = ch_buf (hb_chans h ! i)"
proof -
  have q: "fst s1 = snd (Tick enc sha ob s)"
    using assms(5) by (auto simp: dash_tick_def split: prod.split option.split)
  note t = Tick_some [OF assms(4), of enc sha, folded q]
  have "snd (fold (dash_tick enc sha) obs (fst s1, snd s1)) = snd s1"
    using t assms(6) by (intro idle_ticks) auto
  moreover have "ch_recv (hb_chans (snd s1) ! i) = ch_recv (hb_chans h ! i) \<and> ch_buf (hb_chans (snd s1) ! i) = ch_buf (hb_chans h ! i)"
  proof -
    have "hub_ok h" using assms(1) by (rule hub_reachable_ok)
    then have "hb_chans (Broadcast (hb_subs h) m h) ! i = offer m (hb_chans h ! i)" for m
      using Broadcast_step [of h "hb_subs h" m] assms(2) by simp
    then show ?thesis
      using assms(3,5) by (auto simp: dash_tick_def offer_def hubBuffer_def split: prod.split option.split)
  qed
  ultimately show ?thesis using t by simp
qed

text \<open>A hub with one client that reads nothing.\<close>

definition slow_client :: "nat \<Rightarrow> Hub" where
  "slow_client n = ((\<lambda>h. Broadcast (hb_subs h) ''f'' h) ^^ n) (snd (Subscribe NewHub))"

lemma slow_client_reachable: "hub_reachable (slow_client n)"
  by (induction n) (auto simp: slow_client_def intro: hub_reachable.intros hub_step.intros)

lemma slow_client_full: "hb_subs (slow_client 8) = [0]" "length (ch_buf (hb_chans (slow_client 8) ! 0)) = 8"
  "ch_recv (hb_chans (slow_client 8) ! 0) = []"
  by (simp_all add: slow_client_def eval_nat_numeral Subscribe_def NewHub_def Broadcast_def send_nb_def upd_chan_def new_chan_def
      offer_def hubBuffer_def)

lemma dropped_frame_not_repeated_witness:
  "ch_recv (hb_chans (snd (fold (dash_tick ds_StateDir id) [idle_obs 7, idle_obs 9]
      (dash_tick ds_StateDir id (idle_obs 5) ((NewPoller ''/s/r.db'' ''/s'', newRunCache), slow_client 8)))) ! 0) = []"
proof -
  let ?s = "(NewPoller ''/s/r.db'' ''/s'', newRunCache)"
  let ?s1 = "dash_tick ds_StateDir id (idle_obs 5) (?s, slow_client 8)"
  have dir: "po_stateDir (fst (fst ?s1)) = po_stateDir (fst ?s)"
    using Tick_some(6) [OF tick_state_idle, of ds_StateDir id 5 ?s]
    by (auto simp: dash_tick_def split: prod.split option.split)
  have sub: "0 \<in> set (hb_subs (slow_client 8))" by (simp add: slow_client_full)
  have "ch_recv (hb_chans (snd (fold (dash_tick ds_StateDir id) [idle_obs 7, idle_obs 9] ?s1)) ! 0)
      = ch_recv (hb_chans (slow_client 8) ! 0)"
    by (rule dropped_frame_not_repeated
        [OF slow_client_reachable sub slow_client_full(2) tick_state_idle refl, THEN conjunct2, THEN conjunct1])
      (auto simp: tick_state_idle content_def dir)
  then show ?thesis unfolding slow_client_full(3) .
qed

end
