(* ===== verification/Dash_Net.thy ===== *)
theory Dash_Net
  imports Config Go_Path
begin

text \<open>
  \<^verbatim>\<open>internal/dashboard/tailscale.go\<close> and the address resolution of \<^verbatim>\<open>cmd/pi-dashboard/main.go\<close>: which address the
  dashboard binds. \<^verbatim>\<open>net.ParseIP\<close> is modelled from the library (a dotted quad without leading zeros, or an IPv6 text with
  at most one \<^verbatim>\<open>::\<close> and possibly an embedded quad; zones are rejected); an address is its list of bytes.
  The tailscale program is the parameter \<open>run\<close>: its error or its output, for each attempt and each
  candidate path.
\<close>

subsection \<open>net.ParseIP\<close>

type_synonym byte = "8 word"

definition is_digit :: "char \<Rightarrow> bool" where
  "is_digit c \<longleftrightarrow> 48 \<le> (of_char c :: nat) \<and> (of_char c :: nat) \<le> 57"

definition digit_val :: "char \<Rightarrow> nat" where
  "digit_val c = of_char c - 48"

text \<open>\<^verbatim>\<open>parseIPv4Fields\<close>: \<open>prev\<close> is the byte before, \<open>None\<close> at the start; \<open>dl\<close> counts the digits of the field.\<close>

fun ipv4_fields :: "char option \<Rightarrow> nat \<Rightarrow> nat \<Rightarrow> byte list \<Rightarrow> string \<Rightarrow> byte list option" where
  "ipv4_fields prev val dl flds [] =
     (if length flds < 3 then None else Some (flds @ [of_nat val]))"
| "ipv4_fields prev val dl flds (c # cs) =
     (if is_digit c then
        (if dl = 1 \<and> val = 0 then None
         else if val * 10 + digit_val c > 255 then None
         else ipv4_fields (Some c) (val * 10 + digit_val c) (dl + 1) flds cs)
      else if c = CHR ''.'' then
        (if prev = None \<or> cs = [] \<or> prev = Some (CHR ''.'') then None
         else if length flds = 3 then None
         else ipv4_fields (Some c) 0 0 (flds @ [of_nat val]) cs)
      else None)"

definition hex_val :: "char \<Rightarrow> nat option" where
  "hex_val c =
     (let n = of_char c :: nat in
      if 48 \<le> n \<and> n \<le> 57 then Some (n - 48)
      else if 97 \<le> n \<and> n \<le> 102 then Some (n - 97 + 10)
      else if 65 \<le> n \<and> n \<le> 70 then Some (n - 65 + 10)
      else None)"

text \<open>The digits of one 16-bit group: at most four; \<open>None\<close> when there are more.\<close>

fun hex_group :: "nat \<Rightarrow> nat \<Rightarrow> string \<Rightarrow> (nat \<times> nat \<times> string) option" where
  "hex_group off acc [] = Some (off, acc, [])"
| "hex_group off acc (c # cs) =
     (case hex_val c of
        None \<Rightarrow> Some (off, acc, c # cs)
      | Some d \<Rightarrow> if off > 3 \<or> acc * 16 + d > 65535 then None else hex_group (off + 1) (acc * 16 + d) cs)"

text \<open>The groups: the bytes so far, where the ellipsis stands, the rest of the text. The result is the bytes
  read, the ellipsis and the unread rest.\<close>

function ipv6_groups :: "byte list \<Rightarrow> nat option \<Rightarrow> string \<Rightarrow> (byte list \<times> nat option \<times> string) option" where
  "ipv6_groups ip ell s =
     (if length ip \<ge> 16 then Some (ip, ell, s)
      else
        (case hex_group 0 0 s of
           None \<Rightarrow> None
         | Some (off, acc, rest) \<Rightarrow>
             if off = 0 then None
             else if rest \<noteq> [] \<and> hd rest = CHR ''.'' then
               (if (ell = None \<and> length ip \<noteq> 12) \<or> length ip + 4 > 16 then None
                else map_option (\<lambda>fs. (ip @ fs, ell, [])) (ipv4_fields None 0 0 [] s))
             else
               (let ip1 = ip @ [of_nat (acc div 256), of_nat acc] in
                if rest = [] then Some (ip1, ell, [])
                else if hd rest \<noteq> CHR '':'' then None
                else if tl rest = [] then None
                else if hd (tl rest) = CHR '':'' then
                  (if ell \<noteq> None then None
                   else if tl (tl rest) = [] then Some (ip1, Some (length ip1), [])
                   else ipv6_groups ip1 (Some (length ip1)) (tl (tl rest)))
                else ipv6_groups ip1 ell (tl rest))))"
  by pat_completeness auto
termination
  by (relation "measure (\<lambda>(ip, ell, s). 16 - length ip)") auto

declare ipv6_groups.simps [simp del]

definition parseIPv6 :: "string \<Rightarrow> byte list option" where
  "parseIPv6 s =
     (let ell = (if HasPrefix s ''::'' then Some 0 else None);
          s1 = (if HasPrefix s ''::'' then drop 2 s else s)
      in if ell = Some 0 \<and> s1 = [] then Some (replicate 16 0)
         else (case ipv6_groups [] ell s1 of
                 None \<Rightarrow> None
               | Some (ip, e, rest) \<Rightarrow>
                   if rest \<noteq> [] then None
                   else if length ip < 16 then
                     (case e of None \<Rightarrow> None
                      | Some k \<Rightarrow> Some (take k ip @ replicate (16 - length ip) 0 @ drop k ip))
                   else if e \<noteq> None then None
                   else Some ip))"

text \<open>\<^verbatim>\<open>ParseIP\<close>: the first of \<^verbatim>\<open>.\<close>, \<^verbatim>\<open>:\<close> and \<^verbatim>\<open>%\<close> in the text decides; an address with a zone is refused. An IPv4 address is
  in its 16-byte form.\<close>

definition v4_prefix :: "byte list" where
  "v4_prefix = replicate 10 0 @ [255, 255]"

definition ParseIP :: "string \<Rightarrow> byte list option" where
  "ParseIP s =
     (case find (\<lambda>c. c = CHR ''.'' \<or> c = CHR '':'' \<or> c = CHR ''%'') s of
        None \<Rightarrow> None
      | Some c \<Rightarrow>
          if c = CHR ''.'' then map_option (\<lambda>fs. v4_prefix @ fs) (ipv4_fields None 0 0 [] s)
          else if c = CHR '':'' then (if CHR ''%'' \<in> set s then None else parseIPv6 s)
          else None)"

definition To4 :: "byte list \<Rightarrow> byte list option" where
  "To4 ip =
     (if length ip = 4 then Some ip
      else if length ip = 16 \<and> take 12 ip = v4_prefix then Some (drop 12 ip)
      else None)"

subsection \<open>tailscale.go\<close>

text \<open>The network \<^verbatim>\<open>100.64.0.0/10\<close> as \<^verbatim>\<open>net.ParseCIDR\<close> returns it: the address and the mask.\<close>

definition cgnat :: "byte list \<times> byte list" where
  "cgnat = ([100, 64, 0, 0], [255, 192, 0, 0])"

definition IPNet_Contains :: "byte list \<times> byte list \<Rightarrow> byte list \<Rightarrow> bool" where
  "IPNet_Contains n ip =
     (let x = (case To4 ip of Some y \<Rightarrow> y | None \<Rightarrow> ip) in
      length x = length (fst n) \<and>
      list_all (\<lambda>((a, m), b). a AND m = b AND m) (zip (zip (fst n) (snd n)) x))"

definition tailscaleCandidates :: "string list" where
  "tailscaleCandidates = [''tailscale'', ''/usr/bin/tailscale'', ''/usr/local/bin/tailscale'', ''/usr/sbin/tailscale'']"

fun tailscale_lines :: "string list \<Rightarrow> string + string" where
  "tailscale_lines [] = Inl ''no tailscale IPv4 found''"
| "tailscale_lines (line # lines) =
     (let s = TrimSpace line in
      if s = [] then tailscale_lines lines
      else (case ParseIP s of
              None \<Rightarrow> tailscale_lines lines
            | Some ip \<Rightarrow>
                if To4 ip = None then tailscale_lines lines
                else if IPNet_Contains cgnat ip then Inr s
                else Inl (''tailscale ip not in CGNAT range: '' @ s)))"

definition parseTailscaleIP :: "string \<Rightarrow> string + string" where
  "parseTailscaleIP out = tailscale_lines (Split (char_of (10 :: nat)) out)"

fun try_candidates :: "(string \<Rightarrow> string + string) \<Rightarrow> string option \<Rightarrow> string list \<Rightarrow> string + string" where
  "try_candidates run lastErr [] =
     Inl (case lastErr of None \<Rightarrow> ''tailscale CLI not found'' | Some e \<Rightarrow> e)"
| "try_candidates run lastErr (bin # bins) =
     (case run bin of
        Inl e \<Rightarrow> try_candidates run (Some e) bins
      | Inr out \<Rightarrow> parseTailscaleIP out)"

definition DetectTailscaleIP :: "(string \<Rightarrow> string + string) \<Rightarrow> string + string" where
  "DetectTailscaleIP run = try_candidates run None tailscaleCandidates"

text \<open>\<^verbatim>\<open>waitForTailscaleIP\<close>, from attempt \<open>k\<close> on: \<open>cancelled k\<close> says that the wait after attempt \<open>k\<close> ended by the context
  (with that error) and not by the back-off timer. \<open>None\<close>: it never returns.\<close>

partial_function (option) waitForTailscaleIP ::
    "(nat \<Rightarrow> string + string) \<Rightarrow> (nat \<Rightarrow> string option) \<Rightarrow> nat \<Rightarrow> (string + string) option" where
  "waitForTailscaleIP detect cancelled k =
     (case detect k of
        Inr ip \<Rightarrow> Some (Inr ip)
      | Inl _ \<Rightarrow> (case cancelled k of
                   Some err \<Rightarrow> Some (Inl err)
                 | None \<Rightarrow> waitForTailscaleIP detect cancelled (k + 1)))"

definition defaultPort :: string where "defaultPort = ''7777''"

definition resolveAddrWait ::
    "(nat \<Rightarrow> string \<Rightarrow> string + string) \<Rightarrow> (nat \<Rightarrow> string option) \<Rightarrow> string \<Rightarrow> (string + string) option" where
  "resolveAddrWait run cancelled explicit =
     (if explicit \<noteq> [] then Some (Inr explicit)
      else map_option (\<lambda>r. case r of Inl e \<Rightarrow> Inl e | Inr ip \<Rightarrow> Inr (ip @ '':'' @ defaultPort))
             (waitForTailscaleIP (\<lambda>k. DetectTailscaleIP (run k)) cancelled 0))"

definition registryPathFor :: "string \<Rightarrow> string" where
  "registryPathFor stateDir = RegistryPathFor stateDir"

subsection \<open>The range\<close>

definition in_range :: "byte \<Rightarrow> byte \<Rightarrow> bool" where
  "in_range a b \<longleftrightarrow> a = 100 \<and> 64 \<le> b \<and> b < 128"

lemma unat_byte: "unat (b :: byte) < 256"
proof -
  have "unat b < 2 ^ LENGTH(8)" by (rule unsigned_less)
  then show ?thesis by simp
qed

lemma and_192: "b AND 192 = push_bit 6 (drop_bit 6 (b :: byte))"
proof (rule bit_word_eqI)
  fix n assume "n < LENGTH(8)"
  then have "n \<in> {0,1,2,3,4,5,6,7}" by auto
  then show "bit (b AND 192) n = bit (push_bit 6 (drop_bit 6 b)) n"
    by (auto simp: bit_simps)
qed
lemma second_byte: "64 = b AND 192 \<longleftrightarrow> 64 \<le> b \<and> b < (128 :: byte)"
proof -
  have lt: "unat b < 256" by (rule unat_byte)
  have "64 = b AND 192 \<longleftrightarrow> 64 = unat (b AND 192)" by (simp add: word_unat_eq_iff)
  also have "unat (b AND 192) = 64 * (unat b div 64)"
  proof -
    have "unat b div 64 * 64 \<le> unat b" by simp
    with lt have "unat b div 64 * 64 mod 256 = unat b div 64 * 64" by (intro mod_less) linarith
    then have "unat (b div 64 * 64) = unat b div 64 * 64" by (simp add: unat_word_ariths unat_div)
    then show ?thesis by (simp add: and_192 push_bit_eq_mult drop_bit_eq_div)
  qed
  also have "64 = 64 * (unat b div 64) \<longleftrightarrow> 64 \<le> unat b \<and> unat b < 128"
    using div_nat_eqI [of 64 1 "unat b"] by (intro iffI conjI) (linarith, linarith, simp)
  also have "64 \<le> unat b \<longleftrightarrow> 64 \<le> b" by (simp add: word_le_nat_alt)
  also have "unat b < 128 \<longleftrightarrow> b < 128" by (simp add: word_less_nat_alt)
  finally show ?thesis .
qed

lemma cgnat_Contains:
  "To4 ip = Some x \<Longrightarrow> IPNet_Contains cgnat ip \<longleftrightarrow> (\<exists>b c d. x = [100, b, c, d] \<and> in_range 100 b)"
proof -
  have "(255 :: byte) = -1" by simp
  then have all: "(100 = a AND 255) = (a = (100 :: byte))" for a by (auto simp only: and.right_neutral)
  assume "To4 ip = Some x"
  then show ?thesis
    by (auto simp: IPNet_Contains_def cgnat_def in_range_def length_Suc_conv numeral_eq_Suc all second_byte)
qed

text \<open>A text that stands for a tailnet address.\<close>

definition tailnet :: "string \<Rightarrow> bool" where
  "tailnet s \<longleftrightarrow> (\<exists>ip b c d. ParseIP s = Some ip \<and> To4 ip = Some [100, b, c, d] \<and> in_range 100 b)"

lemma tailscale_lines_ok:
  "tailscale_lines ls = Inr s \<Longrightarrow> s \<in> TrimSpace ` set ls \<and> tailnet s"
proof (induction ls)
  case (Cons l ls)
  then show ?case
    using cgnat_Contains
    by (auto simp: Let_def tailnet_def split: if_splits option.splits)
qed simp

lemma try_candidates_ok:
  "try_candidates run e bins = Inr s \<Longrightarrow>
   \<exists>bin \<in> set bins. \<exists>out. run bin = Inr out \<and> s \<in> TrimSpace ` set (Split (char_of (10 :: nat)) out) \<and> tailnet s"
proof (induction bins arbitrary: e)
  case (Cons b bs)
  show ?case
  proof (cases "run b")
    case (Inl er)
    with Cons.IH [of "Some er"] Cons.prems show ?thesis by auto
  next
    case (Inr out)
    then have "tailscale_lines (Split (char_of (10 :: nat)) out) = Inr s"
      using Cons.prems by (simp add: parseTailscaleIP_def)
    from tailscale_lines_ok [OF this] Inr show ?thesis by auto
  qed
qed (simp split: option.splits)

text \<open>The wait returns once an attempt succeeds or the context ends it, with what that attempt gave.\<close>

lemma waitForTailscaleIP_returns:
  assumes "(\<exists>ip. detect (k + n) = Inr ip) \<or> cancelled (k + n) \<noteq> None"
  shows "\<exists>j. k \<le> j \<and> waitForTailscaleIP detect cancelled k =
    Some (case detect j of Inr ip \<Rightarrow> Inr ip | Inl e \<Rightarrow> Inl (the (cancelled j)))"
  using assms
proof (induction n arbitrary: k)
  case 0
  then show ?case
    by (intro exI [of _ k]) (subst waitForTailscaleIP.simps, auto split: sum.splits option.splits)
next
  case (Suc n)
  from Suc.IH [of "k + 1"] Suc.prems obtain j where
    "k + 1 \<le> j" "waitForTailscaleIP detect cancelled (k + 1) =
      Some (case detect j of Inr ip \<Rightarrow> Inr ip | Inl e \<Rightarrow> Inl (the (cancelled j)))"
    by auto
  then show ?case
    by (subst waitForTailscaleIP.simps)
      (cases "detect k"; cases "cancelled k"; fastforce intro: exI [of _ k] exI [of _ j])
qed

text \<open>C40: The address the dashboard binds. Without an explicit address, as soon as one attempt
  succeeds or the context is cancelled the resolution returns; and an address it returns is port 7777 of a
  line that some tailscale program printed and that stands for an address in 100.64.0.0/10: never a LAN, loopback or
  public one.\<close>

theorem resolveAddrWait_tailnet:
  assumes "(\<exists>ip. DetectTailscaleIP (run n) = Inr ip) \<or> cancelled n \<noteq> None"
  shows "\<exists>r. resolveAddrWait run cancelled [] = Some r \<and>
    (\<forall>addr. r = Inr addr \<longrightarrow>
      (\<exists>ip k bin out. addr = ip @ '':7777'' \<and> bin \<in> set tailscaleCandidates \<and> run k bin = Inr out
        \<and> ip \<in> TrimSpace ` set (Split (char_of (10 :: nat)) out) \<and> tailnet ip))"
proof -
  obtain j where j: "waitForTailscaleIP (\<lambda>k. DetectTailscaleIP (run k)) cancelled 0 =
      Some (case DetectTailscaleIP (run j) of Inr ip \<Rightarrow> Inr ip | Inl e \<Rightarrow> Inl (the (cancelled j)))"
    using waitForTailscaleIP_returns [of "\<lambda>k. DetectTailscaleIP (run k)" 0 n cancelled] assms by auto
  show ?thesis
    using j try_candidates_ok [of "run j" None tailscaleCandidates]
    by (cases "DetectTailscaleIP (run j)")
      (fastforce simp: resolveAddrWait_def defaultPort_def DetectTailscaleIP_def)+
qed

subsection \<open>Dotted quads\<close>

definition dig :: "nat \<Rightarrow> char" where "dig n = char_of (48 + n)"

definition dec_byte :: "byte \<Rightarrow> string" where
  "dec_byte b =
     (let n = unat b in
      (if n \<ge> 100 then [dig (n div 100)] else []) @ (if n \<ge> 10 then [dig (n div 10 mod 10)] else []) @ [dig (n mod 10)])"

definition dotted :: "byte \<Rightarrow> byte \<Rightarrow> byte \<Rightarrow> byte \<Rightarrow> string" where
  "dotted a b c d = dec_byte a @ ''.'' @ dec_byte b @ ''.'' @ dec_byte c @ ''.'' @ dec_byte d"

lemma dig_ok: "n < 10 \<Longrightarrow> is_digit (dig n) \<and> digit_val (dig n) = n"
  by (simp add: is_digit_def digit_val_def dig_def)

text \<open>Reading a field back, whatever follows.\<close>

lemma ipv4_digit:
  "k < 10 \<Longrightarrow> val * 10 + k < 256 \<Longrightarrow> dl = 0 \<or> val \<noteq> 0 \<Longrightarrow>
   ipv4_fields prev val dl fs (dig k # s) = ipv4_fields (Some (dig k)) (val * 10 + k) (dl + 1) fs s"
  by (auto simp: dig_ok)

lemma ipv4_field:
  "ipv4_fields prev 0 0 fs (dec_byte b @ s) = ipv4_fields (Some (dig (unat b mod 10))) (unat b) (length (dec_byte b)) fs s"
proof -
  define n where "n = unat b"
  have n: "n < 256" unfolding n_def by (rule unat_byte)
  have q: "k div 100 * 10 + k div 10 mod 10 = k div 10" "k div 10 * 10 + k mod 10 = k" for k :: nat
    using div_mult_mod_eq [of "k div 10" 10] div_mult_mod_eq [of k 10] by (simp_all add: div_mult2_eq [of k 10 10, simplified])
  consider "n < 10" | "10 \<le> n" "n < 100" | "100 \<le> n" by linarith
  then show ?thesis
  proof cases
    case 1
    then show ?thesis by (simp add: dec_byte_def n_def [symmetric] ipv4_digit del: ipv4_fields.simps)
  next
    case 2
    then show ?thesis
      using n q [of n] by (simp add: dec_byte_def n_def [symmetric] ipv4_digit del: ipv4_fields.simps)
  next
    case 3
    then show ?thesis
      using n q [of n] by (simp add: dec_byte_def n_def [symmetric] ipv4_digit del: ipv4_fields.simps)
  qed
qed

lemma dec_byte_digits: "dec_byte b \<noteq> []" "c \<in> set (dec_byte b) \<Longrightarrow> is_digit c"
proof -
  have "unat b div 100 < 10" using unat_byte [of b] by simp
  then show "dec_byte b \<noteq> []" "c \<in> set (dec_byte b) \<Longrightarrow> is_digit c"
    by (auto simp: dec_byte_def Let_def dig_ok split: if_splits)
qed

lemma dotted_chars: "c \<in> set (dotted a b x y) \<Longrightarrow> is_digit c \<or> c = CHR ''.''"
  by (auto simp: dotted_def dest: dec_byte_digits(2))

lemma not_digit [simp]: "\<not> is_digit (CHR ''.'')" "\<not> is_digit (CHR '':'')" "\<not> is_digit (CHR ''%'')" "\<not> is_digit (char_of (10 :: nat))"
  by (simp_all add: is_digit_def)

lemma ParseIP_dotted: "ParseIP (dotted a b c d) = Some (v4_prefix @ [a, b, c, d])"
proof -
  have "dig (unat x mod 10) \<noteq> CHR ''.''" for x :: byte
    using dig_ok [of "unat x mod 10"] by auto
  moreover have "dec_byte x @ s \<noteq> []" for x s
    by (simp add: dec_byte_digits(1))
  ultimately have f: "ipv4_fields None 0 0 [] (dotted a b c d) = Some [a, b, c, d]"
    by (simp add: dotted_def ipv4_field ipv4_field [where s = "[]", simplified] dec_byte_digits(1))
  have "find (\<lambda>c. c = CHR ''.'' \<or> c = CHR '':'' \<or> c = CHR ''%'') (dotted a b c d) = Some (CHR ''.'')"
  proof -
    obtain x where x: "find (\<lambda>c. c = CHR ''.'' \<or> c = CHR '':'' \<or> c = CHR ''%'') (dotted a b c d) = Some x"
      by (cases "find (\<lambda>c. c = CHR ''.'' \<or> c = CHR '':'' \<or> c = CHR ''%'') (dotted a b c d)")
        (auto simp: find_None_iff dotted_def)
    then have "x \<in> set (dotted a b c d)" "x = CHR ''.'' \<or> x = CHR '':'' \<or> x = CHR ''%''"
      by (auto simp: find_Some_iff simp flip: in_set_conv_nth) (metis nth_mem)+
    with dotted_chars [of x a b c d] x show ?thesis by auto
  qed
  with f show ?thesis by (simp add: ParseIP_def)
qed

lemma digit_printable: "is_digit c \<Longrightarrow> printable c"
  by (simp add: is_digit_def printable_def)

lemma TrimSpace_dotted: "TrimSpace (dotted a b c d) = dotted a b c d"
proof -
  have "is_digit (hd (dotted a b c d))" "is_digit (last (dotted a b c d))" "dotted a b c d \<noteq> []"
    using dec_byte_digits(2) [OF hd_in_set, OF dec_byte_digits(1)] dec_byte_digits(2) [OF last_in_set, OF dec_byte_digits(1)]
    by (simp_all add: dotted_def hd_append last_append dec_byte_digits(1))
  then show ?thesis by (intro TrimSpace_printable digit_printable)
qed

text \<open>The decision on what \<^verbatim>\<open>tailscale ip -4\<close> prints, for every IPv4 address: the
  dotted quad of an address in 100.64.0.0/10 comes back unchanged, and that of any other is refused with an
  error that names it.\<close>

theorem parseTailscaleIP_dotted:
  "parseTailscaleIP (dotted a b c d @ nl) =
     (if in_range a b then Inr (dotted a b c d) else Inl (''tailscale ip not in CGNAT range: '' @ dotted a b c d))"
proof -
  have "char_of (10 :: nat) \<noteq> CHR ''.''" by (simp add: char_of_def bit_iff_odd)
  then have "char_of (10 :: nat) \<notin> set (dotted a b c d)"
    using dotted_chars [of "char_of (10 :: nat)" a b c d] not_digit(4) by blast
  then have "Split (char_of (10 :: nat)) (dotted a b c d @ nl) = [dotted a b c d, []]"
    by (simp add: nl_def bytes_def Split_append)
  moreover have t: "To4 (v4_prefix @ [a, b, c, d]) = Some [a, b, c, d]"
    by (simp add: To4_def v4_prefix_def)
  moreover have "dotted a b c d \<noteq> []" by (simp add: dotted_def)
  ultimately show ?thesis
    using cgnat_Contains [OF t]
    by (simp add: parseTailscaleIP_def TrimSpace_dotted ParseIP_dotted in_range_def Let_def)
qed

text \<open>A host where the program on \<^verbatim>\<open>PATH\<close> is missing and the second candidate answers.\<close>

definition sample_host :: "nat \<Rightarrow> string \<Rightarrow> string + string" where
  "sample_host k bin = (if bin = ''/usr/bin/tailscale'' then Inr (dotted 100 101 1 2 @ nl) else Inl ''not found'')"

lemma resolveAddrWait_tailnet_witness:
  "DetectTailscaleIP (sample_host 0) = Inr (dotted 100 101 1 2) \<and>
   (\<exists>r. resolveAddrWait sample_host (\<lambda>_. None) [] = Some r)"
proof -
  have "parseTailscaleIP (dotted 100 101 1 2 @ nl) = Inr (dotted 100 101 1 2)"
    by (simp add: parseTailscaleIP_dotted in_range_def)
  then have d: "DetectTailscaleIP (sample_host 0) = Inr (dotted 100 101 1 2)"
    by (simp add: DetectTailscaleIP_def tailscaleCandidates_def sample_host_def)
  then show ?thesis
    using resolveAddrWait_tailnet [of sample_host 0 "\<lambda>_. None"] by blast
qed

end
