(* ===== verification/Mcp_Server.thy ===== *)
theory Mcp_Server
  imports Mcp_Status_Props App_Jobs
begin

text \<open>
  \<^verbatim>\<open>internal/mcpserver/server.go\<close>: the server with its production defaults and the table of its four
  tools, over the jobs adapter and the run-store adapter of \<^verbatim>\<open>internal/app\<close>. One call of a tool acts on
  the server's delta tracker and on the adapter; what it observes of the world is a record.
\<close>

subsection \<open>The server\<close>

definition defaultPollInterval :: Duration where "defaultPollInterval = 2 * Second"

record McpServer =
  ms_waitCap :: Duration
  ms_pollInterval :: Duration
  ms_delta :: deltaTracker
  ms_pidAlive :: "(int \<Rightarrow> bool) option"

definition mcp_New :: "(string \<Rightarrow> string) \<Rightarrow> (string \<Rightarrow> Duration option) \<Rightarrow> McpServer" where
  "mcp_New getenv parse =
     \<lparr>ms_waitCap = WaitCap getenv parse, ms_pollInterval = defaultPollInterval, ms_delta = newDeltaTracker,
      ms_pidAlive = Some (\<lambda>_. True)\<rparr>"

subsection \<open>The adapters\<close>

definition adapter_Load :: "FS \<Rightarrow> (string \<Rightarrow> Run option) \<Rightarrow> string \<Rightarrow> string \<Rightarrow> RunErr + Run" where
  "adapter_Load fs dec runsDir runID =
     (case Load fs dec runsDir runID of
        Inl e \<Rightarrow> (if e = ErrRunNotFound then Inl ErrRunNotFound else Inl e)
      | Inr r \<Rightarrow> Inr r)"

text \<open>The read side of the jobs service, in a state of the adapter and of the repositories.\<close>

definition adapter_view ::
    "'w Os \<Rightarrow> (string \<Rightarrow> 'w \<Rightarrow> 'w) \<Rightarrow> (string \<Rightarrow> FNode option) \<Rightarrow> (string \<times> nat) list \<Rightarrow> jobsAdapter \<times> 'w \<Rightarrow> JobsView" where
  "adapter_view os addAll node order s =
     \<lparr>jv_Lookup = (\<lambda>jid. Lookup jid (ad_reg (fst s))),
      jv_LookupByRun = (\<lambda>runID cwd. LookupByRun order runID cwd (ad_reg (fst s))),
      jv_WriteInfoFor = (\<lambda>jid. fst (WriteInfoFor os addAll jid s)),
      jv_WorktreeActivity = (\<lambda>jid. WorktreeActivity node jid (fst s))\<rparr>"

text \<open>\<^verbatim>\<open>Submit\<close> as the handler sees it: the record of the new job, or the error's text.\<close>

definition submit_record ::
    "(AdapterErr \<Rightarrow> string) \<Rightarrow> 'w Os \<Rightarrow> string \<Rightarrow> string \<Rightarrow> string \<Rightarrow> Time \<Rightarrow> bool \<Rightarrow> JobSpec \<Rightarrow> jobsAdapter \<times> 'w
     \<Rightarrow> (string + JobRecord) \<times> jobsAdapter \<times> 'w" where
  "submit_record errtext os base jid uuid now ok inp s =
     (case adapter_Submit os base jid uuid now ok inp s of
        (Inl e, s') \<Rightarrow> (Inl (errtext e), s')
      | (Inr (addr, admitted), s') \<Rightarrow> (Inr (jb_Record (rg_mem (ad_reg (fst s')) ! addr)), s'))"

definition cancel_record :: "Time \<Rightarrow> bool \<Rightarrow> string \<Rightarrow> jobsAdapter \<times> 'w \<Rightarrow> JobRecord option \<times> jobsAdapter \<times> 'w" where
  "cancel_record now ok jid s =
     (case registry_cancel now ok jid (ad_reg (fst s)) of (res, r) \<Rightarrow> (res, (fst s)\<lparr>ad_reg := r\<rparr>, snd s))"

subsection \<open>A tool call\<close>

text \<open>What one call observes: the clock, the file system for the validation, what each load of a run returns (loads are
  numbered), the authoring file, the JSON operations, and the iterations of a long poll.\<close>

record CallObs =
  ca_now :: Time
  ca_fs :: FS
  ca_dec :: "string \<Rightarrow> Run option"
  ca_runs :: "nat \<Rightarrow> FS"
  ca_authoring :: "string \<Rightarrow> string \<Rightarrow> AuthoringInfo option"
  ca_json :: Json
  ca_wait :: "resolved \<Rightarrow> nat \<Rightarrow> WaitObs"

definition status_env :: "McpServer \<Rightarrow> JobsView \<Rightarrow> CallObs \<Rightarrow> resolved \<Rightarrow> StatusEnv" where
  "status_env srv view ob tgt =
     \<lparr>sv_jobs = view, sv_now = ca_now ob, sv_kill = ms_pidAlive srv,
      sv_load = (\<lambda>k. adapter_Load (ca_runs ob k) (ca_dec ob) (rs_runsDir tgt) (rs_runID tgt)),
      sv_authoring = ca_authoring ob (rs_runsDir tgt) (rs_jobID tgt), sv_json = ca_json ob\<rparr>"

definition pi_status ::
    "McpServer \<Rightarrow> JobsView \<Rightarrow> CallObs \<Rightarrow> nat \<Rightarrow> StatusInput \<Rightarrow> ((McpErr + StatusOutput option) \<times> McpServer) option" where
  "pi_status srv view ob fuel inp =
     map_option (\<lambda>(res, d). (res, srv\<lparr>ms_delta := d\<rparr>))
       (handleStatus (ca_fs ob) view (ms_waitCap srv) (ca_now ob) (ca_wait ob) fuel (status_env srv view ob) inp (ms_delta srv))"

text \<open>The repositories after a status call: the answer for a write job whose run has ended on disk stages the worktree.\<close>

definition status_world ::
    "'w Os \<Rightarrow> (string \<Rightarrow> 'w \<Rightarrow> 'w) \<Rightarrow> McpServer \<Rightarrow> JobsView \<Rightarrow> CallObs \<Rightarrow> StatusInput \<Rightarrow> jobsAdapter \<times> 'w \<Rightarrow> 'w" where
  "status_world os addAll srv view ob inp s =
     (case resolveTarget (ca_fs ob) view inp of
        Inl _ \<Rightarrow> snd s
      | Inr tgt \<Rightarrow>
          (case loadWithGrace (sv_load (status_env srv view ob tgt)) tgt of
             Inl _ \<Rightarrow> snd s
           | Inr run \<Rightarrow>
               (if rs_mode tgt = ModeWrite \<and> rs_hasJob tgt \<and> IsTerminal (MapDisk (run_Status run)) \<and> MapDisk (run_Status run) \<noteq> ''aborted''
                then snd (WriteInfoFor os addAll (rs_jobID tgt) s)
                else snd s)))"

datatype ToolCall = CallWorkflow WorkflowInput | CallStatus StatusInput | CallList ListInput | CallCancel string

datatype ToolOut = OutWorkflow WorkflowOutput | OutStatus "StatusOutput option" | OutList "ListItem list" | OutCancel CancelOutput

definition tool_name :: "ToolCall \<Rightarrow> string" where
  "tool_name c =
     (case c of CallWorkflow _ \<Rightarrow> ''pi_workflow'' | CallStatus _ \<Rightarrow> ''pi_status'' | CallList _ \<Rightarrow> ''pi_list'' | CallCancel _ \<Rightarrow> ''pi_cancel'')"

text \<open>\<^verbatim>\<open>Register\<close>: each tool with its handler. The state is the server, the adapter and the repositories; \<open>None\<close>: the
  long poll needs more fuel.\<close>

record JobEnv =
  je_base :: string
  je_jid :: string
  je_uuid :: string
  je_ok :: bool
  je_order :: "(string \<times> nat) list"
  je_node :: "string \<Rightarrow> FNode option"
  je_errtext :: "AdapterErr \<Rightarrow> string"

definition call_tool ::
    "'w Os \<Rightarrow> (string \<Rightarrow> 'w \<Rightarrow> 'w) \<Rightarrow> JobEnv \<Rightarrow> CallObs \<Rightarrow> nat \<Rightarrow> ToolCall \<Rightarrow> McpServer \<times> jobsAdapter \<times> 'w
     \<Rightarrow> ((McpErr + ToolOut) \<times> McpServer \<times> jobsAdapter \<times> 'w) option" where
  "call_tool os addAll je ob fuel call s =
     (case s of (srv, t) \<Rightarrow>
        case call of
          CallWorkflow inp \<Rightarrow>
            (case handleWorkflow (ca_fs ob)
                    (submit_record (je_errtext je) os (je_base je) (je_jid je) (je_uuid je) (ca_now ob) (je_ok je)) inp t of
               (res, t') \<Rightarrow> Some (map_sum id OutWorkflow res, srv, t'))
        | CallStatus inp \<Rightarrow>
            (let view = adapter_view os addAll (je_node je) (je_order je) t in
             map_option (\<lambda>(res, srv'). (map_sum id OutStatus res, srv', fst t,
                 if res = Inr None then snd t else status_world os addAll srv view ob inp t))
               (pi_status srv view ob fuel inp))
        | CallList inp \<Rightarrow> Some (map_sum id OutList (handleList (ca_fs ob) (ca_dec ob) inp), s)
        | CallCancel jid \<Rightarrow>
            (case handleCancel (cancel_record (ca_now ob) (je_ok je)) jid t of
               (res, t') \<Rightarrow> Some (map_sum id OutCancel res, srv, t')))"

lemma tool_names: "tool_name c \<in> set RegisteredToolNames"
  by (cases c) (simp_all add: tool_name_def RegisteredToolNames_def)

subsection \<open>What production reports\<close>

text \<open>No call changes the liveness probe.\<close>

lemma call_tool_probe:
  "call_tool os addAll je ob fuel call s = Some (res, s') \<Longrightarrow> ms_pidAlive (fst s') = ms_pidAlive (fst s)"
  by (auto simp: call_tool_def pi_status_def Let_def split: prod.splits ToolCall.splits)

text \<open>A status call that names its job.\<close>

lemma pi_status_by_job:
  assumes "si_JobID inp \<noteq> []" and "jv_Lookup view (si_JobID inp) = Some rc" and "pi_status srv view ob fuel inp = Some (res, srv')"
  shows "\<exists>tgt d out d'. resolveTarget (ca_fs ob) view inp = Inr tgt \<and> res = Inr out
    \<and> buildStatus (status_env srv view ob tgt) tgt inp d = (out, d') \<and> (\<not> si_Wait inp \<longrightarrow> d = ms_delta srv)
    \<and> rs_runsDir tgt = jr_RunsDir rc \<and> rs_runID tgt = jr_RunID rc \<and> rs_jobID tgt = jr_JobID rc \<and> rs_mode tgt = jr_Mode rc
    \<and> rs_hasJob tgt \<and> rs_jobStatus tgt = jr_Status rc"
  using assms
  by (auto simp: pi_status_def handleStatus_def resolveTarget_def Let_def split: option.splits prod.splits if_splits)

lemma pi_status_now:
  assumes "si_JobID inp \<noteq> []" and "jv_Lookup view (si_JobID inp) = Some rc" and "\<not> si_Wait inp"
  shows "\<exists>tgt. resolveTarget (ca_fs ob) view inp = Inr tgt \<and> pi_status srv view ob fuel inp =
      (case buildStatus (status_env srv view ob tgt) tgt inp (ms_delta srv) of (out, d) \<Rightarrow> Some (Inr out, srv\<lparr>ms_delta := d\<rparr>))
    \<and> rs_runsDir tgt = jr_RunsDir rc \<and> rs_runID tgt = jr_RunID rc \<and> rs_jobID tgt = jr_JobID rc
    \<and> rs_hasJob tgt \<and> rs_jobStatus tgt = jr_Status rc"
proof -
  obtain tgt where "resolveTarget (ca_fs ob) view inp = Inr tgt" "rs_runsDir tgt = jr_RunsDir rc" "rs_runID tgt = jr_RunID rc"
      "rs_jobID tgt = jr_JobID rc" "rs_hasJob tgt" "rs_jobStatus tgt = jr_Status rc"
    using assms(1,2) by (simp add: resolveTarget_def)
  with assms(3) show ?thesis
    by (intro exI [of _ tgt]) (simp add: pi_status_def handleStatus_def case_prod_unfold)
qed

lemma pi_status_returns:
  "si_JobID inp \<noteq> [] \<Longrightarrow> jv_Lookup view (si_JobID inp) = Some rc \<Longrightarrow> \<not> si_Wait inp \<Longrightarrow>
   \<exists>res srv'. pi_status srv view ob fuel inp = Some (res, srv')"
  using pi_status_now [of inp view rc ob srv fuel] by (auto simp: case_prod_unfold)

text \<open>C26: A dead job is reported alive. The production server's probe answers that every process is alive, and \<^verbatim>\<open>pi_status\<close>
  consults the registry's status only when there is no run file. So for a job whose run file was left with a
  non-terminal status the answer is \<open>running\<close>, or \<open>stalled\<close> once run file and worktree are idle, forever: even if its
  process is gone, and even if the registry holds it as failed or aborted.\<close>

theorem dead_job_reported_alive:
  assumes "ms_pidAlive srv = ms_pidAlive (mcp_New getenv parse)"
    and "si_JobID inp \<noteq> []" and "jv_Lookup view (si_JobID inp) = Some rc"
    and "\<And>k. adapter_Load (ca_runs ob k) (ca_dec ob) (jr_RunsDir rc) (jr_RunID rc) = Inr run"
    and "\<not> IsTerminal (run_Status run)"
    and "pi_status srv view ob fuel inp = Some (res, srv')"
  shows "\<exists>out. res = Inr (Some out) \<and> so_JobID out = jr_JobID rc \<and>
    so_Status out =
      (if (\<exists>u. run_UpdatedAt run = Some u \<and> ca_now ob - u > StaleThreshold)
          \<and> \<not> worktree_active (ca_now ob) (if jr_Mode rc = ModeWrite then jv_WorktreeActivity view (jr_JobID rc) else None)
       then ''stalled'' else ''running'')"
proof -
  obtain tgt d out d' where tgt: "resolveTarget (ca_fs ob) view inp = Inr tgt" "res = Inr out"
      "buildStatus (status_env srv view ob tgt) tgt inp d = (out, d')"
      "rs_runsDir tgt = jr_RunsDir rc" "rs_runID tgt = jr_RunID rc" "rs_jobID tgt = jr_JobID rc" "rs_mode tgt = jr_Mode rc" "rs_hasJob tgt"
    using pi_status_by_job [OF assms(2,3,6)] by metis
  let ?sv = "status_env srv view ob tgt"
  have load: "loadWithGrace (sv_load ?sv) tgt = Inr run"
    using assms(4) tgt(4,5) by (simp add: loadWithGrace_def settled_load_def status_env_def)
  obtain o' where o': "out = Some o'" using buildStatus_returns [OF load assms(5), of inp d] tgt(3) by auto
  note b = buildStatus_loaded [OF load tgt(3) [unfolded o']]
  have "pidIsAlive (sv_kill ?sv) tgt"
    using assms(1) by (simp add: pidIsAlive_def status_env_def mcp_New_def)
  with b(1,5) assms(5) show ?thesis
    using tgt(2,6-8) o' by (auto simp: Derive_nonterminal status_env_def worktreeLast_def)
qed

lemma call_workflow:
  "call_tool os addAll je ob fuel (CallWorkflow inp) (srv, t) = Some (Inr (OutWorkflow wo), s1) \<longleftrightarrow>
   (\<exists>t'. handleWorkflow (ca_fs ob) (submit_record (je_errtext je) os (je_base je) (je_jid je) (je_uuid je) (ca_now ob) (je_ok je)) inp t
      = (Inr wo, t') \<and> s1 = (srv, t'))"
proof -
  obtain res t' where h: "handleWorkflow (ca_fs ob)
      (submit_record (je_errtext je) os (je_base je) (je_jid je) (je_uuid je) (ca_now ob) (je_ok je)) inp t = (res, t')"
    by (metis prod.exhaust)
  show ?thesis unfolding call_tool_def by (cases res) (auto simp: h)
qed

text \<open>The record a successful read-mode submission creates.\<close>

lemma read_submission:
  assumes "handleWorkflow fs (submit_record errtext os base jid uuid now True) inp (a, w) = (Inr wo, a1, w1)" and "wi_Mode inp = ModeRead"
  shows "\<exists>rc. Lookup uuid (ad_reg a1) = Some rc \<and> jr_JobID rc = uuid \<and> jr_RunID rc = [] \<and> jr_Mode rc = ModeRead
    \<and> jr_RunsDir rc = RunsDir (jr_CWD rc) \<and> jr_Status rc = (if rg_slots (ad_reg a) < rg_cap (ad_reg a) then JobRunning else JobQueued)
    \<and> wo_JobID wo = uuid \<and> wo_Status wo = jr_Status rc \<and> wo_CWD wo = jr_CWD rc"
proof -
  obtain cwd rc where sub: "submit_record errtext os base jid uuid now True
        \<lparr>js_Task = wi_Task inp, js_Mode = ModeRead, js_CWD = cwd, js_Context = wi_Context inp\<rparr> (a, w) = (Inr rc, a1, w1)"
    and wo: "wo_JobID wo = jr_JobID rc" "wo_Status wo = jr_Status rc" "wo_CWD wo = jr_CWD rc"
    using assms by (auto simp: handleWorkflow_def validateMode_def split: if_splits sum.splits prod.splits)
  let ?spec = "adapter_spec \<lparr>js_Task = wi_Task inp, js_Mode = ModeRead, js_CWD = cwd, js_Context = wi_Context inp\<rparr>"
  obtain res r' where r': "Submit ?spec uuid now True (ad_reg a) = (res, r')" by fastforce
  note R = Submit_result [OF r' refl refl]
  have "ad_reg a1 = r'" "rc = jb_Record (rg_mem r' ! length (rg_mem (ad_reg a)))"
    using sub R r' by (auto simp: submit_record_def adapter_Submit_def reg_Submit_def mode_defs)
  with R wo show ?thesis
    by (simp add: Lookup_def NewJob_def adapter_spec_def zero_JobRecord_def)
qed


text \<open>A file system with one directory tree and, if \<open>b\<close>, a run file; and a call on it.\<close>

definition mini_fs :: "bool \<Rightarrow> FS" where
  "mini_fs b = \<lparr>fs_ReadFile = (\<lambda>_. if b then Inr ''x'' else Inl ErrNotExist),
     fs_Stat = (\<lambda>p. if b \<or> p = ''/d'' then Inr \<lparr>fi_IsDir = True, fi_ModTime = 5, fi_Size = 1\<rparr> else Inl ErrNotExist),
     fs_ReadDir = (\<lambda>_. Inr []), fs_EvalSymlinks = Inr\<rparr>"

definition mini_obs :: "bool \<Rightarrow> CallObs" where
  "mini_obs b = \<lparr>ca_now = 9, ca_fs = mini_fs b, ca_dec = (\<lambda>_. Some (demo_run ''running'')), ca_runs = (\<lambda>_. mini_fs b),
     ca_authoring = (\<lambda>_ _. None), ca_json = demo_json, ca_wait = (\<lambda>_. demo_obs)\<rparr>"

definition mini_env :: JobEnv where
  "mini_env = \<lparr>je_base = ''/s'', je_jid = [], je_uuid = ''j7'', je_ok = True, je_order = [], je_node = (\<lambda>_. None), je_errtext = (\<lambda>_. [])\<rparr>"

definition prod_srv :: McpServer where
  "prod_srv = mcp_New (\<lambda>_. []) (\<lambda>_. None)"

lemma dead_job_reported_alive_witness:
  "\<exists>out srv' rc. jr_Status rc = JobFailed \<and>
     pi_status prod_srv (demo_jobs\<lparr>jv_Lookup := (\<lambda>_. Some rc)\<rparr>) (mini_obs True) 0 demo_in = Some (Inr (Some out), srv')
     \<and> so_Status out = ''running''"
proof -
  let ?rc = "zero_JobRecord\<lparr>jr_Status := JobFailed\<rparr>"
  let ?view = "demo_jobs\<lparr>jv_Lookup := (\<lambda>_. Some ?rc)\<rparr>"
  have load: "adapter_Load (ca_runs (mini_obs True) k) (ca_dec (mini_obs True)) (jr_RunsDir ?rc) (jr_RunID ?rc) = Inr (demo_run ''running'')" for k
    by (simp add: adapter_Load_def Load_def mini_obs_def mini_fs_def ReadRun_def decodeRunFile_def)
  obtain res srv' where st: "pi_status prod_srv ?view (mini_obs True) 0 demo_in = Some (res, srv')"
    using pi_status_returns [of demo_in ?view ?rc prod_srv "mini_obs True" 0] by (auto simp: demo_in_def)
  have "\<not> IsTerminal (run_Status (demo_run ''running''))" by (simp add: demo_run_def)
  from dead_job_reported_alive [OF _ _ _ load this st, of "\<lambda>_. []" "\<lambda>_. None"]
  obtain out where "res = Inr (Some out)" "so_Status out = ''running''"
    by (auto simp: prod_srv_def demo_in_def demo_run_def)
  with st have "jr_Status ?rc = JobFailed \<and> pi_status prod_srv ?view (mini_obs True) 0 demo_in = Some (Inr (Some out), srv')
     \<and> so_Status out = ''running''" by simp
  then show ?thesis by blast
qed

definition mini_call :: WorkflowInput where
  "mini_call = \<lparr>wi_Task = ''t'', wi_Mode = ModeRead, wi_CWD = ''/d'', wi_Context = []\<rparr>"

lemma mini_valid: "TrimSpace ''t'' = ''t''" "validateCWD (mini_fs b) ''/d'' = Inr ''/d''"
proof -
  show "TrimSpace ''t'' = ''t''" by (rule TrimSpace_printable) (simp_all add: printable_def)
  have "TrimSpace ''/d'' = ''/d''" by (rule TrimSpace_printable) (simp_all add: printable_def)
  then show "validateCWD (mini_fs b) ''/d'' = Inr ''/d''"
    by (simp add: validateCWD_def mini_fs_def IsAbs_def HasPrefix_def)
qed

lemma mini_submits:
  "\<exists>wo a1. call_tool toy_os (\<lambda>_. id) mini_env (mini_obs False) 0 (CallWorkflow mini_call) (prod_srv, \<lparr>ad_reg = r, ad_handles = []\<rparr>, toy_repo)
     = Some (Inr (OutWorkflow wo), prod_srv, a1, toy_repo) \<and> wo_CWD wo = ''/d'' \<and> wo_JobID wo = ''j7''"
proof -
  let ?spec = "adapter_spec \<lparr>js_Task = ''t'', js_Mode = ModeRead, js_CWD = ''/d'', js_Context = []\<rparr>"
  obtain res r' where r': "Submit ?spec ''j7'' 9 True r = (res, r')" by fastforce
  note R = Submit_result [OF r' refl refl]
  then show ?thesis
    by (simp add: call_workflow handleWorkflow_def mini_call_def mini_obs_def mini_env_def mini_valid validateMode_def
        submit_record_def adapter_Submit_def reg_Submit_def r' mode_distinct)
      (simp add: NewJob_def adapter_spec_def zero_JobRecord_def)
qed


end
