(* ===== verification/Mcp_Session.thy ===== *)
theory Mcp_Session
  imports Mcp_Server
begin

text \<open>
  A client's session: the \<^verbatim>\<open>pi_status\<close> calls of one server process in sequence, for any jobs and runs, with
  or without waiting. The deltas a client is sent for one job add up to the full list of events.
\<close>

subsection \<open>A sequence of calls\<close>

type_synonym StatusCall = "JobsView \<times> CallObs \<times> nat \<times> StatusInput"

fun session :: "McpServer \<Rightarrow> StatusCall list \<Rightarrow> StatusOutput list option" where
  "session srv [] = Some []"
| "session srv ((view, ob, fuel, inp) # cs) =
     (case pi_status srv view ob fuel inp of
        Some (Inr (Some out), srv1) \<Rightarrow> map_option ((#) out) (session srv1 cs)
      | _ \<Rightarrow> None)"

text \<open>The key a call polls, and the run it loads.\<close>

definition call_key :: "StatusCall \<Rightarrow> string option" where
  "call_key c = (case c of (view, ob, fuel, inp) \<Rightarrow>
     (case resolveTarget (ca_fs ob) view inp of Inl _ \<Rightarrow> None | Inr tgt \<Rightarrow> Some (deltaKey tgt)))"

definition call_run :: "StatusCall \<Rightarrow> Run option" where
  "call_run c = (case c of (view, ob, fuel, inp) \<Rightarrow>
     (case resolveTarget (ca_fs ob) view inp of
        Inl _ \<Rightarrow> None
      | Inr tgt \<Rightarrow>
          (case loadWithGrace (\<lambda>k. adapter_Load (ca_runs ob k) (ca_dec ob) (rs_runsDir tgt) (rs_runID tgt)) tgt of
             Inl _ \<Rightarrow> None
           | Inr run \<Rightarrow> Some run)))"

definition polls :: "string \<Rightarrow> StatusCall list \<Rightarrow> Run list" where
  "polls key cs = List.map_filter (\<lambda>c. if call_key c = Some key then call_run c else None) cs"

definition sent :: "string \<Rightarrow> StatusCall list \<Rightarrow> StatusOutput list \<Rightarrow> StatusEvent list" where
  "sent key cs outs = concat (map (\<lambda>(c, out). if call_key c = Some key then so_Events out else []) (zip cs outs))"

lemma polls_Cons: "polls key (c # cs) = (if call_key c = Some key then (case call_run c of None \<Rightarrow> [] | Some r \<Rightarrow> [r]) else []) @ polls key cs"
  by (simp add: polls_def List.map_filter_simps split: option.split)

lemma sent_Cons: "sent key (c # cs) (out # outs) = (if call_key c = Some key then so_Events out else []) @ sent key cs outs"
  by (simp add: sent_def)

subsection \<open>One call\<close>

text \<open>Waiting moves warnings only.\<close>

lemma shouldWarn_delivered [simp]: "dt_delivered (snd (shouldWarn key la d)) = dt_delivered d"
  by (simp add: shouldWarn_def)

lemma wait_check_delivered: "dt_delivered (ws_delta (snd (wait_check key ob w))) = dt_delivered (ws_delta w)"
  by (auto simp: wait_check_def wait_warn_def Let_def case_prod_beta split: sum.split option.split)

lemma wait_loop_delivered:
  "wait_loop key dl obs i fuel w = Some (e, k, w') \<Longrightarrow> dt_delivered (ws_delta w') = dt_delivered (ws_delta w)"
proof (induction fuel arbitrary: i w)
  case (Suc fuel)
  obtain e' w1 where c: "wait_check key (obs i) w = (e', w1)" by fastforce
  with wait_check_delivered [of key "obs i" w] Suc show ?case
    by (auto split: option.splits if_splits)
qed simp

lemma seen_cong: "dt_delivered d = dt_delivered d' \<Longrightarrow> seen key d = seen key d'"
  by (simp add: seen_def)

text \<open>What a call sends, and what it leaves in the tracker.\<close>

lemma pi_status_sends:
  assumes "pi_status srv view ob fuel inp = Some (Inr (Some out), srv1)" and "c = (view, ob, fuel, inp)"
    and "call_key c = Some k"
  shows "case call_run c of
      None \<Rightarrow> so_Events out = [] \<and> dt_delivered (ms_delta srv1) = dt_delivered (ms_delta srv)
    | Some r \<Rightarrow> so_Events out = EventsSince (jc_any (ca_json ob)) r
          (if si_FromStart inp \<or> seen k (ms_delta srv) > int (length (run_Journal r)) then 0 else seen k (ms_delta srv))
          (si_IncludeResults inp) MaxInlineResultBytes
        \<and> dt_delivered (ms_delta srv1) = (dt_delivered (ms_delta srv))(k \<mapsto> int (length (run_Journal r)))"
proof -
  obtain tgt d d2 where tgt: "resolveTarget (ca_fs ob) view inp = Inr tgt" "k = deltaKey tgt"
    and d: "dt_delivered d = dt_delivered (ms_delta srv)"
    and b: "buildStatus (status_env srv view ob tgt) tgt inp d = (Some out, d2)" and srv1: "srv1 = srv\<lparr>ms_delta := d2\<rparr>"
    using assms
    by (auto simp: pi_status_def handleStatus_def call_key_def Let_def waitForChange_def wait_init_def
        dest!: wait_loop_delivered split: sum.splits if_splits prod.splits option.splits)
  let ?sv = "status_env srv view ob tgt"
  have run: "call_run c = (case loadWithGrace (sv_load ?sv) tgt of Inl _ \<Rightarrow> None | Inr run \<Rightarrow> Some run)"
    by (simp add: call_run_def assms(2) tgt(1) status_env_def)
  show ?thesis
  proof (cases "loadWithGrace (sv_load ?sv) tgt")
    case (Inl e)
    then have "so_Events out = [] \<and> d2 = d"
      using b by (auto simp: buildStatus_def no_run_fields zero_StatusOutput_def)
    with Inl d srv1 show ?thesis by (simp add: run)
  next
    case (Inr r)
    note e = buildStatus_loaded(2,3) [OF Inr b]
    have "seen k d = seen k (ms_delta srv)" using d by (rule seen_cong)
    with Inr e d srv1 tgt(2) show ?thesis
      by (simp add: run take_delta_def seen_def Let_def status_env_def)
  qed
qed

lemma pi_status_other:
  assumes "pi_status srv view ob fuel inp = Some (Inr (Some out), srv1)" and "call_key (view, ob, fuel, inp) \<noteq> Some key"
  shows "seen key (ms_delta srv1) = seen key (ms_delta srv)"
proof -
  obtain k where k: "call_key (view, ob, fuel, inp) = Some k"
    using assms(1) by (auto simp: pi_status_def handleStatus_def call_key_def split: sum.splits)
  with assms(2) pi_status_sends [OF assms(1) refl k] show ?thesis
    by (auto simp: seen_def split: option.splits)
qed


subsection \<open>A session\<close>

text \<open>A run goes on: its journal grows at the end, and the agents of the entries it had stay as they were.\<close>

definition goes_on :: "Run \<Rightarrow> Run \<Rightarrow> bool" where
  "goes_on r r' \<longleftrightarrow> prefix (run_Journal r) (run_Journal r') \<and>
     (\<forall>j \<in> set (run_Journal r). byCallIndex (run_Agents r') (je_Index j) = byCallIndex (run_Agents r) (je_Index j))"

text \<open>A client of \<open>key\<close> that never asks for a replay, always asks for results or never, with one JSON decoder.\<close>

definition plain_client :: "string \<Rightarrow> (string \<Rightarrow> any option) \<Rightarrow> bool \<Rightarrow> StatusCall list \<Rightarrow> bool" where
  "plain_client key un inc cs \<longleftrightarrow> list_all (\<lambda>(view, ob, fuel, inp). call_key (view, ob, fuel, inp) = Some key \<longrightarrow>
     \<not> si_FromStart inp \<and> si_IncludeResults inp = inc \<and> jc_any (ca_json ob) = un) cs"

lemma events_loop_cong:
  "(\<And>j. j \<in> set js \<Longrightarrow> by (je_Index j) = by' (je_Index j)) \<Longrightarrow> events_loop un inc mb by js = events_loop un inc mb by' js"
  by (induction js) (auto split: option.split)

lemma EventsSince_goes_on:
  assumes "goes_on r r'"
  shows "EventsSince un r 0 inc mb @ EventsSince un r' (int (length (run_Journal r))) inc mb = EventsSince un r' 0 inc mb"
proof -
  obtain js where js: "run_Journal r' = run_Journal r @ js" using assms by (auto simp: goes_on_def prefix_def)
  have "events_loop un inc mb (byCallIndex (run_Agents r')) (run_Journal r) = events_loop un inc mb (byCallIndex (run_Agents r)) (run_Journal r)"
    by (rule events_loop_cong) (use assms in \<open>simp add: goes_on_def\<close>)
  then show ?thesis
    using EventsSince_nat [of 0 r] EventsSince_nat [of 0 r'] EventsSince_nat [of "length (run_Journal r)" r'] by (simp add: js)
qed

lemma session_from:
  assumes "session srv cs = Some outs" and "plain_client key un inc cs"
    and "sorted_wrt goes_on (r0 # polls key cs)" and "seen key (ms_delta srv) = int (length (run_Journal r0))"
  shows "EventsSince un r0 0 inc MaxInlineResultBytes @ sent key cs outs
    = EventsSince un (last (r0 # polls key cs)) 0 inc MaxInlineResultBytes"
  using assms
proof (induction cs arbitrary: srv outs r0)
  case Nil
  then show ?case by (simp add: polls_def sent_def List.map_filter_simps)
next
  case (Cons c cs)
  obtain view ob fuel inp where c: "c = (view, ob, fuel, inp)" by (cases c)
  obtain out srv1 outs1 where out: "pi_status srv view ob fuel inp = Some (Inr (Some out), srv1)"
    and rest: "session srv1 cs = Some outs1" "outs = out # outs1"
    using Cons.prems(1) by (auto simp: c split: option.splits prod.splits sum.splits)
  have client: "plain_client key un inc cs" using Cons.prems(2) by (simp add: plain_client_def)
  show ?case
  proof (cases "call_key c = Some key \<and> call_run c \<noteq> None")
    case False
    have "(call_key c = Some key \<longrightarrow> so_Events out = []) \<and> seen key (ms_delta srv1) = seen key (ms_delta srv)"
    proof (cases "call_key c = Some key")
      case True
      with False have a: "so_Events out = []" "dt_delivered (ms_delta srv1) = dt_delivered (ms_delta srv)"
        using pi_status_sends [OF out c True] by simp_all
      show ?thesis using a(1) seen_cong [OF a(2)] by simp
    next
      case other: False
      with pi_status_other [OF out] show ?thesis by (simp add: c)
    qed
    then have "seen key (ms_delta srv1) = int (length (run_Journal r0))" "sent key (c # cs) outs = sent key cs outs1"
      using Cons.prems(4) by (simp_all add: rest(2) sent_Cons)
    moreover have "polls key (c # cs) = polls key cs" using False by (auto simp: polls_Cons)
    ultimately show ?thesis using Cons.IH [OF rest(1) client] Cons.prems(3) by simp
  next
    case True
    then obtain r where r: "call_key c = Some key" "call_run c = Some r" by auto
    have ps: "polls key (c # cs) = r # polls key cs" using r by (simp add: polls_Cons)
    have on: "goes_on r0 r" and srt: "sorted_wrt goes_on (r # polls key cs)" using Cons.prems(3) by (simp_all add: ps)
    have "length (run_Journal r0) \<le> length (run_Journal r)" using on by (auto simp: goes_on_def dest: prefix_length_le)
    moreover have "\<not> si_FromStart inp \<and> si_IncludeResults inp = inc \<and> jc_any (ca_json ob) = un"
      using Cons.prems(2) r(1) by (simp add: plain_client_def c)
    ultimately have ev: "so_Events out = EventsSince un r (int (length (run_Journal r0))) inc MaxInlineResultBytes"
      and seen: "seen key (ms_delta srv1) = int (length (run_Journal r))"
      using pi_status_sends [OF out c r(1)] r(2) Cons.prems(4) by (simp_all add: seen_def)
    have "EventsSince un r0 0 inc MaxInlineResultBytes @ sent key (c # cs) outs
        = EventsSince un r 0 inc MaxInlineResultBytes @ sent key cs outs1"
      by (simp only: rest(2) sent_Cons r(1) ev simp_thms if_True append_assoc [symmetric] EventsSince_goes_on [OF on])
    also have "\<dots> = EventsSince un (last (r # polls key cs)) 0 inc MaxInlineResultBytes"
      by (rule Cons.IH [OF rest(1) client srt seen])
    finally show ?thesis by (simp add: ps)
  qed
qed



subsection \<open>A small session\<close>

text \<open>A call that names its job, does not wait and loads no ended run is answered.\<close>

lemma pi_status_answers:
  assumes "si_JobID inp \<noteq> []" and "jv_Lookup view (si_JobID inp) = Some rc" and "\<not> si_Wait inp"
    and "\<And>r. call_run (view, ob, fuel, inp) = Some r \<Longrightarrow> \<not> IsTerminal (run_Status r)"
  shows "\<exists>out srv1. pi_status srv view ob fuel inp = Some (Inr (Some out), srv1)"
proof -
  obtain tgt where tgt: "resolveTarget (ca_fs ob) view inp = Inr tgt"
    and st: "pi_status srv view ob fuel inp =
      (case buildStatus (status_env srv view ob tgt) tgt inp (ms_delta srv) of (out, d) \<Rightarrow> Some (Inr out, srv\<lparr>ms_delta := d\<rparr>))"
    using pi_status_now [OF assms(1-3), of ob srv fuel] by (elim exE conjE) blast
  let ?sv = "status_env srv view ob tgt"
  show ?thesis
  proof (cases "loadWithGrace (sv_load ?sv) tgt")
    case (Inl e)
    then show ?thesis by (simp add: st buildStatus_def)
  next
    case (Inr r)
    then have "\<not> IsTerminal (run_Status r)"
      using assms(4) [of r] by (simp add: call_run_def tgt status_env_def)
    from buildStatus_returns [OF Inr this, of inp "ms_delta srv"] st show ?thesis by auto
  qed
qed

lemma session_answers:
  "list_all (\<lambda>(view, ob, fuel, inp). si_JobID inp \<noteq> [] \<and> jv_Lookup view (si_JobID inp) \<noteq> None \<and> \<not> si_Wait inp
      \<and> (\<forall>r. call_run (view, ob, fuel, inp) = Some r \<longrightarrow> \<not> IsTerminal (run_Status r))) cs \<Longrightarrow> \<exists>outs. session srv cs = Some outs"
proof (induction cs arbitrary: srv)
  case (Cons c cs)
  obtain view ob fuel inp where c: "c = (view, ob, fuel, inp)" by (cases c)
  obtain out srv1 where "pi_status srv view ob fuel inp = Some (Inr (Some out), srv1)"
    using Cons.prems pi_status_answers [of inp view _ ob fuel srv] by (auto simp: c)
  with Cons.IH [of srv1] Cons.prems show ?case by (auto simp: c)
qed simp

definition ses_run :: "nat \<Rightarrow> Run" where
  "ses_run n = (demo_run ''running'')\<lparr>
     run_Agents := map (\<lambda>(i, l). \<lparr>ag_ID = i, ag_CallIndex = i, ag_Label = l, ag_Model = [], ag_Phase = [], ag_Prompt = [], ag_Status = ''done'',
       ag_ResultPreview = [], ag_Tokens = 0, ag_StartedAt = None, ag_EndedAt = None, ag_Error = None\<rparr>) [(0, ''a''), (1, ''b'')],
     run_Journal := take n [\<lparr>je_Index = 1, je_Hash = [], je_Result = []\<rparr>, \<lparr>je_Index = 0, je_Hash = [], je_Result = []\<rparr>]\<rparr>"

text \<open>The call number \<open>n\<close> finds \<open>n\<close> journal entries; the first call finds no file.\<close>

definition ses_call :: "nat \<Rightarrow> StatusCall" where
  "ses_call n = (demo_jobs\<lparr>jv_Lookup := (\<lambda>_. Some (zero_JobRecord\<lparr>jr_JobID := ''j1''\<rparr>))\<rparr>, (mini_obs (n \<noteq> 0))\<lparr>ca_dec := (\<lambda>_. Some (ses_run n))\<rparr>, 0, demo_in)"

lemma ses_calls:
  "call_key (ses_call n) = Some ''j1''" "call_run (ses_call 0) = None" "n \<noteq> 0 \<Longrightarrow> call_run (ses_call n) = Some (ses_run n)"
proof -
  have "Join [[], ''.json''] \<noteq> ''/d''" by code_simp
  then have "fs_Stat (mini_fs False) (Join [[], ''.json'']) = Inl ErrNotExist" by (simp add: mini_fs_def)
  then show "call_run (ses_call 0) = None"
    by (simp add: call_run_def ses_call_def resolveTarget_def demo_in_def zero_JobRecord_def loadWithGrace_def settled_load_def
        adapter_Load_def Load_def mini_obs_def)
  show "call_key (ses_call n) = Some ''j1''"
    by (simp add: call_key_def ses_call_def resolveTarget_def demo_in_def deltaKey_def)
  show "call_run (ses_call n) = Some (ses_run n)" if "n \<noteq> 0"
    using that by (simp add: call_run_def ses_call_def resolveTarget_def demo_in_def loadWithGrace_def settled_load_def
        adapter_Load_def Load_def mini_obs_def mini_fs_def ReadRun_def decodeRunFile_def)
qed

lemma ses_answered: "\<exists>outs. session srv (map ses_call ns) = Some outs"
proof (rule session_answers)
  have "\<not> IsTerminal (run_Status (ses_run n))" for n by (simp add: ses_run_def demo_run_def)
  moreover have "call_run (ses_call n) = (if n = 0 then None else Some (ses_run n))" for n
    using ses_calls(2,3) by (cases "n = 0") auto
  ultimately have "\<not> IsTerminal (run_Status r)" if "call_run (ses_call n) = Some r" for n r
    using that by (auto split: if_splits)
  then show "list_all (\<lambda>(view, ob, fuel, inp). si_JobID inp \<noteq> [] \<and> jv_Lookup view (si_JobID inp) \<noteq> None \<and> \<not> si_Wait inp
      \<and> (\<forall>r. call_run (view, ob, fuel, inp) = Some r \<longrightarrow> \<not> IsTerminal (run_Status r))) (map ses_call ns)"
    unfolding list_all_iff ses_call_def by (force simp: demo_in_def)
qed


end
