(* ===== verification/Dash_Server.thy ===== *)
theory Dash_Server
  imports Dash_Poller Go_Path
begin

text \<open>
  \<^verbatim>\<open>internal/dashboard/server.go\<close>: the routes of the dashboard, the headers and bodies of its responses and the
  event stream; and the loop of the poller (\<^verbatim>\<open>poller.go\<close>).

  The request multiplexer is \<^verbatim>\<open>net/http\<close>'s \<^verbatim>\<open>ServeMux\<close> on paths without percent escapes. The file server
  behind \<^verbatim>\<open>/static/\<close>, the writer of redirects and the embedded index page are parameters.
\<close>

subsection \<open>Responses\<close>

record Response =
  hr_Code :: nat
  hr_Header :: "string \<rightharpoonup> string"
  hr_Body :: string

definition set_header :: "string \<Rightarrow> string \<Rightarrow> Response \<Rightarrow> Response" where
  "set_header k v w = w\<lparr>hr_Header := (hr_Header w)(k \<mapsto> v)\<rparr>"

definition hw_write :: "string \<Rightarrow> Response \<Rightarrow> Response" where
  "hw_write b w = w\<lparr>hr_Body := hr_Body w @ b\<rparr>"

definition http_Error :: "string \<Rightarrow> nat \<Rightarrow> Response \<Rightarrow> Response" where
  "http_Error msg code w =
     hw_write (msg @ nl) ((set_header ''X-Content-Type-Options'' ''nosniff''
       (set_header ''Content-Type'' ''text/plain; charset=utf-8'' w))\<lparr>hr_Code := code\<rparr>)"

definition http_NotFound :: "Response \<Rightarrow> Response" where
  "http_NotFound w = http_Error ''404 page not found'' 404 w"

definition new_response :: Response where
  "new_response = \<lparr>hr_Code = 200, hr_Header = Map.empty, hr_Body = []\<rparr>"

subsection \<open>Routes\<close>

text \<open>\<^verbatim>\<open>ServeMux\<close>: the cleaned path, the subtree patterns, and the redirects to a trailing slash or to
  the cleaned path.\<close>

definition cleanPath :: "string \<Rightarrow> string" where
  "cleanPath p =
     (if p = [] then ''/''
      else
        (let p1 = (if hd p = slash then p else slash # p); np = Clean p1 in
         if last p1 = slash \<and> np \<noteq> ''/'' then np @ ''/'' else np))"

datatype Route = RIndex | RStatic | RState | RJob | REvents | RRedirect string

definition mux_match :: "string \<Rightarrow> Route" where
  "mux_match p =
     (if p = ''/api/state'' then RState
      else if p = ''/events'' then REvents
      else if HasPrefix p ''/static/'' then RStatic
      else if HasPrefix p ''/api/job/'' then RJob
      else RIndex)"

definition dash_route :: "string \<Rightarrow> Route" where
  "dash_route path =
     (let p = cleanPath path in
      if p = ''/static'' \<or> p = ''/api/job'' then RRedirect (p @ ''/'')
      else if p \<noteq> path then RRedirect p
      else mux_match p)"

subsection \<open>Handlers\<close>

definition handleIndex :: "string option \<Rightarrow> string \<Rightarrow> Response \<Rightarrow> Response" where
  "handleIndex index path w =
     (if path \<noteq> ''/'' then http_NotFound w
      else case index of
             None \<Rightarrow> http_Error ''index missing'' 500 w
           | Some b \<Rightarrow> hw_write b (set_header ''Content-Type'' ''text/html; charset=utf-8'' w))"

definition handleStatic :: "(string \<Rightarrow> Response \<Rightarrow> Response) \<Rightarrow> string \<Rightarrow> Response \<Rightarrow> Response" where
  "handleStatic static path w =
     (if HasPrefix path ''/static/'' then static (drop (length ''/static/'') path) w else http_NotFound w)"

definition handleState :: "(DashboardState \<Rightarrow> string) \<Rightarrow> Poller \<Rightarrow> Response \<Rightarrow> Response" where
  "handleState enc p w = hw_write (LatestJSON enc p) (set_header ''Content-Type'' ''application/json'' w)"

definition writeJSON :: "('a \<Rightarrow> string option) \<Rightarrow> 'a \<Rightarrow> Response \<Rightarrow> Response" where
  "writeJSON enc v w =
     (let w1 = set_header ''Content-Type'' ''application/json'' w in
      case enc v of
        None \<Rightarrow> http_Error ''encode error'' 500 w1
      | Some b \<Rightarrow> hw_write b w1)"

definition job_response :: "(JobDetail \<Rightarrow> string option) \<Rightarrow> HttpJob \<Rightarrow> Response \<Rightarrow> Response" where
  "job_response enc h w =
     (case h of
        NotFound \<Rightarrow> http_NotFound w
      | Unavailable \<Rightarrow> http_Error ''registry unavailable'' 503 w
      | JobJSON d \<Rightarrow> writeJSON enc d w)"

text \<open>What the \<^verbatim>\<open>select\<close> of the event stream receives: the end of the request, a frame of the hub (\<open>None\<close>: the channel is
  closed), the keep-alive tick.\<close>

datatype SseIn = SseDone | SseMsg "string option" | SseKeepalive

fun sse_loop :: "SseIn list \<Rightarrow> Response \<Rightarrow> Response" where
  "sse_loop [] w = w"
| "sse_loop (SseDone # is) w = w"
| "sse_loop (SseMsg None # is) w = w"
| "sse_loop (SseMsg (Some m) # is) w = sse_loop is (hw_write (writeSSE m) w)"
| "sse_loop (SseKeepalive # is) w = sse_loop is (hw_write ('': keepalive'' @ nl @ nl) w)"

text \<open>\<^verbatim>\<open>handleEvents\<close> on the inputs of its whole life; the deferred cancel leaves the hub it found without its
  own subscription (other clients act in between, see \<open>Dash_Hub\<close>).\<close>

definition handleEvents ::
    "bool \<Rightarrow> (DashboardState \<Rightarrow> string) \<Rightarrow> Poller \<Rightarrow> SseIn list \<Rightarrow> Response \<Rightarrow> Hub \<Rightarrow> Response \<times> Hub" where
  "handleEvents flusher enc p is w h =
     (if \<not> flusher then (http_Error ''streaming unsupported'' 500 w, h)
      else
        (let w1 = set_header ''Connection'' ''keep-alive'' (set_header ''Cache-Control'' ''no-cache''
                    (set_header ''Content-Type'' ''text/event-stream'' w))
         in case open_stream enc p h of (i, first, h1) \<Rightarrow>
              (sse_loop is (hw_write (writeSSE first) w1), cancel_close i (cancel_remove i h1))))"

subsection \<open>The server\<close>

record DashWorld =
  dw_poller :: Poller
  dw_hub :: Hub
  dw_cache :: runCache
  dw_env :: DashEnv
  dw_db :: "Table option"
  dw_ok1 :: bool
  dw_ok2 :: bool
  dw_now :: Time
  dw_index :: "string option"
  dw_static :: "string \<Rightarrow> Response \<Rightarrow> Response"
  dw_redirect :: "string \<Rightarrow> Response \<Rightarrow> Response"
  dw_flusher :: bool
  dw_stream :: "SseIn list"

text \<open>\<^verbatim>\<open>Handler\<close>: \<^verbatim>\<open>noStore\<close> around the multiplexer.\<close>

definition noStore :: "Response \<Rightarrow> Response" where
  "noStore w = set_header ''Cache-Control'' ''no-store'' w"

definition serve ::
    "(DashboardState \<Rightarrow> string) \<Rightarrow> (JobDetail \<Rightarrow> string option) \<Rightarrow> string \<Rightarrow> DashWorld \<Rightarrow> Response \<times> DashWorld" where
  "serve enc encJ path d =
     (let w = noStore new_response in
      case dash_route path of
        RRedirect q \<Rightarrow> (dw_redirect d q w, d)
      | RIndex \<Rightarrow> (handleIndex (dw_index d) path w, d)
      | RStatic \<Rightarrow> (handleStatic (dw_static d) path w, d)
      | RState \<Rightarrow> (handleState enc (dw_poller d) w, d)
      | RJob \<Rightarrow>
          (case handleJob (dw_env d) (dw_ok1 d) (dw_ok2 d) (dw_db d) (dw_now d) path (dw_cache d) of
             (h, c) \<Rightarrow> (job_response encJ h w, d\<lparr>dw_cache := c\<rparr>))
      | REvents \<Rightarrow>
          (case handleEvents (dw_flusher d) enc (dw_poller d) (dw_stream d) w (dw_hub d) of
             (w1, h1) \<Rightarrow> (w1, d\<lparr>dw_hub := h1\<rparr>)))"

subsection \<open>The poller's loop\<close>

text \<open>\<^verbatim>\<open>Run\<close>: a tick at once, one per wake (the ticker or a watch) until the context is done, then no watch is kept.\<close>

definition poller_Run ::
    "(DashboardState \<Rightarrow> string) \<Rightarrow> (string \<Rightarrow> string) \<Rightarrow> (string \<Rightarrow> bool) option \<Rightarrow> TickObs \<Rightarrow> TickObs list
     \<Rightarrow> (Poller \<times> runCache) \<times> Hub \<Rightarrow> (Poller \<times> runCache) \<times> Hub" where
  "poller_Run enc sha sub first wakes s =
     (case fold (dash_tick enc sha) (first # wakes) s of
        ((p, c), h) \<Rightarrow> ((refreshWatches sub None p, c), h))"

subsection \<open>Redirects end\<close>

lemma Clean_slash_end: "plains cs \<Longrightarrow> Clean (abs_path cs @ ''/'') = abs_path cs"
  using Clean_rooted [of cs "join_slash cs @ ''/''"]
  by (simp add: Split_append_sep Split_plains abs_path_def)

lemma last_abs_path:
  assumes "plains cs" and "cs \<noteq> []"
  shows "last (abs_path cs) \<noteq> slash"
proof -
  obtain ds c where cs: "cs = ds @ [c]" using assms(2) by (metis rev_exhaust)
  then have c: "c \<noteq> []" "slash \<notin> set c" using assms(1) by (auto simp: plain_def)
  have "last (join_slash cs) = last c" "join_slash cs \<noteq> []"
    using c by (cases "ds = []"; simp add: cs join_slash_snoc)+
  with c show ?thesis by (metis abs_path_def last_ConsR last_in_set)
qed

lemma cleanPath_form:
  obtains cs where "plains cs" and "cleanPath p = abs_path cs \<or> cs \<noteq> [] \<and> cleanPath p = abs_path cs @ ''/''"
proof -
  let ?p1 = "if p = [] then ''/'' else if hd p = slash then p else slash # p"
  have "IsAbs ?p1" by (cases p) auto
  then obtain cs where cs: "plains cs" "Clean ?p1 = abs_path cs" by (rule Clean_abs_path)
  have root: "abs_path cs = ''/'' \<longleftrightarrow> cs = []"
    using abs_path_inj [OF cs(1), of "[]"] by (simp add: abs_path_def)
  have "Clean ''/'' = ''/''" by code_simp
  then have "cleanPath p = abs_path cs \<or> cs \<noteq> [] \<and> cleanPath p = abs_path cs @ ''/''"
    using cs root by (cases "p = []") (auto simp: cleanPath_def Let_def)
  with cs(1) show thesis by (rule that)
qed

lemma cleanPath_idem [simp]: "cleanPath (cleanPath p) = cleanPath p"
proof -
  obtain cs where cs: "plains cs" "cleanPath p = abs_path cs \<or> cs \<noteq> [] \<and> cleanPath p = abs_path cs @ ''/''"
    by (rule cleanPath_form)
  have hd: "hd (abs_path cs) = slash" "abs_path cs \<noteq> []" by (simp_all add: abs_path_def)
  have root: "abs_path cs = ''/'' \<longleftrightarrow> cs = []"
    using abs_path_inj [OF cs(1), of "[]"] by (simp add: abs_path_def)
  have plain: "cleanPath (abs_path cs) = abs_path cs"
    using hd cs(1) root last_abs_path [OF cs(1)] by (auto simp: cleanPath_def Let_def)
  have "cleanPath (abs_path cs @ ''/'') = abs_path cs @ ''/''" if "cs \<noteq> []"
    using hd that root Clean_slash_end [OF cs(1)] by (simp add: cleanPath_def Let_def)
  with plain cs(2) show ?thesis by auto
qed

lemma mux_no_redirect [simp]: "mux_match p \<noteq> RRedirect r"
  by (simp add: mux_match_def)

lemma redirect_once:
  assumes "dash_route path = RRedirect q"
  shows "dash_route q \<noteq> RRedirect r"
proof (cases "cleanPath path = ''/static'' \<or> cleanPath path = ''/api/job''")
  case True
  have "dash_route ''/static/'' = RStatic" "dash_route ''/api/job/'' = RJob" by code_simp+
  with True assms show ?thesis by (auto simp: dash_route_def Let_def)
next
  case False
  with assms have "q = cleanPath path" by (simp add: dash_route_def Let_def split: if_splits)
  with False have "dash_route q = mux_match q" by (simp add: dash_route_def Let_def)
  then show ?thesis by simp
qed

subsection \<open>The stream as a browser reads it\<close>

text \<open>The reference: an \<^verbatim>\<open>EventSource\<close> reads terminated lines; a blank line dispatches the data lines collected so
  far, a line that begins with a colon is a comment.\<close>

definition lf :: char where "lf = char_of (10 :: nat)"

definition sse_lines :: "string \<Rightarrow> string list" where
  "sse_lines b = butlast (Split lf b)"

definition data_value :: "string \<Rightarrow> string" where
  "data_value l = (let v = drop 5 l in if HasPrefix v '' '' then tl v else v)"

fun sse_dispatch :: "string option \<Rightarrow> string list \<Rightarrow> string list" where
  "sse_dispatch buf [] = []"
| "sse_dispatch buf (l # ls) =
     (if l = [] then (case buf of None \<Rightarrow> sse_dispatch None ls | Some d \<Rightarrow> d # sse_dispatch None ls)
      else if hd l = CHR '':'' then sse_dispatch buf ls
      else if HasPrefix l ''data:''
        then sse_dispatch (Some (case buf of None \<Rightarrow> data_value l | Some d \<Rightarrow> d @ [lf] @ data_value l)) ls
      else sse_dispatch buf ls)"

definition event_source :: "string \<Rightarrow> string list" where
  "event_source b = sse_dispatch None (sse_lines b)"

text \<open>The frames the handler took before it stopped.\<close>

fun taken :: "SseIn list \<Rightarrow> string list" where
  "taken [] = []"
| "taken (SseDone # is) = []"
| "taken (SseMsg None # is) = []"
| "taken (SseMsg (Some m) # is) = m # taken is"
| "taken (SseKeepalive # is) = taken is"

lemma nl_lf: "nl = [lf]"
  by (simp add: nl_def lf_def bytes_def)

lemma sse_lines_step: "lf \<notin> set l \<Longrightarrow> sse_lines (l @ lf # v) = l # sse_lines v"
  by (simp add: sse_lines_def Split_append)

lemma event_source_frame:
  assumes "lf \<notin> set m"
  shows "event_source (writeSSE m @ v) = m # event_source v"
proof -
  have "lf \<notin> set (''data: '' @ m)" using assms by (simp add: lf_def char_of_def bit_iff_odd)
  then have "sse_lines (writeSSE m @ v) = (''data: '' @ m) # [] # sse_lines v"
    using sse_lines_step [of "''data: '' @ m" "[] @ lf # v"] sse_lines_step [of "[]" v] by (simp add: writeSSE_def nl_lf)
  then show ?thesis by (simp add: event_source_def data_value_def HasPrefix_def)
qed

lemma event_source_keepalive: "event_source ('': keepalive'' @ nl @ nl @ v) = event_source v"
proof -
  have "lf \<notin> set '': keepalive''" by (simp add: lf_def char_of_def bit_iff_odd)
  then have "sse_lines ('': keepalive'' @ nl @ nl @ v) = '': keepalive'' # [] # sse_lines v"
    using sse_lines_step [of "'': keepalive''" "[] @ lf # v"] sse_lines_step [of "[]" v] by (simp add: nl_lf)
  then show ?thesis by (simp add: event_source_def)
qed

lemma sse_loop_body:
  assumes "\<And>m. SseMsg (Some m) \<in> set is \<Longrightarrow> lf \<notin> set m"
  shows "\<exists>b. sse_loop is w = w\<lparr>hr_Body := hr_Body w @ b\<rparr> \<and> event_source b = taken is"
  using assms
proof (induction "is" w rule: sse_loop.induct)
  case (4 m "is" w)
  then obtain b where b: "sse_loop is (hw_write (writeSSE m) w) = (hw_write (writeSSE m) w)\<lparr>hr_Body := hr_Body (hw_write (writeSSE m) w) @ b\<rparr>"
      "event_source b = taken is" by fastforce
  with 4(2) [of m] show ?case by (intro exI [of _ "writeSSE m @ b"]) (simp add: hw_write_def event_source_frame)
next
  case (5 "is" w)
  let ?k = "'': keepalive'' @ nl @ nl"
  obtain b where b: "sse_loop is (hw_write ?k w) = (hw_write ?k w)\<lparr>hr_Body := hr_Body (hw_write ?k w) @ b\<rparr>"
      "event_source b = taken is" using 5 by fastforce
  with event_source_keepalive [of b] show ?case by (intro exI [of _ "?k @ b"]) (simp add: hw_write_def)
qed (auto simp: event_source_def sse_lines_def intro!: exI [of _ "[]"])

text \<open>C36: The event stream is read back exactly. Whatever frames, keep-alives and endings a stream of one-line snapshots goes
  through, a browser that parses what has been written at any moment gets the snapshot current at the start
  followed by the frames taken, in order and nothing else; and when the handler returns, the hub has the
  subscribers it had before, with the stream's own channel closed once.\<close>

theorem sse_roundtrip:
  assumes "hub_reachable h" and "lf \<notin> set (LatestJSON enc p)" and "\<And>m. SseMsg (Some m) \<in> set is \<Longrightarrow> lf \<notin> set m"
    and "handleEvents True enc p is (noStore new_response) h = (w, h')"
  shows "event_source (hr_Body w) = LatestJSON enc p # taken is
    \<and> hr_Code w = 200 \<and> hr_Header w ''Content-Type'' = Some ''text/event-stream''
    \<and> hb_subs h' = hb_subs h \<and> ch_closed (last (hb_chans h')) \<and> \<not> hb_panic h'"
proof -
  let ?w1 = "set_header ''Connection'' ''keep-alive'' (set_header ''Cache-Control'' ''no-cache''
                (set_header ''Content-Type'' ''text/event-stream'' (noStore new_response)))"
  obtain b where b: "sse_loop is (hw_write (writeSSE (LatestJSON enc p)) ?w1)
      = (hw_write (writeSSE (LatestJSON enc p)) ?w1)\<lparr>hr_Body := hr_Body (hw_write (writeSSE (LatestJSON enc p)) ?w1) @ b\<rparr>"
      "event_source b = taken is" using sse_loop_body [OF assms(3)] by blast
  then have "w = (hw_write (writeSSE (LatestJSON enc p)) ?w1)\<lparr>hr_Body := writeSSE (LatestJSON enc p) @ b\<rparr>"
    using assms(4) by (simp add: handleEvents_def open_stream_def Subscribe_def Let_def hw_write_def set_header_def noStore_def new_response_def)
  moreover have "h' = cancel_close (length (hb_chans h)) (cancel_remove (length (hb_chans h)) (snd (Subscribe h)))"
    using assms(4) by (simp add: handleEvents_def open_stream_def Subscribe_def Let_def)
  moreover have "hub_ok h" using assms(1) by (rule hub_reachable_ok)
  then have "filter (\<lambda>k. k \<noteq> length (hb_chans h)) (hb_subs h) = hb_subs h" "\<not> hb_panic h"
    by (auto simp: hub_ok_def filter_id_conv)
  ultimately show ?thesis
    using b(2) assms(2)
    by (simp add: event_source_frame hw_write_def set_header_def noStore_def new_response_def Subscribe_def Let_def
        cancel_close_def cancel_remove_def upd_chan_def new_chan_def list_update_append)
qed

lemma sse_roundtrip_witness:
  "event_source (hr_Body (fst (handleEvents True ds_StateDir (NewPoller ''/s/r.db'' ''/s'')
     [SseMsg (Some ''b''), SseKeepalive, SseMsg (Some ''c''), SseDone, SseMsg (Some ''d'')] (noStore new_response) NewHub))) = [[], ''b'', ''c'']"
proof -
  let ?is = "[SseMsg (Some ''b''), SseKeepalive, SseMsg (Some ''c''), SseDone, SseMsg (Some ''d'')]"
  let ?p = "NewPoller ''/s/r.db'' ''/s''"
  obtain w h' where w: "handleEvents True ds_StateDir ?p ?is (noStore new_response) NewHub = (w, h')"
    by (metis prod.exhaust)
  have first: "LatestJSON ds_StateDir ?p = []"
    by (simp add: LatestJSON_def NewPoller_def zero_DashboardState_def)
  have one_line: "lf \<notin> set m" if "SseMsg (Some m) \<in> set ?is" for m
    using that by (auto simp: lf_def char_of_def bit_iff_odd)
  from sse_roundtrip [OF hub_reachable.init _ one_line w] show ?thesis by (simp add: first w)
qed

subsection \<open>A client that keeps up\<close>

text \<open>What happens to a stream's channel: the poller ticks, or the stream takes a frame.\<close>

datatype StreamEv = EvTick TickObs | EvTake

definition stream_ev ::
    "(DashboardState \<Rightarrow> string) \<Rightarrow> (string \<Rightarrow> string) \<Rightarrow> nat \<Rightarrow> StreamEv \<Rightarrow> (Poller \<times> runCache) \<times> Hub \<Rightarrow> (Poller \<times> runCache) \<times> Hub" where
  "stream_ev enc sha i ev s = (case ev of EvTick ob \<Rightarrow> dash_tick enc sha ob s | EvTake \<Rightarrow> (fst s, receive i (snd s)))"

text \<open>Every tick finds room in the buffer, and its hash does not collide.\<close>

fun keeps_up ::
    "(DashboardState \<Rightarrow> string) \<Rightarrow> (string \<Rightarrow> string) \<Rightarrow> nat \<Rightarrow> StreamEv list \<Rightarrow> (Poller \<times> runCache) \<times> Hub \<Rightarrow> bool" where
  "keeps_up enc sha i [] s \<longleftrightarrow> True"
| "keeps_up enc sha i (ev # evs) s \<longleftrightarrow>
     (case ev of
        EvTick ob \<Rightarrow> length (ch_buf (hb_chans (snd s) ! i)) < 8
          \<and> (case tick_state ob (fst s) of
               None \<Rightarrow> True
             | Some st \<Rightarrow> sha (enc (content st)) = sha (enc (content (po_latest (fst (fst s))))) \<longrightarrow> content st = content (po_latest (fst (fst s))))
      | EvTake \<Rightarrow> ch_buf (hb_chans (snd s) ! i) \<noteq> [])
     \<and> keeps_up enc sha i evs (stream_ev enc sha i ev s)"

definition in_stream :: "nat \<Rightarrow> Hub \<Rightarrow> string list" where
  "in_stream i h = ch_recv (hb_chans h ! i) @ ch_buf (hb_chans h ! i)"

definition shows_latest :: "(DashboardState \<Rightarrow> string) \<Rightarrow> string list \<Rightarrow> Poller \<Rightarrow> bool" where
  "shows_latest enc fs p \<longleftrightarrow> (\<exists>st. last fs = enc st \<and> content st = content (po_latest p))"

definition stream_inv :: "(DashboardState \<Rightarrow> string) \<Rightarrow> (string \<Rightarrow> string) \<Rightarrow> nat \<Rightarrow> string list \<Rightarrow> (Poller \<times> runCache) \<times> Hub \<Rightarrow> bool" where
  "stream_inv enc sha i pre s \<longleftrightarrow> hub_ok (snd s) \<and> i \<in> set (hb_subs (snd s)) \<and> poller_ok enc sha (fst (fst s))
     \<and> (po_primed (fst (fst s)) \<or> po_latestJSON (fst (fst s)) = None)
     \<and> (pre @ in_stream i (snd s) = [] \<or> shows_latest enc (pre @ in_stream i (snd s)) (fst (fst s)))"

lemma hub_ok_receive:
  assumes "hub_ok h" and "i < length (hb_chans h)" and "ch_buf (hb_chans h ! i) \<noteq> []"
  shows "hub_ok (receive i h)"
  using hub_ok_step [OF assms(1) hub_step.recv [OF assms(2,3)]] .

lemma stream_inv_step:
  assumes "stream_inv enc sha i pre s" and "keeps_up enc sha i (ev # evs) s"
  shows "stream_inv enc sha i pre (stream_ev enc sha i ev s)"
proof (cases ev)
  case EvTake
  have i: "i < length (hb_chans (snd s))" using assms(1) by (auto simp: stream_inv_def hub_ok_def)
  have ne: "ch_buf (hb_chans (snd s) ! i) \<noteq> []" using assms(2) EvTake by simp
  have "in_stream i (receive i (snd s)) = in_stream i (snd s)"
    using ne i by (simp add: in_stream_def receive_def nth_upd_chan)
  with assms(1) hub_ok_receive [OF _ i ne] show ?thesis
    by (simp add: EvTake stream_inv_def stream_ev_def receive_def)
next
  case (EvTick ob)
  obtain p c h where s: "s = ((p, c), h)" by (metis prod.exhaust)
  have inv: "hub_ok h" "i \<in> set (hb_subs h)" "poller_ok enc sha p" "po_primed p \<or> po_latestJSON p = None"
      "pre @ in_stream i h = [] \<or> shows_latest enc (pre @ in_stream i h) p"
    using assms(1) by (simp_all add: stream_inv_def s)
  show ?thesis
  proof (cases "tick_state ob (p, c)")
    case None
    then have "stream_ev enc sha i ev s = s"
      by (simp add: stream_ev_def EvTick s dash_tick_def Tick_def tick_state_def)
    with assms(1) show ?thesis by simp
  next
    case (Some st)
    note t = Tick_some [OF Some, of enc sha]
    let ?q = "snd (Tick enc sha ob (p, c))"
    have room: "length (ch_buf (hb_chans h ! i)) < 8"
      and coll: "sha (enc (content st)) = sha (enc (content (po_latest p))) \<Longrightarrow> content st = content (po_latest p)"
      using assms(2) Some by (simp_all add: EvTick s)
    show ?thesis
    proof (cases "fst (Tick enc sha ob (p, c))")
      case None
      then have same: "content st = content (po_latest p)"
        using t(1) coll inv(3) by (auto simp: poller_ok_def split: if_splits)
      have "stream_ev enc sha i ev s = (?q, h)"
        using None by (simp add: stream_ev_def EvTick s dash_tick_def case_prod_unfold)
      with inv t(2,4,5) same show ?thesis by (simp add: stream_inv_def shows_latest_def)
    next
      case (Some msg)
      then have msg: "msg = enc st" using t(1) by (simp split: if_splits)
      have e: "stream_ev enc sha i ev s = (?q, Broadcast (hb_subs h) (enc st) h)"
        using Some msg by (simp add: stream_ev_def EvTick s dash_tick_def case_prod_unfold)
      note B = Broadcast_step [OF inv(1) refl, of "enc st"]
      have "in_stream i (Broadcast (hb_subs h) (enc st) h) = in_stream i h @ [enc st]"
        using B inv(2) room by (simp add: in_stream_def offer_def hubBuffer_def)
      with B inv(2) t(2,4,5) show ?thesis by (auto simp: e stream_inv_def shows_latest_def)
    qed
  qed
qed

lemma stream_inv_run:
  "stream_inv enc sha i pre s \<Longrightarrow> keeps_up enc sha i evs s \<Longrightarrow> stream_inv enc sha i pre (fold (stream_ev enc sha i) evs s)"
proof (induction evs arbitrary: s)
  case (Cons ev evs)
  from stream_inv_step [OF Cons.prems] Cons show ?case by simp
qed simp

text \<open>C37: A client that keeps up shows the current fleet. A stream subscribes, later writes the snapshot current by then, and
  takes frames, while the poller ticks at any moment. As long as every tick finds room in the client's
  buffer, the last of what was written or is still buffered for the client is the latest snapshot, up to its
  time stamp: the snapshot at the start closes the gap in which frames were not yet subscribed to.\<close>

theorem stream_current:
  assumes "hub_reachable h" and "poller_ok enc sha p" and "po_primed p \<or> po_latestJSON p = None"
    and "Subscribe h = (i, h1)"
    and "keeps_up enc sha i evs1 ((p, c), h1)" and "s1 = fold (stream_ev enc sha i) evs1 ((p, c), h1)"
    and "first = LatestJSON enc (fst (fst s1))"
    and "keeps_up enc sha i evs2 s1" and "s2 = fold (stream_ev enc sha i) evs2 s1"
  shows "\<exists>st. last (first # ch_recv (hb_chans (snd s2) ! i) @ ch_buf (hb_chans (snd s2) ! i)) = enc st
    \<and> content st = content (po_latest (fst (fst s2)))"
proof -
  have "hub_step h h1" using hub_step.subscribe [of h] assms(4) by simp
  then have "hub_ok h1" using hub_ok_step [OF hub_reachable_ok [OF assms(1)]] by blast
  then have "stream_inv enc sha i [] ((p, c), h1)"
    using assms(2-4) by (auto simp: stream_inv_def in_stream_def Subscribe_def Let_def new_chan_def nth_append)
  then have 1: "stream_inv enc sha i [] s1" unfolding assms(6) using assms(5) by (rule stream_inv_run)
  then have "stream_inv enc sha i [first] s1"
    by (cases "in_stream i (snd s1)")
      (auto simp: stream_inv_def shows_latest_def assms(7) LatestJSON_def poller_ok_def split: option.split)
  then have "stream_inv enc sha i [first] s2" unfolding assms(9) using assms(8) by (rule stream_inv_run)
  then show ?thesis by (simp add: stream_inv_def shows_latest_def in_stream_def)
qed

lemma stream_current_witness:
  "\<exists>s1 st. s1 = stream_ev ds_StateDir id 0 (EvTick (idle_obs 5)) ((NewPoller ''/s/r.db'' ''/s'', newRunCache), snd (Subscribe NewHub))
     \<and> last (LatestJSON ds_StateDir (fst (fst s1)) # ch_recv (hb_chans (receive 0 (snd s1)) ! 0) @ ch_buf (hb_chans (receive 0 (snd s1)) ! 0))
         = ds_StateDir st \<and> content st = content (po_latest (fst (fst s1)))"
proof -
  let ?s0 = "((NewPoller ''/s/r.db'' ''/s'', newRunCache), snd (Subscribe NewHub))"
  let ?s1 = "stream_ev ds_StateDir id 0 (EvTick (idle_obs 5)) ?s0"
  note t = Tick_some(1) [OF tick_state_idle, of ds_StateDir id 5 "(NewPoller ''/s/r.db'' ''/s'', newRunCache)"]
  have hub: "Subscribe NewHub = (0, snd (Subscribe NewHub))" "hb_chans (snd (Subscribe NewHub)) = [new_chan]"
      "hb_subs (snd (Subscribe NewHub)) = [0]"
    by (simp_all add: Subscribe_def NewHub_def Let_def)
  have k1: "keeps_up ds_StateDir id 0 [EvTick (idle_obs 5)] ?s0"
    by (simp add: hub(2) new_chan_def tick_state_idle NewPoller_def content_def zero_DashboardState_def)
  have "snd ?s1 = Broadcast [0] ''/s'' (snd (Subscribe NewHub))"
    using t by (simp add: stream_ev_def dash_tick_def case_prod_unfold hub(3) NewPoller_def)
  then have "ch_buf (hb_chans (snd ?s1) ! 0) = [''/s'']"
    by (simp add: Broadcast_def send_nb_def hub(2) new_chan_def upd_chan_def offer_def hubBuffer_def)
  then have k2: "keeps_up ds_StateDir id 0 [EvTake] ?s1" by simp
  have "\<exists>st. last (LatestJSON ds_StateDir (fst (fst ?s1)) # ch_recv (hb_chans (receive 0 (snd ?s1)) ! 0)
        @ ch_buf (hb_chans (receive 0 (snd ?s1)) ! 0)) = ds_StateDir st \<and> content st = content (po_latest (fst (fst ?s1)))"
    using stream_current [OF hub_reachable.init poller_ok_new _ hub(1) k1 refl refl, of "[EvTake]"] k2
    by (simp add: stream_ev_def [of _ _ _ EvTake] NewPoller_def)
  then show ?thesis by blast
qed

subsection \<open>Caching, and shutdown\<close>

lemma write_keeps_header [simp]:
  "hr_Header (hw_write b w) = hr_Header w" "hr_Header (http_Error msg code w) ''Cache-Control'' = hr_Header w ''Cache-Control''"
  "hr_Header (http_NotFound w) ''Cache-Control'' = hr_Header w ''Cache-Control''"
  by (simp_all add: hw_write_def http_Error_def http_NotFound_def set_header_def)

lemma sse_loop_header [simp]: "hr_Header (sse_loop is w) = hr_Header w"
  by (induction "is" w rule: sse_loop.induct) simp_all

lemma route_static: "dash_route path = RStatic \<Longrightarrow> HasPrefix path ''/static/''"
  by (auto simp: dash_route_def mux_match_def Let_def split: if_splits)

text \<open>What is uncacheable. Redirects and every answer of the program's own handlers carry \<^verbatim>\<open>no-store\<close>, errors included,
  except the event stream, whose handler replaces it by \<^verbatim>\<open>no-cache\<close>. A static asset that is served carries it too; an
  error of the file server does not, because \<^verbatim>\<open>net/http\<close> (since Go 1.23) deletes the caching headers there.\<close>

theorem served_uncacheable:
  assumes "\<And>p w. hr_Header (dw_static d p w) ''Cache-Control'' = (if hr_Code (dw_static d p w) < 400 then hr_Header w ''Cache-Control'' else None)"
    and "\<And>p w. hr_Header (dw_redirect d p w) ''Cache-Control'' = hr_Header w ''Cache-Control''"
    and "resp = fst (serve enc encJ path d)"
  shows "hr_Header resp ''Cache-Control'' =
    (if dash_route path = REvents \<and> dw_flusher d then Some ''no-cache''
     else if dash_route path = RStatic \<and> 400 \<le> hr_Code resp then None
     else Some ''no-store'')"
proof -
  have h: "hr_Header (noStore new_response) ''Cache-Control'' = Some ''no-store''"
    by (simp add: noStore_def set_header_def)
  have json: "hr_Header (writeJSON e v w) ''Cache-Control'' = hr_Header w ''Cache-Control''" for e :: "'b \<Rightarrow> string option" and v w
    by (simp add: writeJSON_def set_header_def Let_def split: option.split)
  show ?thesis
  proof (cases "dash_route path = RStatic")
    case True
    with assms(1) h route_static [OF True] show ?thesis
      by (simp add: assms(3) serve_def handleStatic_def Let_def)
  next
    case False
    with assms(2) h show ?thesis
      by (cases "dash_route path")
        (auto simp: assms(3) serve_def handleIndex_def handleState_def handleEvents_def job_response_def json
          Let_def set_header_def split: option.split HttpJob.split prod.split)
  qed
qed

text \<open>After the poller's loop no subscription is left: every handle ever made has been stopped.\<close>

lemma Tick_watches_ok: "watches_ok p \<Longrightarrow> watches_ok (fst (snd (Tick enc sha ob (p, c))))"
proof -
  assume p: "watches_ok p"
  have "watches_ok (refreshWatches sub want p)" for sub want
  proof (cases sub)
    case None
    with p show ?thesis by (simp add: refreshWatches_def)
  next
    case (Some f)
    with refreshWatches_exact [OF p refl, of f want] show ?thesis by simp
  qed
  moreover have "watches_ok (q\<lparr>po_latest := l, po_latestJSON := j, po_lastHash := k, po_primed := b\<rparr>) = watches_ok q" for q l j k b
    by (simp add: watches_ok_def)
  ultimately show ?thesis using p by (simp add: Tick_def Let_def case_prod_unfold split: option.split)
qed

theorem poller_Run_stops_watches:
  assumes "watches_ok p" and "poller_Run enc sha (Some sub) first wakes ((p, c), h) = ((p', c'), h')"
  shows "po_subs p' = [] \<and> list_all (\<lambda>stopped. stopped) (po_stopped p')"
proof -
  have "watches_ok (fst (fst (dash_tick enc sha ob s)))" if "watches_ok (fst (fst s))" for ob and s :: "(Poller \<times> runCache) \<times> Hub"
    using Tick_watches_ok [of "fst (fst s)" enc sha ob "snd (fst s)"] that
    by (auto simp: dash_tick_def split: prod.split option.split)
  then have "watches_ok (fst (fst (fold (dash_tick enc sha) obs s)))" if "watches_ok (fst (fst s))" for obs and s :: "(Poller \<times> runCache) \<times> Hub"
    using that by (induction obs arbitrary: s) simp_all
  then have "watches_ok (fst (fst (fold (dash_tick enc sha) (first # wakes) ((p, c), h))))" using assms(1) by (metis fst_conv)
  moreover have "p' = refreshWatches (Some sub) None (fst (fst (fold (dash_tick enc sha) (first # wakes) ((p, c), h))))"
    using assms(2) by (simp add: poller_Run_def case_prod_unfold del: fold.simps)
  ultimately show ?thesis using refreshWatches_exact [of _ p' sub None] by fastforce
qed

lemma poller_Run_stops_watches_witness:
  "po_subs (fst (fst (poller_Run ds_StateDir id (Some (\<lambda>_. True)) (idle_obs 5) [idle_obs 7] ((NewPoller ''/s/r.db'' ''/s'', newRunCache), NewHub)))) = []"
  using poller_Run_stops_watches [OF watches_ok_new, of ds_StateDir id "\<lambda>_. True" "idle_obs 5" "[idle_obs 7]"]
  by (metis prod.exhaust_sel)

lemma served_uncacheable_witness:
  "hr_Header (fst (serve ds_StateDir (\<lambda>_. None) ''/static/gone.js'' \<lparr>dw_poller = NewPoller ''/s/r.db'' ''/s'', dw_hub = NewHub, dw_cache = newRunCache,
     dw_env = sample_env (sample_fs [] []), dw_db = None, dw_ok1 = True, dw_ok2 = True, dw_now = 5, dw_index = None,
     dw_static = (\<lambda>_ w. w\<lparr>hr_Code := 404, hr_Header := Map.empty\<rparr>),
     dw_redirect = (\<lambda>_ w. w), dw_flusher = True, dw_stream = []\<rparr>)) ''Cache-Control'' = None"
proof -
  have r: "dash_route ''/static/gone.js'' = RStatic" by code_simp
  then have "handleStatic (\<lambda>_ w. w\<lparr>hr_Code := 404, hr_Header := Map.empty\<rparr>) ''/static/gone.js'' w
      = w\<lparr>hr_Code := 404, hr_Header := Map.empty\<rparr>" for w
    using route_static [OF r] by (simp add: handleStatic_def)
  with r show ?thesis
    by (subst served_uncacheable [OF _ _ refl]) (simp_all add: serve_def Let_def)
qed

end
