(* ===== verification/App_Start.thy ===== *)
theory App_Start
  imports App_Jobs Dash_Net Dash_Poller
begin

text \<open>
  How the two programs start: \<^verbatim>\<open>OpenStore\<close> of \<^verbatim>\<open>internal/jobs/store.go\<close>, \<^verbatim>\<open>buildRegistryReal\<close> of
  \<^verbatim>\<open>internal/app/app.go\<close>, and \<^verbatim>\<open>cmd/pi-mcp\<close> and \<^verbatim>\<open>cmd/pi-dashboard\<close> on top of them. What the operating system and the
  SQLite driver answer is a record; a database file is the columns of its table and the rows.
\<close>

subsection \<open>Opening the store\<close>

definition schema_cols :: "string list" where
  "schema_cols = [''jobId'', ''runId'', ''sessionId'', ''mode'', ''cwd'', ''runsDir'', ''worktreePath'', ''branch'', ''pid'', ''status'',
     ''startedAt'', ''errorCode'', ''errorMessage'', ''ownerPid'', ''ownerStartedAt'', ''updatedAt'', ''runSnapshot'']"

record DbFile =
  df_cols :: "string list"
  df_rows :: Table

record StoreOs =
  st_mkdir :: "string \<Rightarrow> string option"
  st_open :: "string option"
  st_schema :: "string option"
  st_column :: "string option"
  st_read :: "string \<Rightarrow> string option"
  st_dec :: "string \<Rightarrow> JobRecord list option"
  st_import :: bool
  st_rename :: "FsError option"
  st_now :: Time

text \<open>\<^verbatim>\<open>OpenStore\<close>: every step can fail and then the database is closed; a failed legacy import is only logged. The result on
  success is the fate of the legacy file and the logged error.\<close>

definition OpenStore :: "StoreOs \<Rightarrow> string \<Rightarrow> DbFile \<Rightarrow> (string + LegacyFate \<times> MigrateErr option) \<times> DbFile" where
  "OpenStore os path db =
     (case st_mkdir os (Dir path) of
        Some e \<Rightarrow> (Inl (''store: mkdir: '' @ e), db)
      | None \<Rightarrow>
          (case st_open os of
             Some e \<Rightarrow> (Inl (''store: open: '' @ e), db)
           | None \<Rightarrow>
               (case st_schema os of
                  Some e \<Rightarrow> (Inl (''store: schema: '' @ e), db)
                | None \<Rightarrow>
                    (let db1 = db\<lparr>df_cols := (if df_cols db = [] then schema_cols else df_cols db)\<rparr> in
                     case st_column os of
                       Some e \<Rightarrow> (Inl (''store: migrate runSnapshot: '' @ e), db1)
                     | None \<Rightarrow>
                         (case migrateLegacyJSON (st_import os) (st_read os (Join [Dir path, ''registry.json''])) (st_dec os)
                                 (st_rename os) (st_now os) (df_rows db1) of
                            (t, fate, err) \<Rightarrow>
                              (Inr (fate, err), db1\<lparr>df_cols := ensureRunSnapshotColumn (df_cols db1), df_rows := t\<rparr>))))))"

subsection \<open>pi-mcp\<close>

definition buildRegistryReal ::
    "(string \<Rightarrow> string) \<Rightarrow> string \<Rightarrow> StoreOs \<Rightarrow> int \<Rightarrow> string \<Rightarrow> DbFile \<Rightarrow> (string + Registry) \<times> DbFile" where
  "buildRegistryReal getenv TempDir os pid started db =
     (case statePaths getenv TempDir (st_mkdir os) of
        Inl e \<Rightarrow> (Inl (''create state dir: '' @ e), db)
      | Inr (persist, worktreeRoot) \<Rightarrow>
          (case OpenStore os persist db of
             (Inl e, db1) \<Rightarrow> (Inl e, db1)
           | (Inr _, db1) \<Rightarrow> (Inr (NewRegistry DefaultConcurrencyCap pid started (df_rows db1)), db1)))"

text \<open>\<^verbatim>\<open>main\<close>: the error the process dies with, if any.\<close>

definition pi_mcp_main ::
    "(string \<Rightarrow> string) \<Rightarrow> string \<Rightarrow> StoreOs \<Rightarrow> int \<Rightarrow> string \<Rightarrow> bool \<times> (nat \<Rightarrow> Env) \<Rightarrow> (Registry \<Rightarrow> string option \<times> Registry)
     \<Rightarrow> Time \<Rightarrow> bool \<Rightarrow> DbFile \<Rightarrow> string option" where
  "pi_mcp_main getenv TempDir os pid started sweep serve now ok db =
     fst (app_Run (fst (buildRegistryReal getenv TempDir os pid started db)) sweep serve now ok)"

subsection \<open>pi-dashboard\<close>

text \<open>\<^verbatim>\<open>main\<close>: the address it listens on with the poller and the hub it starts, or the error it dies with; \<open>None\<close> while it waits
  for an address. \<open>stateFlag\<close> is the value of \<^verbatim>\<open>--state-dir\<close>, whose default is the state directory.\<close>

definition dashboard_main ::
    "(string \<Rightarrow> string) \<Rightarrow> string \<Rightarrow> (nat \<Rightarrow> string \<Rightarrow> string + string) \<Rightarrow> (nat \<Rightarrow> string option) \<Rightarrow> string \<Rightarrow> string option
     \<Rightarrow> (string + string \<times> Poller \<times> Hub) option" where
  "dashboard_main getenv TempDir run cancelled addr stateFlag =
     (let stateDir = (case stateFlag of None \<Rightarrow> StateDir getenv TempDir | Some d \<Rightarrow> d) in
      case resolveAddrWait run cancelled addr of
        None \<Rightarrow> None
      | Some (Inl e) \<Rightarrow> Some (Inl (''resolve bind address: '' @ e))
      | Some (Inr a) \<Rightarrow> Some (Inr (a, NewPoller (registryPathFor stateDir) stateDir, NewHub)))"

subsection \<open>The store is opened safely\<close>

lemma migrate_wf: "wf_table t \<Longrightarrow> wf_table (fst (migrateLegacyJSON ok legacy dec renamed now t))"
  using wf_UpsertJobs
  by (auto simp: migrateLegacyJSON_def Let_def split: option.split FsError.split)

lemma migrate_populated: "t \<noteq> [] \<Longrightarrow> migrateLegacyJSON ok legacy dec renamed now t = (t, LegacyKept, None)"
  by (simp add: migrateLegacyJSON_def)

lemma ensure_idem [simp]:
  "ensureRunSnapshotColumn (ensureRunSnapshotColumn cols) = ensureRunSnapshotColumn cols"
  "''runSnapshot'' \<in> set (ensureRunSnapshotColumn cols)" "ensureRunSnapshotColumn cols \<noteq> []"
  by (auto simp: ensureRunSnapshotColumn_def)

text \<open>Opening the store never damages it. An error leaves the rows as they were. A success leaves a table with a unique key that has the
  snapshot column next to every column it had; a store with rows keeps exactly these; and opening it again,
  by another server and whatever the legacy file then holds, changes nothing more.\<close>

theorem OpenStore_safe:
  assumes "wf_table (df_rows db)" and "OpenStore os path db = (res, db')"
  shows "case res of
      Inl e \<Rightarrow> df_rows db' = df_rows db \<and> set (df_cols db) \<subseteq> set (df_cols db')
    | Inr (fate, err) \<Rightarrow> wf_table (df_rows db') \<and> ''runSnapshot'' \<in> set (df_cols db') \<and> set (df_cols db) \<subseteq> set (df_cols db')
        \<and> (df_rows db \<noteq> [] \<longrightarrow> df_rows db' = df_rows db \<and> fate = LegacyKept)
        \<and> (\<forall>os2 res2 db2. df_rows db' \<noteq> [] \<and> OpenStore os2 path db' = (res2, db2) \<longrightarrow> db2 = db')"
proof (cases res)
  case (Inl e)
  with assms(2) show ?thesis
    by (auto simp: OpenStore_def Let_def split: option.splits if_splits prod.splits)
next
  case (Inr r)
  let ?cols = "if df_cols db = [] then schema_cols else df_cols db"
  let ?m = "migrateLegacyJSON (st_import os) (st_read os (Join [Dir path, ''registry.json''])) (st_dec os) (st_rename os) (st_now os) (df_rows db)"
  have db': "db' = db\<lparr>df_cols := ensureRunSnapshotColumn ?cols, df_rows := fst ?m\<rparr>" and r: "r = snd ?m"
    using assms(2) Inr by (auto simp: OpenStore_def Let_def split: option.splits if_splits prod.splits)
  have again: "db2 = db'" if "df_rows db' \<noteq> []" "OpenStore os2 path db' = (res2, db2)" for os2 res2 db2
  proof -
    have "df_cols db' \<noteq> []" "ensureRunSnapshotColumn (df_cols db') = df_cols db'" by (simp_all add: db')
    then show ?thesis
      using that by (auto simp: OpenStore_def migrate_populated Let_def split: option.splits)
  qed
  have "set (df_cols db) \<subseteq> set (ensureRunSnapshotColumn ?cols)" by (auto simp: ensureRunSnapshotColumn_def)
  moreover have "wf_table (df_rows db')" using migrate_wf [OF assms(1)] by (simp add: db')
  moreover have "df_rows db \<noteq> [] \<Longrightarrow> df_rows db' = df_rows db \<and> fst r = LegacyKept"
    by (simp add: db' r migrate_populated)
  ultimately show ?thesis using Inr again by (auto simp: db' split: prod.split)
qed

subsection \<open>What is served after the start\<close>

lemma sweep_keeps:
  assumes "wf_table t" and "tbl_get t jid = Some row"
    and "isTerminal (row_status row) \<or> (\<forall>k. pidAlive (env_kill (env k)) (row_ownerPid row))"
  shows "tbl_get (sweep_table me ms readOk env t) jid = Some row"
proof (cases readOk)
  case False
  with assms(2) show ?thesis by (simp add: Reconcile_def AllJobs_def)
next
  case True
  have skip: "skip_row (env_kill (env k)) rc own" if "(rc, own) \<in> set (entries t)" "jr_JobID rc = jid" for rc own k
    using entries_row [OF assms(1) that(1), of row] that(2) assms(2,3) by (auto simp: skip_row_def)
  show ?thesis
    using rows_skip [OF assms(1), of "entries t" jid env me ms 0] skip assms(2) True by (simp add: Reconcile_eq)
qed

lemma boot_table:
  assumes "wf_table (df_rows db)" and "buildRegistryReal getenv TempDir os pid started db = (Inr reg, db1)"
  shows "wf_table (df_rows db1) \<and> (df_rows db \<noteq> [] \<longrightarrow> df_rows db1 = df_rows db)
    \<and> (\<exists>root. statePaths getenv TempDir (st_mkdir os) = Inr (RegistryPath getenv TempDir, root))"
proof -
  obtain root res where paths: "statePaths getenv TempDir (st_mkdir os) = Inr (RegistryPath getenv TempDir, root)"
    and opened: "OpenStore os (RegistryPath getenv TempDir) db = (Inr res, db1)"
    using assms(2) by (auto simp: buildRegistryReal_def statePaths_def Let_def split: sum.splits prod.splits option.splits)
  let ?m = "migrateLegacyJSON (st_import os) (st_read os (Join [Dir (RegistryPath getenv TempDir), ''registry.json''])) (st_dec os) (st_rename os)
      (st_now os) (df_rows db)"
  have "df_rows db1 = fst ?m"
    using opened by (auto simp: OpenStore_def Let_def split: option.splits if_splits prod.splits)
  then show ?thesis using paths migrate_wf [OF assms(1)] by (simp add: migrate_populated)
qed

lemma boot_serves:
  assumes "buildRegistryReal getenv TempDir os pid started db = (Inr reg, db1)"
  shows "pi_mcp_main getenv TempDir os pid started sweep serve now ok db = map_option (\<lambda>e. ''serve: '' @ e)
    (fst (serve (sy_reg (init_sys DefaultConcurrencyCap pid started (sweep_table pid started (fst sweep) (snd sweep) (df_rows db1))))))"
proof -
  have "reg = NewRegistry DefaultConcurrencyCap pid started (df_rows db1)"
    using assms by (auto simp: buildRegistryReal_def split: sum.splits prod.splits)
  then show ?thesis
    by (simp add: pi_mcp_main_def assms app_Run_def NewRegistry_def init_sys_def Let_def case_prod_unfold) (rule option.map_cong; simp)
qed

text \<open>C28: From start to service. If the registry can be built on a database with a unique key, \<^verbatim>\<open>pi-mcp\<close> serves a registry
  that is a reachable state of the interleaving semantics, so that all its properties hold from the first call; the
  start has left every row alone that is terminal or whose owner lives; a reconcile error does not keep it from
  serving, and an error of serving is what the process dies with. A dashboard started in the same environment reads
  the database that was opened.\<close>

theorem boot_safe:
  assumes "wf_table (df_rows db)" and "buildRegistryReal getenv TempDir os pid started db = (Inr reg, db1)"
  shows "\<exists>s. reachable s
    \<and> pi_mcp_main getenv TempDir os pid started sweep serve now ok db = map_option (\<lambda>e. ''serve: '' @ e) (fst (serve (sy_reg s)))
    \<and> (\<forall>jid row. tbl_get (df_rows db) jid = Some row
          \<and> (isTerminal (row_status row) \<or> (\<forall>k. pidAlive (env_kill (snd sweep k)) (row_ownerPid row)))
        \<longrightarrow> tbl_get (rg_store (sy_reg s)) jid = Some row)
    \<and> (\<forall>run cancelled addr a p h. dashboard_main getenv TempDir run cancelled addr None = Some (Inr (a, p, h)) \<longrightarrow>
        (\<exists>root. statePaths getenv TempDir (st_mkdir os) = Inr (po_registryPath p, root)))"
proof -
  let ?s = "init_sys DefaultConcurrencyCap pid started (sweep_table pid started (fst sweep) (snd sweep) (df_rows db1))"
  have wf: "wf_table (df_rows db1)" and paths: "\<exists>root. statePaths getenv TempDir (st_mkdir os) = Inr (RegistryPath getenv TempDir, root)"
    and kept: "df_rows db \<noteq> [] \<Longrightarrow> df_rows db1 = df_rows db"
    using boot_table [OF assms] by blast+
  have keep: "tbl_get (rg_store (sy_reg ?s)) jid = Some row"
    if "tbl_get (df_rows db) jid = Some row" "isTerminal (row_status row) \<or> (\<forall>k. pidAlive (env_kill (snd sweep k)) (row_ownerPid row))" for jid row
  proof -
    have "df_rows db \<noteq> []" using that(1) by (auto simp: tbl_get_def)
    with sweep_keeps [OF wf, of jid row "snd sweep"] that show ?thesis by (simp add: kept init_sys_def NewRegistry_def)
  qed
  have path: "po_registryPath p = RegistryPath getenv TempDir"
    if "dashboard_main getenv TempDir run cancelled addr None = Some (Inr (a, p, h))" for run cancelled addr a p h
    using that by (auto simp: dashboard_main_def registryPathFor_def RegistryPath_def NewPoller_def Let_def split: option.splits sum.splits)
  show ?thesis
  proof (intro exI [of _ ?s] conjI allI impI)
    show "reachable ?s" by (rule reachable.init [OF sweep_wf [OF wf]])
    show "pi_mcp_main getenv TempDir os pid started sweep serve now ok db = map_option (\<lambda>e. ''serve: '' @ e) (fst (serve (sy_reg ?s)))"
      by (rule boot_serves [OF assms(2)])
  qed (use keep path paths in auto)
qed

subsection \<open>After a crash\<close>

text \<open>C15: Crash recovery. A server dies at any moment of its work, and \<^verbatim>\<open>pi-mcp\<close> is started on the database it
  left, while other servers live. What is served then is a reachable registry over a table in which every job of the dead server is
  terminal, whatever writes had failed. If the last write before the crash succeeded, a job's row is the record the dead server held in memory when
  that was terminal, and otherwise that record marked failed with \<^verbatim>\<open>SERVER_RESTARTED\<close>, now owned by the new server. No row of a live server
  has changed.\<close>

theorem crash_recovery:
  assumes "reachable s" and "(jid, a) \<in> set (rg_jobs (sy_reg s))" and "df_rows db = rg_store (sy_reg s)"
    and "buildRegistryReal getenv TempDir os pid started db = (Inr reg, db1)"
    and "\<And>k. \<not> pidAlive (env_kill (env k)) (rg_ownerPid (sy_reg s))" and "\<And>k. env_ok (env k)"
    and "rc = (jb_Record (jobs_of s ! a))\<lparr>jr_RunSnapshot := []\<rparr>"
  shows "\<exists>s'. reachable s'
    \<and> pi_mcp_main getenv TempDir os pid started (True, env) serve now ok db = map_option (\<lambda>e. ''serve: '' @ e) (fst (serve (sy_reg s')))
    \<and> (\<exists>row. tbl_get (rg_store (sy_reg s')) jid = Some row \<and> isTerminal (row_status row)
        \<and> (\<not> sy_dirty s \<longrightarrow>
            row_rec row = (if isTerminal (jr_Status rc) then rc else rc\<lparr>jr_Status := JobFailed, jr_ErrorCode := ErrServerRestarted\<rparr>)
          \<and> row_ownerPid row = (if isTerminal (jr_Status rc) then rg_ownerPid (sy_reg s) else pid)))
    \<and> (\<forall>j row. tbl_get (rg_store (sy_reg s)) j = Some row \<and> (\<forall>k. pidAlive (env_kill (env k)) (row_ownerPid row)) \<longrightarrow>
        tbl_get (rg_store (sy_reg s')) j = Some row)"
proof -
  obtain row where row: "tbl_get (rg_store (sy_reg s)) jid = Some row" "row_ownerPid row = rg_ownerPid (sy_reg s)"
    and sync: "\<not> sy_dirty s \<Longrightarrow> row_rec row = rc" and wf: "wf_table (df_rows db)"
    using reachable_durable [OF assms(1)] assms(2) unfolding assms(3,7) by (fastforce simp: durable_def rows_ok_def synced_def)
  have db1: "wf_table (df_rows db1)" "df_rows db1 = rg_store (sy_reg s)"
    using boot_table [OF wf assms(4)] row(1) assms(3) by (auto simp: tbl_get_def)
  let ?t = "sweep_table pid started True env (df_rows db1)"
  let ?s = "init_sys DefaultConcurrencyCap pid started ?t"
  have swept: "rg_store (sy_reg ?s) = ?t" by (simp add: init_sys_def NewRegistry_def)
  have dead: "pidAlive (env_kill (env k)) (row_ownerPid row) = False" for k using assms(5) row(2) by simp
  note spec = Reconcile_spec [OF db1(1), unfolded db1(2), OF row(1), of env, OF dead assms(6), where me = pid and ms = started, folded db1(2)]
  have "\<exists>row'. tbl_get ?t jid = Some row' \<and> isTerminal (row_status row')
      \<and> row_rec row' = (if isTerminal (row_status row) then row_rec row
          else (row_rec row)\<lparr>jr_Status := JobFailed, jr_ErrorCode := ErrServerRestarted\<rparr>)
      \<and> row_ownerPid row' = (if isTerminal (row_status row) then rg_ownerPid (sy_reg s) else pid)"
    using spec row(2) by (auto simp: case_prod_beta isTerminal_def split: if_splits)
  then have "\<exists>row. tbl_get ?t jid = Some row \<and> isTerminal (row_status row)
        \<and> (\<not> sy_dirty s \<longrightarrow>
            row_rec row = (if isTerminal (jr_Status rc) then rc else rc\<lparr>jr_Status := JobFailed, jr_ErrorCode := ErrServerRestarted\<rparr>)
          \<and> row_ownerPid row = (if isTerminal (jr_Status rc) then rg_ownerPid (sy_reg s) else pid))"
    using sync by (elim exE) (rule exI, cases "sy_dirty s"; auto)
  moreover have "tbl_get ?t j = Some r"
    if "tbl_get (rg_store (sy_reg s)) j = Some r" "\<forall>k. pidAlive (env_kill (env k)) (row_ownerPid r)" for j r
    using sweep_keeps [OF db1(1), of j r env] that db1(2) by simp
  ultimately show ?thesis
    using boot_serves [OF assms(4), of "(True, env)" serve now ok] reachable.init [OF sweep_wf [OF db1(1)], of DefaultConcurrencyCap pid started pid started True env]
    by (intro exI [of _ ?s] conjI) (simp_all only: swept fst_conv snd_conv, blast+)
qed

text \<open>A start on a machine where everything works, with a database of an older version.\<close>

definition sunny_os :: StoreOs where
  "sunny_os = \<lparr>st_mkdir = (\<lambda>_. None), st_open = None, st_schema = None, st_column = None, st_read = (\<lambda>_. None), st_dec = (\<lambda>_. None),
     st_import = True, st_rename = None, st_now = 5\<rparr>"

lemma boot_safe_witness:
  "\<exists>s. reachable s \<and> pi_mcp_main (\<lambda>_. []) ''/tmp'' sunny_os 100 ''s'' (True, demo_env) (\<lambda>r. (Some ''eof'', r)) 9 True
       \<lparr>df_cols = butlast schema_cols, df_rows = sample_tbl\<rparr> = Some ''serve: eof''
     \<and> tbl_get (rg_store (sy_reg s)) ''j2'' = Some (sample_row (sample_rec ''j2'' JobFailed) 0 ''old'')"
proof -
  let ?db = "\<lparr>df_cols = butlast schema_cols, df_rows = sample_tbl\<rparr>"
  have wf: "wf_table (df_rows ?db)" by (simp add: wf_table_def sample_tbl_def sample_row_def)
  obtain reg db1 where b: "buildRegistryReal (\<lambda>_. []) ''/tmp'' sunny_os 100 ''s'' ?db = (Inr reg, db1)"
    by (auto simp: buildRegistryReal_def statePaths_def sunny_os_def OpenStore_def sample_tbl_def migrate_populated Let_def)
  have row: "tbl_get (df_rows ?db) ''j2'' = Some (sample_row (sample_rec ''j2'' JobFailed) 0 ''old'')"
    "isTerminal (row_status (sample_row (sample_rec ''j2'' JobFailed) 0 ''old''))"
    by (simp_all add: tbl_get_def sample_tbl_def sample_row_def)
  from boot_safe [OF wf b, of "(True, demo_env)" "\<lambda>r. (Some ''eof'', r)" 9 True] row show ?thesis by auto
qed

lemma crash_recovery_witness:
  "\<exists>s' row. reachable s' \<and> tbl_get (rg_store (sy_reg s')) ''j2'' = Some row \<and> jr_Status (row_rec row) = JobFailed
     \<and> jr_WorktreePath (row_rec row) = ''/wt'' \<and> row_ownerPid row = 200"
proof -
  let ?db = "\<lparr>df_cols = schema_cols, df_rows = rg_store (sy_reg demo2)\<rparr>"
  have "rg_store (sy_reg demo2) \<noteq> []" by (simp add: demo2_def demo1_def demo_regs)
  then obtain reg db1 where b: "buildRegistryReal (\<lambda>_. []) ''/tmp'' sunny_os 200 ''s'' ?db = (Inr reg, db1)"
    by (auto simp: buildRegistryReal_def statePaths_def sunny_os_def OpenStore_def migrate_populated Let_def schema_cols_def)
  have "rg_ownerPid (sy_reg demo2) = 100" by (simp add: demo2_def demo1_def demo_regs)
  then have env: "\<not> pidAlive (env_kill (demo_env k)) (rg_ownerPid (sy_reg demo2))" "env_ok (demo_env k)" for k
    by (simp_all add: demo_env_def pidAlive_def)
  have "jr_Status (jb_Record (jobs_of demo2 ! 1)) = JobQueued" "jr_WorktreePath (jb_Record (jobs_of demo2 ! 1)) = ''/wt''"
    by (simp_all add: demo2_def demo1_def demo_regs)
  moreover obtain s' row where "reachable s'" "tbl_get (rg_store (sy_reg s')) ''j2'' = Some row"
    "\<not> sy_dirty demo2 \<longrightarrow> row_rec row = (let rc = (jb_Record (jobs_of demo2 ! 1))\<lparr>jr_RunSnapshot := []\<rparr> in
        if isTerminal (jr_Status rc) then rc else rc\<lparr>jr_Status := JobFailed, jr_ErrorCode := ErrServerRestarted\<rparr>)
      \<and> row_ownerPid row = (if isTerminal (job_status (jobs_of demo2 ! 1)) then rg_ownerPid (sy_reg demo2) else 200)"
    using crash_recovery [OF demo_reachable2 demo2_jobs(1) DbFile.select_convs(2) b, of demo_env, OF env refl, of "\<lambda>r. (None, r)" 9 True]
    by (auto simp: Let_def)
  ultimately show ?thesis using demo2_jobs(2) by (intro exI [of _ s'] exI [of _ row]) (simp add: Let_def isTerminal_def)
qed

lemma OpenStore_safe_witness:
  "df_rows (snd (OpenStore sunny_os ''/s/registry.db'' \<lparr>df_cols = butlast schema_cols, df_rows = sample_tbl\<rparr>)) = sample_tbl
   \<and> ''runSnapshot'' \<in> set (df_cols (snd (OpenStore sunny_os ''/s/registry.db'' \<lparr>df_cols = butlast schema_cols, df_rows = sample_tbl\<rparr>)))"
proof -
  let ?db = "\<lparr>df_cols = butlast schema_cols, df_rows = sample_tbl\<rparr>"
  have wf: "wf_table (df_rows ?db)" by (simp add: wf_table_def sample_tbl_def sample_row_def)
  obtain res db' where o: "OpenStore sunny_os ''/s/registry.db'' ?db = (Inr res, db')"
    by (auto simp: sunny_os_def OpenStore_def sample_tbl_def migrate_populated Let_def)
  have "sample_tbl \<noteq> []" by (simp add: sample_tbl_def)
  with OpenStore_safe [OF wf o] show ?thesis by (simp add: o case_prod_unfold)
qed

end
