(* ===== verification/Registry_Drain.thy ===== *)
theory Registry_Drain
  imports Registry_Durable
begin

text \<open>
  What no step changes in a job, and the progress of the registry as a whole: from any state, whatever its jobs are doing,
  it can be drained.
\<close>

subsection \<open>What a job keeps\<close>

definition job_place :: "Job \<Rightarrow> JobMode \<times> string \<times> string" where
  "job_place j = (jr_Mode (jb_Record j), jr_WorktreePath (jb_Record j), jr_Branch (jb_Record j))"

lemma job_place_simps [simp]:
  "job_place (abort_mark now j) = job_place j" "job_place (cancel_ctx j) = job_place j" "job_place (set_PID pid now j) = job_place j" "job_place (set_RunID found j) = job_place j"
  "job_place (markUnlocked st now j) = job_place j" "job_place (set_terminal st code msg now j) = job_place j"
  "job_place (j\<lparr>jb_updatedAt := u\<rparr>) = job_place j" "job_place (j\<lparr>jb_correlated := c\<rparr>) = job_place j"
  "job_place (j\<lparr>jb_done := d\<rparr>) = job_place j" "job_place (j\<lparr>jb_ctx := x, jb_cancel := y\<rparr>) = job_place j"
  "job_place (j\<lparr>jb_ctx := x\<rparr>) = job_place j" "job_place (j\<lparr>jb_cancel := y\<rparr>) = job_place j"
  "job_place (j\<lparr>jb_Record := (jb_Record j)\<lparr>jr_SessionID := sid\<rparr>\<rparr>) = job_place j"
  "job_place (j\<lparr>jb_Record := (jb_Record j)\<lparr>jr_RunID := rid, jr_SessionID := sid\<rparr>\<rparr>) = job_place j"
  "job_place (j\<lparr>jb_Record := (jb_Record j)\<lparr>jr_RunID := rid, jr_SessionID := sid\<rparr>, jb_updatedAt := u\<rparr>) = job_place j"
  by (simp_all add: job_place_def abort_mark_def cancel_ctx_def set_PID_def set_RunID_def markUnlocked_def set_terminal_def Let_def)

abbreviation places :: "Registry \<Rightarrow> (JobMode \<times> string \<times> string) list" where
  "places r \<equiv> map job_place (rg_mem r)"

lemma place_update [simp]: "job_place y = job_place (xs ! a) \<Longrightarrow> (map job_place xs)[a := job_place y] = map job_place xs"
  by (cases "a < length xs") (simp_all add: list_update_same_conv list_update_beyond)

lemma step_places:
  assumes "step s t" and "length (sy_thr t) = length (sy_thr s)"
  shows "rg_jobs (sy_reg t) = rg_jobs (sy_reg s) \<and> places (sy_reg t) = places (sy_reg s)"
  using assms
proof (induction rule: step.induct)
  case (finish_cs s a st code msg now ok nx r)
  then show ?case
    by (auto simp: finish_locked_def promoteUnlocked_def dequeueUnlocked_def startingUnlocked_def Let_def map_update nth_update_field [of job_place]
        split: option.split list.splits if_splits)
next
  case (finish_end s a nx snap ok pruned dbl r)
  then show ?case using finish_post_eq [OF finish_end(3)] by (cases nx) (simp_all add: map_update)
next
  case (session_event s a sid found now ok resolved r)
  then have "r = snd (correlate_session sid found now ok a (sy_reg s))" by simp
  then show ?case by (simp add: correlate_next_def correlate_exit_def correlate_session_snd map_update nth_update_field [of job_place])
next
  case (poll s a sid found now ok resolved r)
  then have "r = snd (correlate_poll found now ok a (sy_reg s))" by simp
  then show ?case by (simp add: correlate_next_def correlate_exit_def correlate_poll_snd map_update nth_update_field [of job_place])
next
  case (cancel jid now ok s res act dbl r)
  then show ?case
    by (auto simp: Cancel_def Let_def removeFromQueueUnlocked_def do_cancel_after_def cancelled_pc_def map_update nth_update_field [of job_place]
        split: if_splits option.splits CancelAfter.split)
qed (auto simp: start_commit_def attempt_begin_def retry_reset_def retry_commit_def map_update nth_update_field [of job_place] correlate_exit_def
      Close_def Let_def split: if_splits)


subsection \<open>Draining\<close>

text \<open>A step that moves a job on neither registers a job nor closes the registry.\<close>

lemma closed_changes: "Close now ok r = (Some as, r') \<Longrightarrow> rg_closed r'"
  by (auto simp: Close_def Let_def split: if_splits)

lemma step_closed:
  assumes "step s t"
  shows "rg_closed (sy_reg t) = rg_closed (sy_reg s) \<or> rg_closed (sy_reg t) \<and> sy_thr t = sy_thr s"
  using assms
proof (induction rule: step.induct)
  case (finish_cs s a st code msg now ok nx r)
  then show ?case
    by (auto simp: finish_locked_def promoteUnlocked_def dequeueUnlocked_def startingUnlocked_def Let_def
        split: option.split list.splits if_splits)
next
  case (finish_end s a nx snap ok pruned dbl r)
  then show ?case by (auto dest!: finish_post_eq split: option.split)
qed (auto simp: submit_defs case_prod_beta start_commit_def attempt_begin_def retry_reset_def retry_commit_def
      correlate_exit_def correlate_next_def correlate_session_def correlate_poll_def tryResolveRunUnlocked_def
      Cancel_def do_cancel_after_def cancelled_pc_def Close_def split: if_splits option.splits CancelAfter.split)

lemma step_moves_only:
  assumes "step s t" and "sys_inv s" and "valid s a" and "pc_of t a \<noteq> pc_of s a"
  shows "length (sy_thr t) = length (sy_thr s)"
  using assms
proof (cases rule: step.cases)
  case (finish_cs b st code msg now ok nx r)
  then show ?thesis by (simp split: option.split)
next
  case (finish_end b nx snap ok pruned dbl r)
  then show ?thesis by (simp split: option.split)
qed (use assms(3,4) in \<open>auto simp: nth_append\<close>)

text \<open>A launched job is abandoned only by a closed registry.\<close>

definition abandoned_ok :: "Sys \<Rightarrow> bool" where
  "abandoned_ok s \<longleftrightarrow> (\<forall>a. valid s a \<and> pc_of s a = Abandoned \<longrightarrow> rg_closed (sy_reg s))"

lemma step_abandons:
  assumes "step s t" and "valid t a" and "pc_of t a = Abandoned" and "\<not> rg_closed (sy_reg s)"
  shows "valid s a \<and> pc_of s a = Abandoned"
  using assms
proof (cases rule: step.cases)
  case (start_closed b pid now ok r)
  then show ?thesis using assms(4) by (simp add: start_commit_def)
next
  case (finish_cs b st code msg now ok nx r)
  then show ?thesis using assms(2,3) by (cases nx; cases "nx = Some a"; cases "a = b") auto
next
  case (finish_end b nx snap ok pruned dbl r)
  then show ?thesis using assms(2,3) by (cases nx; cases "nx = Some a"; cases "a = b") auto
next
  case (cancel jid now ok res act dbl r)
  then show ?thesis using assms(2,3) by (cases "map_of (rg_jobs (sy_reg s)) jid = Some a") (auto simp: cancelled_pc_def split: option.splits if_splits)
qed (use assms(2,3) in \<open>auto simp: nth_append nth_list_update new_thread_def split: if_splits\<close>)

lemma inv_abandoned: "abandoned_ok s \<Longrightarrow> step s t \<Longrightarrow> abandoned_ok t"
  using step_abandons step_closed unfolding abandoned_ok_def by metis

lemma reachable_abandoned: "reachable s \<Longrightarrow> abandoned_ok s"
proof (rule ts.invariantI [of abandoned_ok])
  show "abandoned_ok s" if "\<exists>cap pid started store. wf_table store \<and> s = init_sys cap pid started store" for s
    using that by (auto simp: abandoned_ok_def init_sys_def)
qed (use inv_abandoned in blast)+

text \<open>One job moves: in one step, or in two when its correlate goroutine has to return first.\<close>

lemma step_moves_open:
  assumes "step s t" and "sys_inv s" and "valid s a" and "rank (pc_of t a) < rank (pc_of s a)"
  shows "length (sy_thr t) = length (sy_thr s) \<and> rg_closed (sy_reg t) = rg_closed (sy_reg s)"
proof -
  have "pc_of t a \<noteq> pc_of s a" using assms(4) by auto
  with step_moves_only [OF assms(1-3)] step_closed [OF assms(1)] show ?thesis by auto
qed

lemma job_moves:
  assumes "reachable s" and "valid s a" and "unfinished (pc_of s a)"
  shows "\<exists>t. step\<^sup>*\<^sup>* s t \<and> length (sy_thr t) = length (sy_thr s) \<and> rg_closed (sy_reg t) = rg_closed (sy_reg s)
    \<and> rank (pc_of t a) < rank (pc_of s a)"
  using job_never_stuck [OF assms]
proof (elim disjE conjE exE)
  fix t assume t: "step s t" "rank (pc_of t a) < rank (pc_of s a)"
  with step_moves_open [OF t(1) reachable_inv [OF assms(1)] assms(2) t(2)] show ?thesis by blast
next
  fix u assume t: "step s (correlate_exit a s)" and u: "step (correlate_exit a s) u" "rank (pc_of u a) < rank (pc_of s a)"
  have c: "rg_closed (sy_reg (correlate_exit a s)) = rg_closed (sy_reg s)" by (simp add: correlate_exit_def)
  have "rank (pc_of u a) < rank (pc_of (correlate_exit a s) a)" "valid (correlate_exit a s) a" using u(2) assms(2) by simp_all
  from step_moves_open [OF u(1) step_inv [OF t reachable_inv [OF assms(1)]] this(2,1)] c
  have "length (sy_thr u) = length (sy_thr s) \<and> rg_closed (sy_reg u) = rg_closed (sy_reg s)" by simp
  moreover have "step\<^sup>*\<^sup>* s u" using t u(1) by (meson r_into_rtranclp rtranclp.rtrancl_into_rtrancl)
  ultimately show ?thesis using u(2) by blast
qed

text \<open>All steps taken together bring the work that is left down.\<close>

definition work_left :: "Sys \<Rightarrow> nat" where
  "work_left s = (\<Sum>a < length (sy_thr s). rank (pc_of s a))"

lemma steps_keep:
  assumes "step\<^sup>*\<^sup>* s t" and "reachable s" and "valid s a"
  shows "reachable t \<and> valid t a \<and> rank (pc_of t a) \<le> rank (pc_of s a)"
  using assms
proof (induction rule: rtranclp_induct)
  case (step t u)
  then have t: "reachable t" "valid t a" "rank (pc_of t a) \<le> rank (pc_of s a)" by blast+
  from step_rank [OF step.hyps(2) reachable_inv [OF t(1)] t(2)] t reachable.more [OF t(1) step.hyps(2)] show ?case by auto
qed simp

lemma steps_length: "step\<^sup>*\<^sup>* s t \<Longrightarrow> reachable s \<Longrightarrow> length (sy_thr s) \<le> length (sy_thr t)"
  using steps_keep [of s t "length (sy_thr t)"] by (auto simp flip: not_less)

lemma steps_reachable: "step\<^sup>*\<^sup>* s t \<Longrightarrow> reachable s \<Longrightarrow> reachable t"
  by (induction rule: rtranclp_induct) (auto intro: reachable.more)

lemma work_decreases:
  assumes "reachable s" and "valid s a" and "unfinished (pc_of s a)"
  shows "\<exists>t. step\<^sup>*\<^sup>* s t \<and> length (sy_thr t) = length (sy_thr s) \<and> rg_closed (sy_reg t) = rg_closed (sy_reg s) \<and> work_left t < work_left s"
proof -
  obtain t where t: "step\<^sup>*\<^sup>* s t" "length (sy_thr t) = length (sy_thr s)" "rg_closed (sy_reg t) = rg_closed (sy_reg s)"
    "rank (pc_of t a) < rank (pc_of s a)"
    using job_moves [OF assms] by blast
  have "work_left t < work_left s"
    unfolding work_left_def t(2)
    by (rule sum_strict_mono_ex1) (use steps_keep [OF t(1) assms(1)] t(4) assms(2) in auto)
  with t show ?thesis by blast
qed

text \<open>While the registry is open and a job is queued or unfinished, some job is unfinished.\<close>

lemma holder_unfinished: "holds p \<Longrightarrow> p \<noteq> Abandoned \<Longrightarrow> unfinished p"
  by (cases p) (simp_all add: holds_def unfinished_def)

lemma some_unfinished:
  assumes "reachable s" and "\<not> rg_closed (sy_reg s)" and "rg_queue (sy_reg s) \<noteq> []"
  shows "\<exists>a. valid s a \<and> unfinished (pc_of s a)"
proof -
  have "0 < count_if (\<lambda>t. holds (th_pc t)) (sy_thr s)"
    using reachable_parts(1,3) [OF assms(1)] cap_positive [OF assms(1)] assms(2,3) by (auto simp: slots_ok_def work_conserving_def)
  then obtain a where "valid s a" "holds (pc_of s a)"
    by (auto simp: count_if_def filter_empty_conv in_set_conv_nth)
  with reachable_abandoned [OF assms(1)] assms(2) show ?thesis
    by (metis abandoned_ok_def holder_unfinished)
qed

lemma steps_jobs:
  "step\<^sup>*\<^sup>* s t \<Longrightarrow> length (sy_thr t) = length (sy_thr s) \<Longrightarrow> reachable s \<Longrightarrow> rg_jobs (sy_reg t) = rg_jobs (sy_reg s)"
proof (induction rule: rtranclp_induct)
  case (step t u)
  have t: "reachable t" by (rule steps_reachable [OF step.hyps(1) step.prems(2)])
  have "step\<^sup>*\<^sup>* t u" using step.hyps(2) by blast
  with steps_length [OF step.hyps(1) step.prems(2)] steps_length [OF _ t]
  have "length (sy_thr s) \<le> length (sy_thr t)" "length (sy_thr t) \<le> length (sy_thr u)" by blast+
  with step step_places [OF step.hyps(2)] show ?case by simp
qed simp

lemma drained:
  "reachable s \<Longrightarrow> \<not> rg_closed (sy_reg s) \<Longrightarrow>
   \<exists>t. step\<^sup>*\<^sup>* s t \<and> length (sy_thr t) = length (sy_thr s) \<and> \<not> rg_closed (sy_reg t) \<and> (\<forall>a. valid t a \<longrightarrow> \<not> unfinished (pc_of t a))"
proof (induction "work_left s" arbitrary: s rule: less_induct)
  case less
  show ?case
  proof (cases "\<exists>a. valid s a \<and> unfinished (pc_of s a)")
    case True
    then obtain u where u: "step\<^sup>*\<^sup>* s u" "length (sy_thr u) = length (sy_thr s)" "rg_closed (sy_reg u) = rg_closed (sy_reg s)"
      "work_left u < work_left s"
      using work_decreases [OF less.prems(1)] by blast
    with less.hyps [OF u(4) steps_reachable [OF u(1) less.prems(1)]] less.prems(2) obtain t where
      "step\<^sup>*\<^sup>* u t" "length (sy_thr t) = length (sy_thr s)" "\<not> rg_closed (sy_reg t)" "\<forall>a. valid t a \<longrightarrow> \<not> unfinished (pc_of t a)"
      by auto
    with u(1) show ?thesis by (meson rtranclp_trans)
  qed (use less.prems(2) in blast)
qed

text \<open>C5: The registry can always be drained. From every reachable state of an open registry, whatever its jobs are doing and however many
  wait, the goroutines that exist can work on, without another submission, until every registered job is terminal with its \<^verbatim>\<open>done\<close>
  closed, the queue is empty and every slot is free: nothing blocks for ever, no slot is lost, and no queued job
  is forgotten.\<close>

theorem registry_drains:
  assumes "reachable s" and "\<not> rg_closed (sy_reg s)"
  shows "\<exists>t. step\<^sup>*\<^sup>* s t \<and> rg_jobs (sy_reg t) = rg_jobs (sy_reg s) \<and> \<not> rg_closed (sy_reg t)
    \<and> rg_queue (sy_reg t) = [] \<and> rg_slots (sy_reg t) = 0 \<and> count_if th_alive (sy_thr t) = 0
    \<and> (\<forall>(jid, a) \<in> set (rg_jobs (sy_reg t)). isTerminal (job_status (jobs_of t ! a)) \<and> jb_done (jobs_of t ! a))"
proof -
  obtain t where t: "step\<^sup>*\<^sup>* s t" "length (sy_thr t) = length (sy_thr s)" "\<not> rg_closed (sy_reg t)" "\<And>a. valid t a \<Longrightarrow> \<not> unfinished (pc_of t a)"
    using drained [OF assms] by blast
  have r: "reachable t" by (rule steps_reachable [OF t(1) assms(1)])
  have q: "rg_queue (sy_reg t) = []" using some_unfinished [OF r t(3)] t(4) by blast
  have over: "pc_of t a \<in> {Exited, Cancelled, Dropped}" if "valid t a" for a
    using t(4) [OF that] reachable_abandoned [OF r] t(3) that q reachable_parts(2) [OF r]
    by (auto simp: unfinished_def abandoned_ok_def queue_ok_def)
  have none: "count_if P (sy_thr t) = 0" if "\<And>a. valid t a \<Longrightarrow> \<not> P (sy_thr t ! a)" for P
    using that by (auto simp: count_if_def filter_empty_conv in_set_conv_nth)
  have "\<not> holds (pc_of t a) \<and> \<not> th_alive (sy_thr t ! a)" if "valid t a" for a
    using over [OF that] reachable_job [OF r that] by (auto simp: holds_def job_ok_def)
  then have "rg_slots (sy_reg t) = 0" "count_if th_alive (sy_thr t) = 0"
    using none [of "\<lambda>t. holds (th_pc t)"] none [of th_alive] reachable_parts(1) [OF r] by (simp_all add: slots_ok_def)
  moreover have "isTerminal (job_status (jobs_of t ! a)) \<and> jb_done (jobs_of t ! a)" if "(jid, a) \<in> set (rg_jobs (sy_reg t))" for jid a
  proof -
    have "valid t a" "pc_of t a \<noteq> Dropped" using reachable_parts(5) [OF r] that by (auto simp: map_ok_def)
    with over [of a] reachable_job [OF r, of a] show ?thesis by (auto simp: job_ok_def isTerminal_def)
  qed
  ultimately show ?thesis using t(1,3) q steps_jobs [OF t(1,2) assms(1)] by blast
qed

theorem registry_drains_witness:
  "\<exists>t. step\<^sup>*\<^sup>* demo3 t \<and> rg_jobs (sy_reg t) = rg_jobs (sy_reg demo3) \<and> length (rg_jobs (sy_reg demo3)) = 2
    \<and> rg_queue (sy_reg t) = [] \<and> rg_slots (sy_reg t) = 0"
proof -
  have "\<not> rg_closed (sy_reg demo3)" "length (rg_jobs (sy_reg demo3)) = 2"
    by (simp_all add: demo3_def demo2_def demo1_def demo_regs)
  with registry_drains [OF demo_reachable3] show ?thesis by blast
qed

end
