(* ===== verification/Service.thy ===== *)
theory Service
  imports Mcp_Server App_Start Registry_Spec Registry_Drain
begin

text \<open>
  \<^verbatim>\<open>pi-mcp\<close> in service: the registry production builds, the goroutines of its jobs, the other servers on the shared table, and
  the tool calls of a client, interleaved. A state is the registry with its goroutines (\<open>Sys\<close>), the MCP server,
  the jobs adapter and the repositories. A tool call is atomic here except for what it observes: its long poll and the
  repositories may see anything.
\<close>

subsection \<open>Tool calls as steps of the registry\<close>

text \<open>The ids a call mints are new: \<^verbatim>\<open>uuid.NewString\<close>.\<close>

definition fresh_ids :: "JobEnv \<Rightarrow> Sys \<Rightarrow> bool" where
  "fresh_ids je s \<longleftrightarrow> je_jid je \<noteq> [] \<and> je_uuid je \<noteq> []
     \<and> tbl_get (rg_store (sy_reg s)) (je_jid je) = None \<and> tbl_get (rg_store (sy_reg s)) (je_uuid je) = None"

text \<open>What a call does to the registry and its goroutines: nothing, one submission, or one cancellation.\<close>

definition call_step :: "ToolCall \<Rightarrow> Sys \<Rightarrow> Sys \<Rightarrow> bool" where
  "call_step call s t \<longleftrightarrow> t = s \<or>
     step s t \<and> (case call of
        CallWorkflow _ \<Rightarrow> length (sy_thr t) = Suc (length (sy_thr s))
      | CallCancel _ \<Rightarrow> length (sy_thr t) = length (sy_thr s)
      | _ \<Rightarrow> False)"

lemma Submit_step:
  assumes "Submit spec uuid now ok (sy_reg s) = (res, r)" and "tbl_get (rg_store (sy_reg s)) (jr_JobID (jb_Record (NewJob spec uuid now))) = None"
  shows "\<exists>t. step s t \<and> sy_reg t = r \<and> length (sy_thr t) = Suc (length (sy_thr s))
    \<and> (case res of Inr (b, admitted) \<Rightarrow> sy_thr t = sy_thr s @ [new_thread (if admitted then Starting else InQueue)]
       | Inl _ \<Rightarrow> sy_thr t = sy_thr s @ [new_thread Dropped])"
proof (cases res)
  case (Inl e)
  with step.submit_fail [OF assms(1) [unfolded Inl]] show ?thesis by (intro exI conjI) (assumption, simp_all)
next
  case (Inr x)
  obtain b admitted where x: "x = (b, admitted)" by (cases x)
  have "step s (s\<lparr>sy_reg := r, sy_dirty := \<not> ok, sy_thr := sy_thr s @ [new_thread (if admitted then Starting else InQueue)]\<rparr>)"
    by (rule step.submit_ok [OF assms(1) [unfolded Inr x]]) (simp add: assms(2))
  with Inr x show ?thesis by (intro exI conjI) (assumption, simp_all)
qed

lemma reg_Submit_reg:
  "reg_Submit spec uuid now ok a = (res, a') \<Longrightarrow>
   \<exists>res'. Submit spec uuid now ok (ad_reg a) = (res', ad_reg a') \<and> ad_handles a' = ad_handles a
     \<and> (case res' of Inl e \<Rightarrow> res = Inl (AdPersist e) | Inr x \<Rightarrow> res = Inr x)"
  by (auto simp: reg_Submit_def split: prod.splits sum.splits)

text \<open>The job a submission registers, or none.\<close>

lemma NewJob_id: "jr_JobID (jb_Record (NewJob spec uuid now)) = (if sp_PreassignedID spec = [] then uuid else sp_PreassignedID spec)"
  by (simp add: NewJob_def Let_def)

lemma adapter_Submit_cases:
  assumes "adapter_Submit os base jid uuid now ok inp (a, w) = (res, a', w')"
  obtains (rejected) e where "a' = a" and "res = Inl e"
  | (read) "JobSpec.js_Mode inp \<noteq> ModeWrite" and "reg_Submit (adapter_spec inp) uuid now ok a = (res, a')"
  | (worktree) mgr h w1 where "JobSpec.js_Mode inp = ModeWrite" and "Create os base mgr jid w1 = (Inr h, w')"
      and "reg_Submit (write_spec jid h (adapter_spec inp)) uuid now ok (remember jid mgr h a) = (res, a')"
  using assms by (auto simp: adapter_Submit_def split: if_splits prod.splits sum.splits)

lemma reg_Submit_step:
  assumes "reg_Submit spec (je_uuid je) now ok b = (res, a')" and "ad_reg b = sy_reg s"
    and "fresh_ids je s" and "sp_PreassignedID spec \<in> {[], je_jid je}"
  shows "\<exists>t. step s t \<and> sy_reg t = ad_reg a' \<and> length (sy_thr t) = Suc (length (sy_thr s))"
proof -
  obtain res' where sub: "Submit spec (je_uuid je) now ok (sy_reg s) = (res', ad_reg a')"
    using reg_Submit_reg [OF assms(1)] assms(2) by auto
  have "tbl_get (rg_store (sy_reg s)) (jr_JobID (jb_Record (NewJob spec (je_uuid je) now))) = None"
    using assms(3,4) by (auto simp: NewJob_id fresh_ids_def)
  from Submit_step [OF sub this] show ?thesis by blast
qed

lemma adapter_Submit_step:
  assumes "ad_reg a = sy_reg s" and "fresh_ids je s"
    and "adapter_Submit os base (je_jid je) (je_uuid je) now ok inp (a, w) = (res, a', w')"
  shows "(a' = a \<and> (\<exists>e. res = Inl e))
    \<or> (\<exists>t. step s t \<and> sy_reg t = ad_reg a' \<and> length (sy_thr t) = Suc (length (sy_thr s)))"
  using assms(3)
proof (cases rule: adapter_Submit_cases)
  case read
  from reg_Submit_step [OF this(2) assms(1,2)] show ?thesis by (simp add: adapter_spec_def)
next
  case (worktree mgr h w1)
  from reg_Submit_step [OF this(3) _ assms(2)] show ?thesis using assms(1) by (simp add: remember_def write_spec_def)
qed simp


lemma call_workflow_cases:
  assumes "call_tool os addAll je ob fuel (CallWorkflow inp) (srv, a, w) = Some (res, srv', a', w')"
  shows "srv' = srv \<and> (a' = a \<and> w' = w
    \<or> (\<exists>spec r. adapter_Submit os (je_base je) (je_jid je) (je_uuid je) (ca_now ob) (je_ok je) spec (a, w) = (r, a', w')))"
proof -
  let ?submit = "submit_record (je_errtext je) os (je_base je) (je_jid je) (je_uuid je) (ca_now ob) (je_ok je)"
  have "\<exists>r. adapter_Submit os (je_base je) (je_jid je) (je_uuid je) (ca_now ob) (je_ok je) spec (a, w) = (r, a1, w1)"
    if "?submit spec (a, w) = (x, a1, w1)" for spec x a1 w1
    using that by (auto simp: submit_record_def split: prod.splits sum.splits)
  moreover have "handleWorkflow (ca_fs ob) ?submit inp (a, w) = (x, a1, w1) \<Longrightarrow>
      (a1, w1) = (a, w) \<or> (\<exists>spec y. ?submit spec (a, w) = (y, a1, w1))" for x a1 w1
    by (auto simp: handleWorkflow_def split: if_splits sum.splits prod.splits)
  moreover obtain x a1 w1 where "handleWorkflow (ca_fs ob) ?submit inp (a, w) = (x, a1, w1)" by (metis prod.collapse)
  moreover from this have "srv' = srv \<and> a' = a1 \<and> w' = w1" using assms by (simp add: call_tool_def)
  ultimately show ?thesis by blast
qed

lemma call_cancel_cases:
  assumes "call_tool os addAll je ob fuel (CallCancel jid) (srv, a, w) = Some (res, srv', a', w')"
  shows "srv' = srv \<and> w' = w \<and> ad_handles a' = ad_handles a \<and> (ad_reg a' = ad_reg a
    \<or> ad_reg a' = snd (snd (snd (Cancel jid (ca_now ob) (je_ok je) (ad_reg a)))))"
  using assms
  by (auto simp: call_tool_def handleCancel_def cancel_record_def registry_cancel_def split: if_splits prod.splits option.splits)

lemma call_read_cases:
  assumes "call_tool os addAll je ob fuel call (srv, a, w) = Some (res, srv', a', w')"
    and "(\<exists>inp. call = CallStatus inp) \<or> (\<exists>inp. call = CallList inp)"
  shows "a' = a"
  using assms by (auto simp: call_tool_def Let_def)

lemma Cancel_step:
  "\<exists>t. step s t \<and> sy_reg t = snd (snd (snd (Cancel jid now ok (sy_reg s)))) \<and> length (sy_thr t) = length (sy_thr s)"
proof -
  obtain res act dbl r where c: "Cancel jid now ok (sy_reg s) = (res, act, dbl, r)" by (metis prod.collapse)
  have len: "length (sy_thr (do_cancel_after act t)) = length (sy_thr t)" for t
    by (simp add: do_cancel_after_def split: CancelAfter.split)
  show ?thesis using step.cancel [OF c] by (intro exI conjI) (assumption, simp_all add: c len)
qed

lemma call_tool_step:
  assumes "ad_reg a = sy_reg s" and "fresh_ids je s"
    and "call_tool os addAll je ob fuel call (srv, a, w) = Some (res, srv', a', w')"
  shows "\<exists>t. call_step call s t \<and> sy_reg t = ad_reg a'"
proof (cases call)
  case (CallWorkflow inp)
  have "a' = a \<or> (\<exists>t. step s t \<and> sy_reg t = ad_reg a' \<and> length (sy_thr t) = Suc (length (sy_thr s)))"
    using call_workflow_cases [OF assms(3) [unfolded CallWorkflow]] adapter_Submit_step [OF assms(1,2), where w = w and a' = a' and w' = w' and os = os] by blast
  then show ?thesis
    by (elim disjE exE conjE) (auto simp: call_step_def CallWorkflow assms(1))
next
  case (CallCancel jid)
  obtain t where "step s t" "sy_reg t = snd (snd (snd (Cancel jid (ca_now ob) (je_ok je) (sy_reg s))))" "length (sy_thr t) = length (sy_thr s)"
    using Cancel_step by blast
  with call_cancel_cases [OF assms(3) [unfolded CallCancel]] assms(1) show ?thesis
    by (auto simp: call_step_def CallCancel)
qed (use call_read_cases [OF assms(3)] assms(1) in \<open>auto simp: call_step_def\<close>)

subsection \<open>The service\<close>

text \<open>From the start of \<^verbatim>\<open>main\<close>, once the registry is built and the first sweep is done: goroutines work, other
  servers use the table, clients call tools and anybody changes the repositories. New jobs come from calls only.\<close>

inductive serving :: "'w Os \<Rightarrow> (string \<Rightarrow> 'w \<Rightarrow> 'w) \<Rightarrow> Sys \<Rightarrow> McpServer \<Rightarrow> jobsAdapter \<Rightarrow> 'w \<Rightarrow> bool"
  for os :: "'w Os" and addAll :: "string \<Rightarrow> 'w \<Rightarrow> 'w" where
  boot:
    "wf_table (df_rows db) \<Longrightarrow> buildRegistryReal getenv TempDir sos pid started db = (Inr reg, db1) \<Longrightarrow>
     s = init_sys DefaultConcurrencyCap pid started (sweep_table pid started readOk env (df_rows db1)) \<Longrightarrow>
     serving os addAll s (mcp_New getenv parse) \<lparr>ad_reg = sy_reg s, ad_handles = []\<rparr> w"
| work:
    "serving os addAll s srv a w \<Longrightarrow> step s t \<Longrightarrow> length (sy_thr t) = length (sy_thr s) \<Longrightarrow>
     serving os addAll t srv (a\<lparr>ad_reg := sy_reg t\<rparr>) w"
| tool:
    "serving os addAll s srv a w \<Longrightarrow> fresh_ids je s \<Longrightarrow>
     call_tool os addAll je ob fuel call (srv, a, w) = Some (res, srv', a', w') \<Longrightarrow>
     call_step call s t \<Longrightarrow> sy_reg t = ad_reg a' \<Longrightarrow> serving os addAll t srv' a' w'"
| repositories:
    "serving os addAll s srv a w \<Longrightarrow> serving os addAll s srv a w'"


subsection \<open>The home of a write job\<close>

lemma Submit_places:
  assumes "Submit spec uuid now ok r = (res, r')"
  shows "places r' = places r @ [(sp_Mode spec, sp_Worktree spec, sp_Branch spec)]
    \<and> map_of (rg_jobs r') = (map_of (rg_jobs r))((if sp_PreassignedID spec = [] then uuid else sp_PreassignedID spec) :=
        if ok then Some (length (rg_mem r)) else None)"
proof -
  define j where "j = NewJob spec uuid now"
  have j: "job_place j = (sp_Mode spec, sp_Worktree spec, sp_Branch spec)" "jr_JobID (jb_Record j) = (if sp_PreassignedID spec = [] then uuid else sp_PreassignedID spec)"
    by (simp_all add: j_def job_place_def NewJob_def Let_def)
  have "r' = snd (Submit spec uuid now ok r)" using assms by simp
  then show ?thesis
    unfolding Submit_def j_def [symmetric]
    by (cases ok; cases "rg_slots r < rg_cap r")
      (auto simp: j tryAdmitUnlocked_def startingUnlocked_def removeFromQueueUnlocked_def flushUnlocked_def UpsertJobs_def Let_def upd_job_def
        list_update_append AList.update_conv AList.delete_conv simp flip: j(1))
qed

text \<open>The worktree of every write job is one the adapter created for it.\<close>

definition homes_ok :: "Registry \<Rightarrow> jobsAdapter \<Rightarrow> bool" where
  "homes_ok r a \<longleftrightarrow> (\<forall>jid b. map_of (rg_jobs r) jid = Some b \<and> fst (places r ! b) = ModeWrite \<longrightarrow>
     (\<exists>wh. handle_of jid a = Some wh \<and> hd_Branch (wh_h wh) = branchFor jid
        \<and> places r ! b = (ModeWrite, hd_Path (wh_h wh), branchFor jid)))"

lemma Create_branch: "Create os base mgr jid w = (Inr h, w') \<Longrightarrow> hd_Branch h = branchFor jid"
  by (auto simp: Create_def Let_def split: prod.splits sum.splits if_splits option.splits)

lemma homes_submit:
  assumes "homes_ok r a" and "\<And>jid b. map_of (rg_jobs r) jid = Some b \<Longrightarrow> b < length (rg_mem r)"
    and "Submit spec uuid now ok r = (res, r')"
    and "\<And>j. j \<noteq> (if sp_PreassignedID spec = [] then uuid else sp_PreassignedID spec) \<Longrightarrow> handle_of j a' = handle_of j a"
    and "sp_Mode spec = ModeWrite \<Longrightarrow> \<exists>wh. handle_of (sp_PreassignedID spec) a' = Some wh \<and> sp_PreassignedID spec \<noteq> []
           \<and> hd_Branch (wh_h wh) = branchFor (sp_PreassignedID spec)
           \<and> sp_Worktree spec = hd_Path (wh_h wh) \<and> sp_Branch spec = branchFor (sp_PreassignedID spec)"
  shows "homes_ok r' a'"
  unfolding homes_ok_def
proof (intro allI impI, elim conjE)
  fix jid b
  assume jid: "map_of (rg_jobs r') jid = Some b" and w: "fst (places r' ! b) = ModeWrite"
  note P = Submit_places [OF assms(3)]
  show "\<exists>wh. handle_of jid a' = Some wh \<and> hd_Branch (wh_h wh) = branchFor jid \<and> places r' ! b = (ModeWrite, hd_Path (wh_h wh), branchFor jid)"
  proof (cases "jid = (if sp_PreassignedID spec = [] then uuid else sp_PreassignedID spec)")
    case True
    then have "b = length (rg_mem r)" using jid P by (simp split: if_splits)
    then have pl: "places r' ! b = (sp_Mode spec, sp_Worktree spec, sp_Branch spec)" using P by (simp add: nth_append)
    then have "sp_Mode spec = ModeWrite" using w by simp
    from assms(5) [OF this] show ?thesis using pl True \<open>sp_Mode spec = ModeWrite\<close> by auto
  next
    case False
    then have old: "map_of (rg_jobs r) jid = Some b" using jid P by simp
    then have "places r' ! b = places r ! b" using P assms(2) [OF old] by (simp add: nth_append)
    then show ?thesis using assms(1,4) old w False by (auto simp: homes_ok_def)
  qed
qed


lemma homes_adapter_Submit:
  assumes "homes_ok (ad_reg a) a" and "\<And>jid b. map_of (rg_jobs (ad_reg a)) jid = Some b \<Longrightarrow> b < length (rg_mem (ad_reg a))"
    and "adapter_Submit os base jid uuid now ok inp (a, w) = (res, a', w')" and "jid \<noteq> []"
  shows "homes_ok (ad_reg a') a'"
  using assms(3)
proof (cases rule: adapter_Submit_cases)
  case (rejected e)
  with assms(1) show ?thesis by simp
next
  case read
  obtain res' where sub: "Submit (adapter_spec inp) uuid now ok (ad_reg a) = (res', ad_reg a')" "ad_handles a' = ad_handles a"
    using reg_Submit_reg [OF read(2)] by blast
  show ?thesis
    by (rule homes_submit [OF assms(1,2) sub(1)]) (use read(1) sub(2) in \<open>simp_all add: handle_of_def adapter_spec_def\<close>)
next
  case (worktree mgr h w1)
  let ?b = "remember jid mgr h a"
  obtain res' where sub: "Submit (write_spec jid h (adapter_spec inp)) uuid now ok (ad_reg a) = (res', ad_reg a')" "ad_handles a' = ad_handles ?b"
    using reg_Submit_reg [OF worktree(3)] by (auto simp: remember_def)
  have new: "handle_of j a' = (if j = jid then Some \<lparr>wh_mgr = mgr, wh_h = h\<rparr> else handle_of j a)" for j
    using sub(2) by (simp add: handle_of_def remember_def AList.update_conv)
  show ?thesis
    by (rule homes_submit [OF assms(1,2) sub(1)])
      (use assms(4) Create_branch [OF worktree(2)] in \<open>auto simp: new write_spec_def adapter_spec_def\<close>)
qed

lemma homes_cong: "homes_ok r a \<Longrightarrow> rg_jobs r' = rg_jobs r \<Longrightarrow> places r' = places r \<Longrightarrow> ad_handles a' = ad_handles a \<Longrightarrow> homes_ok r' a'"
  by (simp add: homes_ok_def handle_of_def)

definition service_ok :: "Sys \<Rightarrow> McpServer \<Rightarrow> jobsAdapter \<Rightarrow> bool" where
  "service_ok s srv a \<longleftrightarrow> reachable s \<and> ad_reg a = sy_reg s \<and> homes_ok (sy_reg s) a
     \<and> rg_cap (sy_reg s) = nat DefaultConcurrencyCap \<and> ms_pidAlive srv = Some (\<lambda>_. True)"

lemma service_step:
  assumes "service_ok s srv a" and "step s t" and "length (sy_thr t) = length (sy_thr s)"
    and "ad_reg a' = sy_reg t" and "ad_handles a' = ad_handles a" and "ms_pidAlive srv' = ms_pidAlive srv"
  shows "service_ok t srv' a'"
proof -
  have "homes_ok (sy_reg s) a" using assms(1) by (simp add: service_ok_def)
  then have "homes_ok (sy_reg t) a'" by (rule homes_cong) (use step_places [OF assms(2,3)] assms(5) in simp_all)
  with assms(1,4,6) reachable.more [OF _ assms(2)] cap_constant [OF assms(2)] show ?thesis
    by (simp add: service_ok_def)
qed

lemma boot_ok:
  assumes "wf_table (df_rows db)" and "buildRegistryReal getenv TempDir sos pid started db = (Inr reg, db1)"
  shows "wf_table (df_rows db1)"
proof -
  obtain path res where "OpenStore sos path db = (Inr res, db1)"
    using assms(2) by (auto simp: buildRegistryReal_def split: sum.splits prod.splits)
  then show ?thesis
    using migrate_wf [OF assms(1)] by (auto simp: OpenStore_def Let_def split: option.splits if_splits prod.splits) (metis fst_conv)+
qed

lemma serving_ok: "serving os addAll s srv a w \<Longrightarrow> service_ok s srv a"
proof (induction rule: serving.induct)
  case (boot db getenv TempDir sos pid started reg db1 s readOk env parse w)
  have "reachable s" unfolding boot(3) by (rule reachable.init [OF sweep_wf [OF boot_ok [OF boot(1,2)]]])
  then show ?case
    by (simp add: service_ok_def homes_ok_def boot(3) init_sys_def NewRegistry_def Let_def mcp_New_def DefaultConcurrencyCap_def)
next
  case (work s srv a w t)
  from service_step [OF work.IH work(2,3)] show ?case by simp
next
  case (tool s srv a w je ob fuel call res srv' a' w' t)
  note ok = tool.IH [unfolded service_ok_def]
  have probe: "ms_pidAlive srv' = ms_pidAlive srv" using call_tool_probe [OF tool(3)] by simp
  show ?case
  proof (cases call)
    case (CallWorkflow inp)
    have idx: "map_of (rg_jobs (ad_reg a)) jid = Some b \<Longrightarrow> b < length (rg_mem (ad_reg a))" for jid b
      using map_okD [OF reachable_parts(5)] reachable_length ok by fastforce
    have "homes_ok (ad_reg a') a'"
      using call_workflow_cases [OF tool(3) [unfolded CallWorkflow]] homes_adapter_Submit [OF _ idx] ok tool(2)
      by (auto simp: fresh_ids_def)
    moreover have "reachable t \<and> rg_cap (sy_reg t) = rg_cap (sy_reg s)"
      using tool(4) ok reachable.more cap_constant by (auto simp: call_step_def)
    ultimately show ?thesis using tool(5) probe ok by (simp add: service_ok_def)
  next
    case (CallCancel jid)
    note c = call_cancel_cases [OF tool(3) [unfolded CallCancel]]
    show ?thesis
    proof (cases "t = s")
      case True
      with c ok tool(5) probe homes_cong [of "sy_reg s" a "sy_reg s" a'] show ?thesis by (simp add: service_ok_def)
    next
      case False
      then have "step s t" "length (sy_thr t) = length (sy_thr s)" using tool(4) by (simp_all add: call_step_def CallCancel)
      from service_step [OF tool.IH this] show ?thesis using c tool(5) probe by simp
    qed
  next
    case (CallStatus inp)
    with call_read_cases [OF tool(3)] tool(4,5) ok probe show ?thesis by (simp add: service_ok_def call_step_def)
  next
    case (CallList inp)
    with call_read_cases [OF tool(3)] tool(4,5) ok probe show ?thesis by (simp add: service_ok_def call_step_def)
  qed
qed




text \<open>A service on an empty database.\<close>

definition sunny_reg :: Registry where
  "sunny_reg = NewRegistry DefaultConcurrencyCap 100 ''s'' []"

lemma sunny_serving:
  "\<exists>s. serving toy_os (\<lambda>_. id) s prod_srv \<lparr>ad_reg = sunny_reg, ad_handles = []\<rparr> toy_repo \<and> fresh_ids (mini_env\<lparr>je_jid := ''j8''\<rparr>) s"
proof -
  let ?db = "\<lparr>df_cols = schema_cols, df_rows = []\<rparr>"
  have b: "buildRegistryReal (\<lambda>_. []) ''/tmp'' sunny_os 100 ''s'' ?db = (Inr (NewRegistry DefaultConcurrencyCap 100 ''s'' []),
      ?db\<lparr>df_cols := ensureRunSnapshotColumn schema_cols\<rparr>)"
    by (simp add: buildRegistryReal_def statePaths_def sunny_os_def OpenStore_def migrateLegacyJSON_def Let_def schema_cols_def)
  have "sweep_table 100 ''s'' False demo_env [] = []" by (simp add: Reconcile_def AllJobs_def)
  with serving.boot [OF _ b refl, where os = toy_os and addAll = "\<lambda>_. id" and readOk = False and env = demo_env
      and parse = "\<lambda>_. None" and w = toy_repo]
  have "serving toy_os (\<lambda>_. id) (init_sys DefaultConcurrencyCap 100 ''s'' []) prod_srv \<lparr>ad_reg = sunny_reg, ad_handles = []\<rparr> toy_repo"
    by (simp add: wf_table_def sunny_reg_def prod_srv_def init_sys_def)
  moreover have "fresh_ids (mini_env\<lparr>je_jid := ''j8''\<rparr>) (init_sys DefaultConcurrencyCap 100 ''s'' [])"
    by (simp add: fresh_ids_def mini_env_def init_sys_def NewRegistry_def Let_def tbl_get_def)
  ultimately show ?thesis by blast
qed




end
