(* ===== verification/Write_Job.thy ===== *)
theory Write_Job
  imports Service
begin

text \<open>
  The life of a write job's worktree: created before the job is submitted, named by its record through
  every interleaving of the registry, and removed by the prune that follows an abort, whatever the job and
  other jobs did to the repository meanwhile.
\<close>

lemma NewManager_keeps:
  assumes "query_law os view" and "NewManager os cwd w = (Inr mgr, w0)"
  shows "view w0 = view w"
proof -
  obtain r w1 where r: "runGitIn os cwd [''rev-parse'', ''--is-inside-work-tree''] w = (r, w1)" by fastforce
  with assms(2) query_keeps [OF assms(1) is_query_simps(1) r] show ?thesis
    by (cases r) (auto simp: NewManager_def split: if_splits)
qed

subsection \<open>A record keeps its place\<close>

lemma step_places_grow:
  assumes "step s t"
  shows "prefix (places (sy_reg s)) (places (sy_reg t))"
proof (cases "length (sy_thr t) = length (sy_thr s)")
  case True
  with step_places [OF assms] show ?thesis by simp
next
  case False
  from assms obtain spec uuid now ok res r where "Submit spec uuid now ok (sy_reg s) = (res, r)" "sy_reg t = r"
  proof (cases rule: step.cases)
  qed (use False in \<open>auto split: option.splits\<close>)
  with Submit_places show ?thesis by (auto simp: prefix_def)
qed

lemma steps_places_grow: "step\<^sup>*\<^sup>* s t \<Longrightarrow> prefix (places (sy_reg s)) (places (sy_reg t))"
  by (induction rule: rtranclp_induct) (auto dest: step_places_grow intro: prefix_order.trans)

text \<open>The submission of a write job: its place is the worktree just created.\<close>

lemma adapter_Submit_write:
  assumes "adapter_Submit os base jid uuid now ok inp (a, w) = (Inr (b, admitted), a1, w1)" and "JobSpec.js_Mode inp = ModeWrite"
  obtains mgr h w0 where "NewManager os (JobSpec.js_CWD inp) w = (Inr mgr, w0)" and "Create os base mgr jid w0 = (Inr h, w1)"
    and "b = length (rg_mem (ad_reg a))" and "places (ad_reg a1) = places (ad_reg a) @ [(ModeWrite, hd_Path h, hd_Branch h)]"
proof -
  obtain mgr w0 where m: "NewManager os (JobSpec.js_CWD inp) w = (Inr mgr, w0)"
    using assms by (auto simp: adapter_Submit_def split: prod.splits sum.splits)
  obtain h where h: "Create os base mgr jid w0 = (Inr h, w1)"
      and "reg_Submit (write_spec jid h (adapter_spec inp)) uuid now ok (remember jid mgr h a) = (Inr (b, admitted), a1)"
    using assms m by (auto simp: adapter_Submit_def split: prod.splits sum.splits)
  then have sub: "Submit (write_spec jid h (adapter_spec inp)) uuid now ok (ad_reg a) = (Inr (b, admitted), ad_reg a1)"
    by (auto simp: reg_Submit_def remember_def split: prod.splits sum.splits)
  have ok: "ok" using sub by (auto simp: Submit_def Let_def flushUnlocked_def UpsertJobs_def split: if_splits prod.splits)
  with Submit_registers sub have "b = length (rg_mem (ad_reg a))" by fastforce
  moreover have "places (ad_reg a1) = places (ad_reg a) @ [(ModeWrite, hd_Path h, hd_Branch h)]"
    using Submit_places [OF sub] assms(2) by (simp add: write_spec_def adapter_spec_def)
  ultimately show thesis using that m h by blast
qed

subsection \<open>From submission to prune\<close>


text \<open>A second job of a server with one slot, cancelled in the queue.\<close>

definition wj_inp :: JobSpec where
  "wj_inp = JobSpec.make ''t'' ModeWrite ''/r'' []"

lemma wj_inp_simps [simp]: "JobSpec.js_Mode wj_inp = ModeWrite" "JobSpec.js_CWD wj_inp = ''/r''" "JobSpec.js_Task wj_inp = ''t''"
    "JobSpec.js_Context wj_inp = []"
  by (simp_all add: wj_inp_def JobSpec.defs)

definition wj_repo :: GitView where "wj_repo = toy_repo\<lparr>gv_paths := {''/r'', ''/s''}\<rparr>"

definition wj_reg :: Registry where
  "wj_reg = snd (Submit (write_spec ''7'' toy_handle (adapter_spec wj_inp)) [] 5 True (sy_reg demo1))"

definition wj_adapter :: jobsAdapter where
  "wj_adapter = remember ''7'' \<lparr>mg_repoCWD = ''/r''\<rparr> toy_handle \<lparr>ad_reg = sy_reg demo1, ad_handles = []\<rparr>"

lemma wj_submit:
  "Submit (write_spec ''7'' toy_handle (adapter_spec wj_inp)) [] 5 True (sy_reg demo1) = (Inr (1, False), wj_reg)"
  "adapter_Submit toy_os ''/s'' ''7'' [] 5 True wj_inp (\<lparr>ad_reg = sy_reg demo1, ad_handles = []\<rparr>, toy_repo)
     = (Inr (1, False), wj_adapter\<lparr>ad_reg := wj_reg\<rparr>, add_tree ''/s/job-7'' ''pi-mcp/job-7'' wj_repo)"
proof -
  show s: "Submit (write_spec ''7'' toy_handle (adapter_spec wj_inp)) [] 5 True (sy_reg demo1) = (Inr (1, False), wj_reg)"
    by (simp add: wj_reg_def demo1_def demo_regs write_spec_def adapter_spec_def toy_handle_def)
  have "TrimSpace ''true'' = ''true''" by (rule TrimSpace_printable) (simp_all add: printable_def)
  then have "NewManager toy_os ''/r'' toy_repo = (Inr \<lparr>mg_repoCWD = ''/r''\<rparr>, toy_repo)"
    by (simp add: NewManager_def runGitIn_def toy_os_def toy_git_def)
  then show "adapter_Submit toy_os ''/s'' ''7'' [] 5 True wj_inp (\<lparr>ad_reg = sy_reg demo1, ad_handles = []\<rparr>, toy_repo)
     = (Inr (1, False), wj_adapter\<lparr>ad_reg := wj_reg\<rparr>, add_tree ''/s/job-7'' ''pi-mcp/job-7'' wj_repo)"
    using s toy_Create by (simp add: adapter_Submit_def reg_Submit_def wj_adapter_def remember_def wj_repo_def)
qed

lemma wj_cancel:
  "\<exists>res r. Cancel ''7'' 6 True wj_reg = (res, PruneWorktree 1, False, r)
     \<and> jr_WorktreePath (jb_Record (rg_mem r ! 1)) = ''/s/job-7'' \<and> jr_Branch (jb_Record (rg_mem r ! 1)) = ''pi-mcp/job-7''"
  by (simp add: Cancel_def wj_reg_def demo1_def demo_regs write_spec_def adapter_spec_def toy_handle_def isTerminal_def
      removeFromQueueUnlocked_def abort_mark_def)


end
