(* ===== verification/Spec2Isabelle.thy ===== *)
theory Spec2Isabelle
  imports Registry_Props Registry_Durable Registry_Spec Reconcile Mcp_Handlers Mcp_Delta Mcp_Coerce Mcp_Status_Props
    Pi_Stream Launcher Watch Worktree App_Jobs Work_Scan Dash_Hub Dash_Cache Dash_State Dash_Poller Dash_Net
    Mcp_Server Mcp_Session Dash_Server App_Start Service Write_Job
begin

text \<open>
  A verification library for \<^verbatim>\<open>pi-mcp\<close>, an MCP server that delegates tasks to the \<^verbatim>\<open>pi\<close> workflow engine, and for its
  dashboard. File and function names refer to the Go sources.

  \<^bold>\<open>The program.\<close> \<^verbatim>\<open>cmd/pi-mcp\<close> serves four tools. \<^verbatim>\<open>pi_workflow\<close> validates its input (\<^verbatim>\<open>mcpserver/validate.go\<close>) and submits a
  job; for a write job the adapter (\<^verbatim>\<open>app/jobs_adapter.go\<close>) first creates a git worktree (\<^verbatim>\<open>worktree\<close>). The registry
  (\<^verbatim>\<open>jobs\<close>) admits at most \<^verbatim>\<open>cap\<close> jobs, queues the others, and runs each on its own goroutines: launch \<^verbatim>\<open>pi\<close> (\<^verbatim>\<open>runner\<close>,
  \<^verbatim>\<open>app/launcher.go\<close>), parse its output (\<^verbatim>\<open>parser\<close>), find its run file (\<^verbatim>\<open>runstore\<close>), retry a failed authoring, finish,
  promote the next. Every change is written through to a SQLite table (\<^verbatim>\<open>jobs/store.go\<close>) that several servers share;
  each server sweeps the rows of dead owners (\<^verbatim>\<open>jobs/reconcile.go\<close>). \<^verbatim>\<open>pi_status\<close> reads the run file, the registry and the
  worktree, delivers the journal as a delta, and can wait for a change. \<^verbatim>\<open>cmd/pi-dashboard\<close> reads the same table and the
  same run files (\<^verbatim>\<open>dashboard\<close>) and pushes the fleet's state to its clients.

  \<^bold>\<open>Theories and code.\<close> In the order of their imports:
  \<^item> \<open>Prelude\<close>, \<open>Go_Lib\<close>, \<open>Go_Path\<close>, \<open>Go_Float\<close>: shared lemmas and named collections; what is used of Go's \<^verbatim>\<open>strings\<close>, \<^verbatim>\<open>strconv\<close>,
    \<^verbatim>\<open>time\<close>, \<^verbatim>\<open>errors\<close>, \<^verbatim>\<open>path/filepath\<close>; binary64 rounding.
  \<^item> \<open>Config\<close>, \<open>Model\<close>: \<^verbatim>\<open>config\<close> and \<^verbatim>\<open>model\<close>; each struct is a record with the fields of the source.
  \<^item> \<open>Live_Status\<close>: \<^verbatim>\<open>livestatus\<close>, \<^verbatim>\<open>jobs/liveness.go\<close>, \<^verbatim>\<open>mcpserver/status_map.go\<close>. \<open>Run_Store\<close>: \<^verbatim>\<open>runstore\<close>. \<open>Reg_Store\<close>: the statements
    of \<^verbatim>\<open>jobs/store.go\<close> on the table.
  \<^item> \<open>Registry\<close>: the state of \<^verbatim>\<open>jobs/registry.go\<close>, \<^verbatim>\<open>job.go\<close> and \<^verbatim>\<open>cancel.go\<close> as a record over an explicit store of job objects (the code
    aliases \<^verbatim>\<open>*Job\<close> in the map, the queue and the goroutines) and one definition per critical section.
    \<open>Registry_Steps\<close>: the goroutines as threads with a control point each, and the relation \<open>step\<close>: one critical section
    or channel operation of one goroutine, or a change other servers make to the shared table, in any order. \<open>Registry_Inv\<close> and \<open>Registry_Global\<close>: the invariant, per job and across jobs.
    \<open>Registry_Props\<close>, \<open>Registry_Durable\<close>: what follows for reachable states. \<open>Registry_Drain\<close>: progress of the whole. \<open>Registry_Spec\<close>: the abstract scheduler (running
    jobs, a queue) and the simulation of every step by it.
  \<^item> \<open>Reconcile\<close>: the sweep, and any number of servers sweeping one table.
  \<^item> \<open>Mcp_Handlers\<close>, \<open>Mcp_Delta\<close>, \<open>Mcp_Coerce\<close>, \<open>Mcp_Status\<close>, \<open>Mcp_Status_Props\<close>, \<open>Mcp_Server\<close>: \<^verbatim>\<open>mcpserver\<close>, one handler per definition, the
    server's state with its delta tracker, and a tool call on server, registry and repositories. \<open>Mcp_Session\<close>: a sequence of
    \<^verbatim>\<open>pi_status\<close> calls.
  \<^item> \<open>Pi_Stream\<close>, \<open>Launcher\<close>: \<^verbatim>\<open>runner\<close>, \<^verbatim>\<open>parser\<close>, \<^verbatim>\<open>app/launcher.go\<close>; the observer and the writer of the authoring file as an interleaving.
  \<^item> \<open>Watch\<close>: \<^verbatim>\<open>watch\<close>. \<open>Worktree\<close>: \<^verbatim>\<open>worktree\<close>. \<open>App_Jobs\<close>, \<open>Work_Scan\<close>, \<open>App_Start\<close>: \<^verbatim>\<open>app\<close>, both scans of a worktree, the opening of
    the store and the start of both programs.
  \<^item> \<open>Dash_Cache\<close>, \<open>Dash_State\<close>, \<open>Dash_Hub\<close>, \<open>Dash_Poller\<close>, \<open>Dash_Net\<close>, \<open>Dash_Server\<close>: \<^verbatim>\<open>dashboard\<close>.
  \<^item> \<open>Service\<close>: \<^verbatim>\<open>pi-mcp\<close> in operation, the tool calls of \<open>Mcp_Server\<close> interleaved with the steps of the registry that \<open>App_Start\<close> built.
    \<open>Write_Job\<close>: the worktree of a write job from its submission to the prune.
  \<^item> This theory: properties that need several of them, namely a job's detail after the cleanup of its run file, and \<^verbatim>\<open>pi_status\<close>
    against the dashboard.

  \<^bold>\<open>Reading the model.\<close> Strings are byte strings, instants and durations are integers in nanoseconds, an error is a left value
  or an option, a nil pointer is \<open>None\<close>. A critical section takes the registry and returns it; the flag \<open>ok\<close> says
  whether its database write succeeds. What the code asks of the outside (files, git, processes, the clock, \<^verbatim>\<open>fsnotify\<close>, the JSON decoder,
  the SHA of a snapshot) is an argument or a field of a record (\<open>FS\<close>, \<open>Os\<close>, \<open>SpawnOs\<close>, \<open>StoreOs\<close>, \<open>Json\<close>, \<open>CallObs\<close>,
  \<open>TickObs\<close>); a theorem that relies on how it behaves names that as a hypothesis: \<open>git_contract\<close> of \<open>Worktree\<close> is git's
  documented behaviour, a decoder decodes what the encoder wrote, modification time and size tell contents apart. The interfaces
  (\<open>transition_system\<close>, \<open>weak_order\<close>, \<open>job_store\<close>, \<open>jobs_service\<close>) are locales, interpreted on the model where the provider is defined.

  \<^bold>\<open>What is shown.\<close> Of the registry, over all interleavings: the cap, terminal statuses and records are final, \<^verbatim>\<open>done\<close> is
  closed once, a worktree is pruned once and never under a running process, every job ends and the registry can always be drained, no slot idles
  while a job waits, the queue is first in first out, the table holds what memory holds, and the whole is a refinement of the scheduler.
  Of reconciliation: claims are exclusive, a dead owner's job is failed, and an orphan's worktree can leak. Of \<^verbatim>\<open>pi_status\<close>: its answer on every
  branch, the end of every wait, the cases in which what it says of a job is wrong, and that the deltas of a session add up to one replay.
  Of worktrees: an aborted write job leaves the repository as if it had never been, and a failed submission leaves the registry alone. Of the streams and watchers: no hint, frame or
  last snapshot is lost. Of the dashboard: what is shown is what is stored, caching is transparent, a stream is read back exactly and a
  client that keeps up is current. Of the start: opening the store is safe and repeatable, what is served is a reachable registry, and after a
  crash at any moment every job of the dead server is terminal, with what memory held.
  Of the service: every tool call is at most one step of the registry, so that what holds of reachable states holds at every moment.

  \<^bold>\<open>Loops.\<close> Recursion is structural or has a measure, with these exceptions. \<open>wait_loop\<close> takes fuel, one unit per wake;
  it has returned by the first iteration whose clock is at or past the deadline, so fuel beyond that iteration is enough. \<open>climb\<close> and
  \<open>descend\<close> of \<open>Watch\<close> are partial functions, as the loops of the code are unbounded; they are proved to end for an absolute
  target, with bounds by the number of path components.
  \<open>waitForTailscaleIP\<close> is a partial function, since the code waits for ever on a machine without a tailnet; it returns as soon as
  one attempt succeeds or the context is cancelled.

  \<^bold>\<open>Not modelled.\<close> The text of the SQL and its pragmas: a statement is one transition of the table, which is what write-ahead
  logging with a busy timeout provides. Process groups and signals of a killed child: a cancelled context ends its stream. The
  MCP transport, \<^verbatim>\<open>net/http\<close>'s file server and redirects, the embedded web assets, flag parsing, logging and the signal context. The interface assertions of \<^verbatim>\<open>app/ports.go\<close> and the seams that only tests replace have no behaviour of their own. The npm
  installer is JavaScript.
\<close>

section \<open>The snapshot a job leaves behind\<close>

lemma SaveSnapshot_get:
  "tbl_get (snd (SaveSnapshot True jid sn pid t)) jid =
     map_option (\<lambda>r. if row_ownerPid r = pid then r\<lparr>row_runSnapshot := sn\<rparr> else r) (tbl_get t jid)"
  by (induction t) (auto simp: SaveSnapshot_def tbl_get_def)

lemma SaveSnapshot_wf: "wf_table t \<Longrightarrow> wf_table (snd (SaveSnapshot ok jid sn pid t))"
  by (auto simp: SaveSnapshot_def wf_table_def comp_def if_distrib cong: if_cong)

lemma finish_post_store:
  assumes "jr_RunID (jb_Record (rg_mem r ! a)) = runID" and "runID \<noteq> []" and "jr_RunsDir (jb_Record (rg_mem r ! a)) = runsDir"
    and "sn runsDir runID = b" and "b \<noteq> []"
  shows "rg_store (snd (snd (finish_post (Some sn) ok a r))) =
    snd (SaveSnapshot ok (jr_JobID (jb_Record (rg_mem r ! a))) b (rg_ownerPid r) (rg_store r))"
  using assms by (simp add: finish_post_def Let_def upd_job_def)

text \<open>The detail of a terminal row, from the file and from the snapshot.\<close>

lemma handleJob_from_file:
  assumes "wf_table t" and "tbl_get t jid = Some row" and "jid \<noteq> []" and "IsTerminal (row_status row)"
    and "jr_RunID (row_rec row) \<noteq> []" and "cache_ok (dv_dec e) {dv_fs e} c"
    and "decodeRunFile (dv_fs e) (dv_dec e) (Join [jr_RunsDir (row_rec row), jr_RunID (row_rec row) @ ''.json'']) = Inr r"
  shows "fst (handleJob e True True (Some t) now (''/api/job/'' @ jid) c) = JobJSON (detail_of e (row_rec row) r)"
proof -
  let ?rec = "\<lambda>s. (row_rec row)\<lparr>jr_RunSnapshot := s\<rparr>"
  have run: "cache_ok (dv_dec e) {dv_fs e} d \<Longrightarrow> fst (run_of e now (?rec s) d) = Some r \<and> cache_ok (dv_dec e) {dv_fs e} (snd (run_of e now (?rec s) d))" for s d
    using assms(5,7) by (intro run_of_file) simp_all
  have "fst (BuildDetail e (?rec s) now c) = detail_of e (row_rec row) r" for s
    using BuildDetail_terminal [of "?rec s" e now c r] run [OF assms(6), of s] run [of "snd (run_of e now (?rec s) c)" s] assms(4)
      detail_of_cong [OF refl] by simp
  then show ?thesis
    unfolding handleJob_row [OF assms(1-3)] by (simp add: Let_def)
qed

lemma handleJob_from_snapshot:
  assumes "wf_table t" and "tbl_get t jid = Some row" and "jid \<noteq> []" and "IsTerminal (row_status row)"
    and "run_file_gone (dv_fs e) (jr_RunsDir (row_rec row)) (jr_RunID (row_rec row))"
    and "row_runSnapshot row \<noteq> []" and "dv_dec e (row_runSnapshot row) = Some r"
  shows "fst (handleJob e True True (Some t) now (''/api/job/'' @ jid) c) = JobJSON (detail_of e (row_rec row) r)"
proof -
  have none: "\<not> dash_runFileExists (dv_fs e) (jr_RunsDir (row_rec row)) (jr_RunID (row_rec row))"
    using assms(5) by (auto simp: dash_runFileExists_def run_file_gone_def Let_def)
  let ?rec = "(row_rec row)\<lparr>jr_RunSnapshot := row_runSnapshot row\<rparr>"
  have "fst (run_of e now ?rec d) = Some r" for d
    using run_of_gone [of e ?rec now d] assms(5-7) by (simp add: decodeSnapshot_def)
  then have "fst (BuildDetail e ?rec now c) = detail_of e (row_rec row) r"
    using BuildDetail_terminal [of ?rec e now c r] assms(4) detail_of_cong [OF refl] by simp
  then show ?thesis
    unfolding handleJob_row [OF assms(1-3)] using none by (simp add: Let_def)
qed


text \<open>The job of the examples: its run file \<^verbatim>\<open>/d/r.json\<close> is there when it ends and gone afterwards.\<close>

definition done_rec :: "JobStatus \<Rightarrow> JobRecord" where
  "done_rec st = (sample_rec ''j1'' st)\<lparr>jr_RunID := ''r'', jr_RunsDir := ''/d''\<rparr>"

lemma done_rec_simps [simp]:
  "jr_JobID (done_rec st) = ''j1''" "jr_Status (done_rec st) = st" "jr_RunID (done_rec st) = ''r''" "jr_RunsDir (done_rec st) = ''/d''"
  "jr_RunSnapshot (done_rec st) = []" "jr_Mode (done_rec st) = []" "jr_PID (done_rec st) = 0"
  "(done_rec st)\<lparr>jr_RunSnapshot := []\<rparr> = done_rec st"
  by (simp_all add: done_rec_def sample_rec_def zero_JobRecord_def)

definition done_reg :: Registry where
  "done_reg = (NewRegistry 1 7 [] [row_of (done_rec JobCompleted) 7 [] 0])\<lparr>
     rg_mem := [(NewJob (demo_spec ''j1'') [] 0)\<lparr>jb_Record := done_rec JobCompleted\<rparr>]\<rparr>"

definition empty_fs :: FS where
  "empty_fs = (sample_fs [] [])\<lparr>fs_ReadFile := (\<lambda>_. Inl ErrNotExist), fs_Stat := (\<lambda>_. Inl ErrNotExist)\<rparr>"


section \<open>The two surfaces\<close>

text \<open>The target \<^verbatim>\<open>pi_status\<close> resolves for a job id, and the dashboard's summary of the same record.\<close>

lemma resolve_by_job:
  assumes "resolveTarget fs jv inp = Inr tgt" and "si_JobID inp \<noteq> []" and "jv_Lookup jv (si_JobID inp) = Some rc"
  shows "rs_jobStatus tgt = jr_Status rc \<and> rs_pid tgt = jr_PID rc \<and> rs_mode tgt = jr_Mode rc \<and> rs_jobID tgt = jr_JobID rc"
  using assms by (auto simp: resolveTarget_def)

lemma summarize_live:
  "fst (run_of e now rc c) = Some run \<Longrightarrow> \<not> IsTerminal (jr_Status rc) \<Longrightarrow>
   js_Status (fst (summarize e now rc c)) = Derive (run_Status run) (run_UpdatedAt run) now True
     (jr_Mode rc = ModeWrite \<and> WorktreeActive (jr_WorktreePath rc) (dv_tree e (jr_WorktreePath rc)) now)"
  by (simp add: summarize_def case_prod_unfold Let_def summary_run_def)


definition surf_sv :: "JobStatus \<Rightarrow> StatusEnv" where
  "surf_sv st = (demo_sv (\<lambda>_. Inr (sample_run ''running'')))\<lparr>sv_jobs := demo_jobs\<lparr>jv_Lookup := (\<lambda>_. Some (done_rec st))\<rparr>\<rparr>"


end
